(* ===== verification/Prelude.thy ===== *)
theory Prelude
  imports Main "HOL-Library.Word" "HOL-Library.Signed_Division"
begin

text \<open>
  Shared vocabulary of the development: results with two kinds of failure,
  the machine integers of the contract and their checked operations, the
  key-ordered association list that stands for the host's \<open>Map\<close>, and the
  named collections of simplification rules the component theories fill.
\<close>

section \<open>Collections\<close>

named_theorems store_defs "getters and setters of the contract storage"
named_theorems const_defs "the named constants of the contract"
named_theorems guard_defs "guards shared by the entry points"
named_theorems res_simps "inversion rules for successful results"

section \<open>Results\<close>

text \<open>
  A contract function returns \<open>Result<T, Error>\<close> and may also trap the host
  (a failed \<open>require_auth\<close>, an \<open>unwrap\<close> of \<open>None\<close>, an arithmetic overflow
  under \<open>overflow-checks = true\<close>, a trap in a called contract). Both are the
  left side of a sum: \<open>Fail e\<close> is a returned error, \<open>Panic\<close> a trap.
\<close>

datatype 'e fail = Fail 'e | Panic

type_synonym ('e, 'a) res = "'e fail + 'a"

abbreviation Ok :: "'a \<Rightarrow> ('e, 'a) res" where
  "Ok x \<equiv> Inr x"

abbreviation Err :: "'e \<Rightarrow> ('e, 'a) res" where
  "Err e \<equiv> Inl (Fail e)"

abbreviation Trap :: "('e, 'a) res" where
  "Trap \<equiv> Inl Panic"

definition is_ok :: "('e, 'a) res \<Rightarrow> bool" where
  "is_ok r = (case r of Inl _ \<Rightarrow> False | Inr _ \<Rightarrow> True)"

lemma is_ok_simps [simp]:
  "is_ok (Inr x)" "\<not> is_ok (Inl f)"
  by (simp_all add: is_ok_def)

text \<open>
  The source's \<open>?\<close> operator, \<open>Option::ok_or(err)?\<close> and \<open>Option::unwrap\<close>.
\<close>

definition and_then :: "('e, 'a) res \<Rightarrow> ('a \<Rightarrow> ('e, 'b) res) \<Rightarrow> ('e, 'b) res" where
  "and_then r k = (case r of Inl f \<Rightarrow> Inl f | Inr x \<Rightarrow> k x)"

definition ok_or :: "'a option \<Rightarrow> 'e \<Rightarrow> ('e, 'a) res" where
  "ok_or m e = (case m of None \<Rightarrow> Err e | Some x \<Rightarrow> Ok x)"

definition unwrap :: "'a option \<Rightarrow> ('e, 'a) res" where
  "unwrap m = (case m of None \<Rightarrow> Trap | Some x \<Rightarrow> Ok x)"

lemma and_then_simps [simp]:
  "and_then (Inr x) k = k x" "and_then (Inl f) k = Inl f"
  by (simp_all add: and_then_def)

lemma ok_or_simps [simp]:
  "ok_or (Some x) er = Inr x" "ok_or None er = Err er"
  by (simp_all add: ok_or_def)

lemma unwrap_simps [simp]:
  "unwrap (Some x) = Inr x" "unwrap None = Trap"
  by (simp_all add: unwrap_def)

lemma and_then_eq_ok [res_simps]:
  "and_then r k = Inr y \<longleftrightarrow> (\<exists>x. r = Inr x \<and> k x = Inr y)"
  by (simp add: and_then_def split: sum.split)

lemma and_then_eq_err:
  "and_then r k = Inl f \<longleftrightarrow> r = Inl f \<or> (\<exists>x. r = Inr x \<and> k x = Inl f)"
  by (auto simp: and_then_def split: sum.split)

lemma ok_or_eq_ok [res_simps]: "ok_or m er = Inr x \<longleftrightarrow> m = Some x"
  by (cases m) simp_all

lemma unwrap_eq_ok [res_simps]: "unwrap m = Inr x \<longleftrightarrow> m = Some x"
  by (cases m) simp_all

lemma and_then_cong [fundef_cong]:
  "r = r' \<Longrightarrow> (\<And>x. r' = Inr x \<Longrightarrow> k x = k' x) \<Longrightarrow> and_then r k = and_then r' k'"
  by (simp add: and_then_def split: sum.split)

text \<open>
  How the host ends an invocation: a failed one leaves the ledger as it was.
\<close>

definition commit :: "'s \<Rightarrow> ('e, 's) res \<Rightarrow> 's" where
  "commit s r = (case r of Inl _ \<Rightarrow> s | Inr s' \<Rightarrow> s')"

lemma commit_simps [simp]:
  "commit s (Inl f) = s" "commit s (Inr s') = s'"
  by (simp_all add: commit_def)

lemma if_err_eq_ok [res_simps]:
  "(if b then Inl f else r) = Inr x \<longleftrightarrow> \<not> b \<and> r = Inr x"
  by simp

lemma if_ok_eq_ok [res_simps]:
  "(if b then r else Inr y) = Inr x \<longleftrightarrow> b \<and> r = Inr x \<or> \<not> b \<and> x = y"
  by auto

lemma case_prod_eq_ok [res_simps]:
  "(case p of (a, b) \<Rightarrow> k a b) = Inr y \<longleftrightarrow> (\<exists>a b. p = (a, b) \<and> k a b = Inr y)"
  by (simp split: prod.split)

lemma case_option_err_eq_ok [res_simps]:
  "(case m of None \<Rightarrow> Inl f | Some y \<Rightarrow> k y) = Inr x \<longleftrightarrow> (\<exists>y. m = Some y \<and> k y = Inr x)"
  by (simp split: option.split)

lemma case_sum_err_eq_ok [res_simps]:
  "(case r of Inl f \<Rightarrow> Inl f | Inr y \<Rightarrow> k y) = Inr x \<longleftrightarrow> (\<exists>y. r = Inr y \<and> k y = Inr x)"
  by (simp split: sum.split)

section \<open>Machine integers\<close>

text \<open>
  \<open>u32\<close> and \<open>u64\<close> are naturals and \<open>i128\<close> an integer, with the ranges of the
  Rust types written out in every operation that can leave them. Unsigned
  subtraction is used only under a guard or as \<open>saturating_sub\<close>, which is what
  \<open>-\<close> on \<^typ>\<open>nat\<close> computes.
\<close>

type_synonym u32 = nat
type_synonym u64 = nat
type_synonym i128 = int

definition u32_max :: u32 where "u32_max = 4294967295"
definition u64_max :: u64 where "u64_max = 18446744073709551615"
definition i128_min :: i128 where "i128_min = - 170141183460469231731687303715884105728"
definition i128_max :: i128 where "i128_max = 170141183460469231731687303715884105727"

definition in_i128 :: "i128 \<Rightarrow> bool" where
  "in_i128 x \<longleftrightarrow> i128_min \<le> x \<and> x \<le> i128_max"

definition u32_checked_add :: "u32 \<Rightarrow> u32 \<Rightarrow> u32 option" where
  "u32_checked_add a b = (if a + b \<le> u32_max then Some (a + b) else None)"

definition u32_saturating_add :: "u32 \<Rightarrow> u32 \<Rightarrow> u32" where
  "u32_saturating_add a b = min (a + b) u32_max"

definition u32_checked_sub :: "u32 \<Rightarrow> u32 \<Rightarrow> u32 option" where
  "u32_checked_sub a b = (if b \<le> a then Some (a - b) else None)"

definition u64_checked_add :: "u64 \<Rightarrow> u64 \<Rightarrow> u64 option" where
  "u64_checked_add a b = (if a + b \<le> u64_max then Some (a + b) else None)"

definition u64_checked_sub :: "u64 \<Rightarrow> u64 \<Rightarrow> u64 option" where
  "u64_checked_sub a b = (if b \<le> a then Some (a - b) else None)"

definition u64_checked_mul :: "u64 \<Rightarrow> u64 \<Rightarrow> u64 option" where
  "u64_checked_mul a b = (if a * b \<le> u64_max then Some (a * b) else None)"

definition i128_checked_add :: "i128 \<Rightarrow> i128 \<Rightarrow> i128 option" where
  "i128_checked_add a b = (if in_i128 (a + b) then Some (a + b) else None)"

definition i128_checked_sub :: "i128 \<Rightarrow> i128 \<Rightarrow> i128 option" where
  "i128_checked_sub a b = (if in_i128 (a - b) then Some (a - b) else None)"

definition i128_checked_mul :: "i128 \<Rightarrow> i128 \<Rightarrow> i128 option" where
  "i128_checked_mul a b = (if in_i128 (a * b) then Some (a * b) else None)"

text \<open>Rust's \<open>/\<close> truncates towards zero; \<open>checked_div\<close> also refuses a zero divisor.\<close>

definition i128_checked_div :: "i128 \<Rightarrow> i128 \<Rightarrow> i128 option" where
  "i128_checked_div a b =
     (if b = 0 then None else if in_i128 (a sdiv b) then Some (a sdiv b) else None)"

definition u32_div_ceil :: "u32 \<Rightarrow> u32 \<Rightarrow> u32" where
  "u32_div_ceil a b = (a + b - 1) div b"

lemmas checked_simps =
  u32_checked_add_def u32_checked_sub_def u64_checked_add_def u64_checked_sub_def
  u64_checked_mul_def i128_checked_add_def i128_checked_sub_def i128_checked_mul_def
  i128_checked_div_def

lemma checked_eq_Some [res_simps]:
  "u32_checked_add a b = Some c \<longleftrightarrow> c = a + b \<and> a + b \<le> u32_max"
  "u32_checked_sub a b = Some c \<longleftrightarrow> c = a - b \<and> b \<le> a"
  "u64_checked_add a b = Some c \<longleftrightarrow> c = a + b \<and> a + b \<le> u64_max"
  "u64_checked_sub a b = Some c \<longleftrightarrow> c = a - b \<and> b \<le> a"
  "u64_checked_mul a b = Some c \<longleftrightarrow> c = a * b \<and> a * b \<le> u64_max"
  "i128_checked_add i j = Some k \<longleftrightarrow> k = i + j \<and> in_i128 (i + j)"
  "i128_checked_sub i j = Some k \<longleftrightarrow> k = i - j \<and> in_i128 (i - j)"
  "i128_checked_mul i j = Some k \<longleftrightarrow> k = i * j \<and> in_i128 (i * j)"
  "i128_checked_div i j = Some k \<longleftrightarrow> j \<noteq> 0 \<and> k = i sdiv j \<and> in_i128 (i sdiv j)"
  by (auto simp: checked_simps)

text \<open>On non-negative operands truncating and flooring division agree.\<close>

lemma sdiv_nonneg [simp]: "0 \<le> a \<Longrightarrow> 0 \<le> b \<Longrightarrow> (a::int) sdiv b = a div b"
  by (cases "a = 0"; cases "b = 0") (auto simp: signed_divide_int_def sgn_if)

lemma sdiv_nonneg_nonneg: "0 \<le> a \<Longrightarrow> 0 \<le> b \<Longrightarrow> 0 \<le> (a::int) sdiv b"
  by (simp add: pos_imp_zdiv_nonneg_iff div_int_pos_iff)

text \<open>
  The \<^typ>\<open>nat\<close> model of \<open>u32\<close> addition agrees with addition on 32-bit words
  exactly where the checked operation succeeds, and wrap-around is what the
  check excludes.
\<close>

lemma u32_checked_add_word:
  assumes "u32_checked_add (unat (x :: 32 word)) (unat y) = Some c"
  shows "unat (x + y) = c"
  using assms by (auto simp: checked_simps u32_max_def unat_word_ariths split: if_splits)

lemma u32_checked_add_word_None:
  "u32_checked_add (unat (x :: 32 word)) (unat y) = None \<longleftrightarrow> x + y < x"
proof -
  have bnd_x: "unat x < 4294967296" using unsigned_less [where 'a = nat, of x] by simp
  have bnd_y: "unat y < 4294967296" using unsigned_less [where 'a = nat, of y] by simp
  have "unat (x + y) = (unat x + unat y) mod 4294967296"
    by (simp add: unat_word_ariths)
  moreover have "(n + m) mod k < n \<longleftrightarrow> k \<le> n + m" if "n < k" "m < k" for n m k :: nat
  proof (cases "n + m < k")
    case False
    then have "(n + m) mod k = n + m - k"
      using that by (subst le_mod_geq) auto
    with False that show ?thesis by linarith
  qed simp
  from this [OF bnd_x bnd_y]
  have "(unat x + unat y) mod 4294967296 < unat x \<longleftrightarrow> 4294967296 \<le> unat x + unat y" .
  ultimately show ?thesis
    by (auto simp: checked_simps u32_max_def word_less_nat_alt)
qed

lemma u64_checked_mul_word:
  assumes "u64_checked_mul (unat (x :: 64 word)) (unat y) = Some c"
  shows "unat (x * y) = c"
  using assms by (auto simp: checked_simps u64_max_def unat_word_ariths split: if_splits)

lemma in_i128_sint: "in_i128 (sint (x :: 128 word))"
proof -
  have "- (2 ^ 127) \<le> sint x" "sint x < 2 ^ 127"
    using sint_ge [of x] sint_lt [of x] by simp_all
  then show ?thesis by (simp add: in_i128_def i128_min_def i128_max_def)
qed

section \<open>Key-ordered association lists\<close>

text \<open>
  The host's \<open>Map\<close> iterates in key order. \<open>omap_get\<close> and \<open>omap_set\<close> are its
  lookup and insertion over a list sorted by key.
\<close>

fun omap_get :: "('k \<times> 'v) list \<Rightarrow> 'k \<Rightarrow> 'v option" where
  "omap_get [] k = None"
| "omap_get ((k', v) # m) k = (if k = k' then Some v else omap_get m k)"

fun omap_set :: "('k::linorder) \<Rightarrow> 'v \<Rightarrow> ('k \<times> 'v) list \<Rightarrow> ('k \<times> 'v) list" where
  "omap_set k v [] = [(k, v)]"
| "omap_set k v ((k', v') # m) =
     (if k < k' then (k, v) # (k', v') # m
      else if k = k' then (k, v) # m
      else (k', v') # omap_set k v m)"

definition omap_keys :: "('k \<times> 'v) list \<Rightarrow> 'k set" where
  "omap_keys m = fst ` set m"

lemma omap_get_set: "omap_get (omap_set k v m) k' = (if k' = k then Some v else omap_get m k')"
  by (induction k v m rule: omap_set.induct) auto

lemma omap_keys_set [simp]: "fst ` set (omap_set k v m) = insert k (fst ` set m)"
  by (induction k v m rule: omap_set.induct) auto

lemma omap_set_sorted:
  "sorted_wrt (<) (map fst m) \<Longrightarrow> sorted_wrt (<) (map fst (omap_set k v m))"
proof (induction k v m rule: omap_set.induct)
  case (2 k v k' v' m)
  have "set (map fst (omap_set k v m)) = insert k (fst ` set m)" by simp
  with 2 show ?case by (auto simp: image_iff)
qed simp

lemma omap_set_sum:
  fixes v :: int
  assumes "sorted_wrt (<) (map fst m)"
  shows "sum_list (map snd (omap_set k v m)) =
         sum_list (map snd m) - (case omap_get m k of None \<Rightarrow> 0 | Some u \<Rightarrow> u) + v"
  using assms
proof (induction k v m rule: omap_set.induct)
  case (2 k v k' v' m)
  have "omap_get m k = None" if "k < k'"
  proof -
    have "k \<notin> fst ` set m" using 2(2) that by (auto dest: order.strict_trans)
    then show ?thesis by (induction m) auto
  qed
  with 2 show ?case by auto
qed simp

section \<open>Maps and lists\<close>

lemma upd_conv: "(m(k \<mapsto> v)) k' = (if k' = k then Some v else m k')"
  by simp

lemma upd_None_conv: "(m(k := None)) k' = (if k' = k then None else m k')"
  by simp

text \<open>Sum of an integer map over a finite support, as the accounting invariants need it.\<close>

definition support_sum :: "('k \<Rightarrow> int) \<Rightarrow> int" where
  "support_sum f = (\<Sum>k \<in> {k. f k \<noteq> 0}. f k)"

lemma support_sum_superset:
  assumes "finite A" "{k. f k \<noteq> 0} \<subseteq> A"
  shows "support_sum f = sum f A"
  unfolding support_sum_def using assms by (intro sum.mono_neutral_left) auto

lemma support_sum_upd:
  assumes "finite {k. f k \<noteq> 0}"
  shows "support_sum (f(k := v)) = support_sum f - f k + v"
proof -
  let ?A = "insert k {k. f k \<noteq> 0}"
  have "finite ?A" using assms by simp
  moreover have "{j. (f(k := v)) j \<noteq> 0} \<subseteq> ?A" by auto
  ultimately have "support_sum (f(k := v)) = sum (f(k := v)) ?A" by (rule support_sum_superset)
  also have "\<dots> = v + sum (f(k := v)) (?A - {k})"
    using \<open>finite ?A\<close> by (subst sum.remove [of _ k]) auto
  also have "sum (f(k := v)) (?A - {k}) = sum f (?A - {k})"
    by (intro sum.cong) auto
  also have "sum f (?A - {k}) = sum f ?A - f k"
    using \<open>finite ?A\<close> by (subst sum.remove [of ?A k]) auto
  also have "sum f ?A = support_sum f"
    using \<open>finite ?A\<close> by (subst support_sum_superset [of ?A f]) auto
  finally show ?thesis by (simp only: add.commute)
qed

lemma finite_support_upd:
  assumes "finite {k. f k \<noteq> (0::int)}"
  shows "finite {j. (f(k := v)) j \<noteq> 0}"
  by (rule finite_subset [of _ "insert k {k. f k \<noteq> 0}"]) (use assms in auto)

lemma support_sum_nonneg: "(\<And>k. 0 \<le> f k) \<Longrightarrow> 0 \<le> support_sum f"
  unfolding support_sum_def by (intro sum_nonneg) simp

lemma le_support_sum:
  assumes "\<And>k. 0 \<le> f k" "finite {k. f k \<noteq> 0}"
  shows "f k \<le> support_sum f"
proof (cases "f k = 0")
  case True
  with support_sum_nonneg [of f] assms(1) show ?thesis by simp
next
  case False
  then show ?thesis unfolding support_sum_def using assms by (intro member_le_sum) auto
qed

lemma support_sum_mono:
  assumes "\<And>k. f k \<le> g k" "finite {k. f k \<noteq> 0}" "finite {k. g k \<noteq> 0}"
  shows "support_sum f \<le> support_sum g"
proof -
  let ?A = "{k. f k \<noteq> 0} \<union> {k. g k \<noteq> 0}"
  have "support_sum f = sum f ?A" "support_sum g = sum g ?A"
    using assms by (auto intro: support_sum_superset)
  then show ?thesis using assms(1) by (simp add: sum_mono)
qed

lemma support_sum_zero [simp]: "support_sum (\<lambda>_. 0) = 0"
  by (simp add: support_sum_def)

end
