(* ===== verification/Types.thy ===== *)
theory Types
  imports Prelude
begin

text \<open>
  The data of the contract: \<^verbatim>\<open>src/types.rs\<close> (structs as records, enums as datatypes with the
  source's constructors), \<^verbatim>\<open>src/errors.rs\<close>, the constants of \<^verbatim>\<open>src/constants.rs\<close> and
  \<^verbatim>\<open>src/lib.rs\<close>, and what the contract sees of its host: addresses, 32-byte hashes,
  published events and the invocation environment.
\<close>

section \<open>Host values\<close>

text \<open>
  An address is opaque; the host orders addresses (its \<open>Map\<close> iterates in that order).
\<close>

datatype address = Address nat

instantiation address :: linorder
begin

fun less_eq_address :: "address \<Rightarrow> address \<Rightarrow> bool" where
  "less_eq_address (Address a) (Address b) = (a \<le> b)"

fun less_address :: "address \<Rightarrow> address \<Rightarrow> bool" where
  "less_address (Address a) (Address b) = (a < b)"

instance
proof
  fix x y z :: address
  show "(x < y) = (x \<le> y \<and> \<not> y \<le> x)" by (cases x; cases y) auto
  show "x \<le> x" by (cases x) auto
  show "x \<le> y \<Longrightarrow> y \<le> z \<Longrightarrow> x \<le> z" by (cases x; cases y; cases z) auto
  show "x \<le> y \<Longrightarrow> y \<le> x \<Longrightarrow> x = y" by (cases x; cases y) auto
  show "x \<le> y \<or> y \<le> x" by (cases x; cases y) auto
qed

end

type_synonym bytes32 = "8 word list"

section \<open>Errors\<close>

datatype error =
    NotAuthorized
  | CampaignNotFound
  | CampaignNotActive
  | FundingGoalMustBePositive
  | InvalidDuration
  | InvalidRevenueShare
  | RevenueShareOnlyForStartup
  | DeadlinePassed
  | ContributionMustBePositive
  | DeadlineNotPassed
  | FundsAlreadyWithdrawn
  | FundingGoalNotReached
  | NoFundsToWithdraw
  | CampaignAlreadyVerified
  | ValidationFailed
  | AlreadyVoted
  | NotTokenHolder
  | VotingQuorumNotMet
  | VotingThresholdNotMet
  | AlreadyInitialized
  | NotPendingOwner
  | NoTransferPending
  | InvalidNewOwner
  | ContractPaused
  | ContributionCapExceeded
  | CampaignNotVerified
  | AmountRaisedIsZero
  | RevenueSharingNotEnabled
  | CancellationNotAllowed
  | Overflow
  | InvalidTokenContract
  | CreationDisabled
  | FundingGoalTooLow
  | AdminVerificationConflict
  | CommunityVerificationConflict
  | DeadlineAlreadyExtended
  | ExtensionTooLong
  | FundingGoalTooHigh
  | InvalidPlatformFee
  | TransferAlreadyPending
  | InvalidVestingDelay
  | GoalMetCancellationNotAllowed
  | InvalidStateTransition
  | CampaignAlreadyBookmarked
  | CampaignNotBookmarked
  | PersonalCapNotFound
  | BookmarkLimitReached
  | MilestoneNotFound
  | MilestoneNotVerified
  | MilestoneAlreadyClaimed

text \<open>The wire code (\<open>repr(u32)\<close>) and the canonical name of each error.\<close>

primrec error_code :: "error \<Rightarrow> u32" where
  "error_code NotAuthorized = 1"
| "error_code CampaignNotFound = 2"
| "error_code CampaignNotActive = 3"
| "error_code FundingGoalMustBePositive = 4"
| "error_code InvalidDuration = 5"
| "error_code InvalidRevenueShare = 6"
| "error_code RevenueShareOnlyForStartup = 7"
| "error_code DeadlinePassed = 8"
| "error_code ContributionMustBePositive = 9"
| "error_code DeadlineNotPassed = 10"
| "error_code FundsAlreadyWithdrawn = 11"
| "error_code FundingGoalNotReached = 12"
| "error_code NoFundsToWithdraw = 13"
| "error_code CampaignAlreadyVerified = 14"
| "error_code ValidationFailed = 15"
| "error_code AlreadyVoted = 16"
| "error_code NotTokenHolder = 17"
| "error_code VotingQuorumNotMet = 18"
| "error_code VotingThresholdNotMet = 19"
| "error_code AlreadyInitialized = 20"
| "error_code NotPendingOwner = 21"
| "error_code NoTransferPending = 22"
| "error_code InvalidNewOwner = 23"
| "error_code ContractPaused = 24"
| "error_code ContributionCapExceeded = 25"
| "error_code CampaignNotVerified = 26"
| "error_code AmountRaisedIsZero = 27"
| "error_code RevenueSharingNotEnabled = 28"
| "error_code CancellationNotAllowed = 29"
| "error_code Overflow = 30"
| "error_code InvalidTokenContract = 31"
| "error_code CreationDisabled = 32"
| "error_code FundingGoalTooLow = 33"
| "error_code AdminVerificationConflict = 34"
| "error_code CommunityVerificationConflict = 35"
| "error_code DeadlineAlreadyExtended = 36"
| "error_code ExtensionTooLong = 37"
| "error_code FundingGoalTooHigh = 38"
| "error_code InvalidPlatformFee = 39"
| "error_code TransferAlreadyPending = 40"
| "error_code InvalidVestingDelay = 41"
| "error_code GoalMetCancellationNotAllowed = 42"
| "error_code InvalidStateTransition = 43"
| "error_code CampaignAlreadyBookmarked = 44"
| "error_code CampaignNotBookmarked = 45"
| "error_code PersonalCapNotFound = 46"
| "error_code BookmarkLimitReached = 47"
| "error_code MilestoneNotFound = 48"
| "error_code MilestoneNotVerified = 49"
| "error_code MilestoneAlreadyClaimed = 50"

primrec error_name :: "error \<Rightarrow> string" where
  "error_name NotAuthorized = ''NotAuthorized''"
| "error_name CampaignNotFound = ''CampaignNotFound''"
| "error_name CampaignNotActive = ''CampaignNotActive''"
| "error_name FundingGoalMustBePositive = ''FundingGoalMustBePositive''"
| "error_name InvalidDuration = ''InvalidDuration''"
| "error_name InvalidRevenueShare = ''InvalidRevenueShare''"
| "error_name RevenueShareOnlyForStartup = ''RevenueShareOnlyForStartup''"
| "error_name DeadlinePassed = ''DeadlinePassed''"
| "error_name ContributionMustBePositive = ''ContributionMustBePositive''"
| "error_name DeadlineNotPassed = ''DeadlineNotPassed''"
| "error_name FundsAlreadyWithdrawn = ''FundsAlreadyWithdrawn''"
| "error_name FundingGoalNotReached = ''FundingGoalNotReached''"
| "error_name NoFundsToWithdraw = ''NoFundsToWithdraw''"
| "error_name CampaignAlreadyVerified = ''CampaignAlreadyVerified''"
| "error_name ValidationFailed = ''ValidationFailed''"
| "error_name AlreadyVoted = ''AlreadyVoted''"
| "error_name NotTokenHolder = ''NotTokenHolder''"
| "error_name VotingQuorumNotMet = ''VotingQuorumNotMet''"
| "error_name VotingThresholdNotMet = ''VotingThresholdNotMet''"
| "error_name AlreadyInitialized = ''AlreadyInitialized''"
| "error_name NotPendingOwner = ''NotPendingOwner''"
| "error_name NoTransferPending = ''NoTransferPending''"
| "error_name InvalidNewOwner = ''InvalidNewOwner''"
| "error_name ContractPaused = ''ContractPaused''"
| "error_name ContributionCapExceeded = ''ContributionCapExceeded''"
| "error_name CampaignNotVerified = ''CampaignNotVerified''"
| "error_name AmountRaisedIsZero = ''AmountRaisedIsZero''"
| "error_name RevenueSharingNotEnabled = ''RevenueSharingNotEnabled''"
| "error_name CancellationNotAllowed = ''CancellationNotAllowed''"
| "error_name Overflow = ''Overflow''"
| "error_name InvalidTokenContract = ''InvalidTokenContract''"
| "error_name CreationDisabled = ''CreationDisabled''"
| "error_name FundingGoalTooLow = ''FundingGoalTooLow''"
| "error_name AdminVerificationConflict = ''AdminVerificationConflict''"
| "error_name CommunityVerificationConflict = ''CommunityVerificationConflict''"
| "error_name DeadlineAlreadyExtended = ''DeadlineAlreadyExtended''"
| "error_name ExtensionTooLong = ''ExtensionTooLong''"
| "error_name FundingGoalTooHigh = ''FundingGoalTooHigh''"
| "error_name InvalidPlatformFee = ''InvalidPlatformFee''"
| "error_name TransferAlreadyPending = ''TransferAlreadyPending''"
| "error_name InvalidVestingDelay = ''InvalidVestingDelay''"
| "error_name GoalMetCancellationNotAllowed = ''GoalMetCancellationNotAllowed''"
| "error_name InvalidStateTransition = ''InvalidStateTransition''"
| "error_name CampaignAlreadyBookmarked = ''CampaignAlreadyBookmarked''"
| "error_name CampaignNotBookmarked = ''CampaignNotBookmarked''"
| "error_name PersonalCapNotFound = ''PersonalCapNotFound''"
| "error_name BookmarkLimitReached = ''BookmarkLimitReached''"
| "error_name MilestoneNotFound = ''MilestoneNotFound''"
| "error_name MilestoneNotVerified = ''MilestoneNotVerified''"
| "error_name MilestoneAlreadyClaimed = ''MilestoneAlreadyClaimed''"

definition all_errors :: "error list" where
  "all_errors = [
    NotAuthorized, CampaignNotFound, CampaignNotActive, FundingGoalMustBePositive,
    InvalidDuration, InvalidRevenueShare, RevenueShareOnlyForStartup, DeadlinePassed,
    ContributionMustBePositive, DeadlineNotPassed, FundsAlreadyWithdrawn, FundingGoalNotReached,
    NoFundsToWithdraw, CampaignAlreadyVerified, ValidationFailed, AlreadyVoted,
    NotTokenHolder, VotingQuorumNotMet, VotingThresholdNotMet, AlreadyInitialized,
    NotPendingOwner, NoTransferPending, InvalidNewOwner, ContractPaused,
    ContributionCapExceeded, CampaignNotVerified, AmountRaisedIsZero, RevenueSharingNotEnabled,
    CancellationNotAllowed, Overflow, InvalidTokenContract, CreationDisabled,
    FundingGoalTooLow, AdminVerificationConflict, CommunityVerificationConflict, DeadlineAlreadyExtended,
    ExtensionTooLong, FundingGoalTooHigh, InvalidPlatformFee, TransferAlreadyPending,
    InvalidVestingDelay, GoalMetCancellationNotAllowed, InvalidStateTransition, CampaignAlreadyBookmarked,
    CampaignNotBookmarked, PersonalCapNotFound, BookmarkLimitReached, MilestoneNotFound,
    MilestoneNotVerified, MilestoneAlreadyClaimed]"

lemma all_errors_code: "error_code e \<le> 50 \<and> 0 < error_code e \<and> all_errors ! (error_code e - 1) = e"
  by (cases e) (simp_all add: all_errors_def)

lemma error_code_inj: "error_code e = error_code e' \<Longrightarrow> e = e'"
  by (metis all_errors_code)

lemma error_name_code: "map error_name all_errors ! (error_code e - 1) = error_name e"
  by (cases e) (simp_all add: all_errors_def)

lemma error_names_distinct: "distinct (map error_name all_errors)"
  by (simp add: all_errors_def)

text \<open>The derived \<open>Ord\<close> of the enum is the order of the codes.\<close>

instantiation error :: linorder
begin

definition less_eq_error :: "error \<Rightarrow> error \<Rightarrow> bool" where
  "less_eq_error a b = (error_code a \<le> error_code b)"

definition less_error :: "error \<Rightarrow> error \<Rightarrow> bool" where
  "less_error a b = (error_code a < error_code b)"

instance
  by standard (auto simp: less_eq_error_def less_error_def intro: error_code_inj)

end

section \<open>Constants\<close>

definition BPS_DENOMINATOR :: u32 where [const_defs]: "BPS_DENOMINATOR = 10000"
definition BPS_CEIL_OFFSET :: i128 where [const_defs]: "BPS_CEIL_OFFSET = int BPS_DENOMINATOR - 1"
definition SECONDS_PER_DAY :: u64 where [const_defs]: "SECONDS_PER_DAY = 86400"
definition TOKEN_UPDATE_DELAY_SECS :: u64 where
  [const_defs]: "TOKEN_UPDATE_DELAY_SECS = 7 * SECONDS_PER_DAY"
definition MAX_TOKEN_UPDATE_DELAY_SECS :: u64 where
  [const_defs]: "MAX_TOKEN_UPDATE_DELAY_SECS = 365 * SECONDS_PER_DAY"
definition MAX_EXTENSION_DAYS :: u64 where [const_defs]: "MAX_EXTENSION_DAYS = 30"
definition MAX_SCAN_WINDOW :: u32 where [const_defs]: "MAX_SCAN_WINDOW = 1000"

definition CONTRACT_VERSION :: u32 where [const_defs]: "CONTRACT_VERSION = 1"
definition CAMPAIGN_TITLE_MIN_LEN :: u32 where [const_defs]: "CAMPAIGN_TITLE_MIN_LEN = 1"
definition CAMPAIGN_TITLE_MAX_LEN :: u32 where [const_defs]: "CAMPAIGN_TITLE_MAX_LEN = 100"
definition CAMPAIGN_DESCRIPTION_MIN_LEN :: u32 where [const_defs]: "CAMPAIGN_DESCRIPTION_MIN_LEN = 1"
definition CAMPAIGN_DESCRIPTION_MAX_LEN :: u32 where [const_defs]: "CAMPAIGN_DESCRIPTION_MAX_LEN = 1000"
definition CAMPAIGN_TAG_MIN_LEN :: u32 where [const_defs]: "CAMPAIGN_TAG_MIN_LEN = 1"
definition CAMPAIGN_TAG_MAX_LEN :: u32 where [const_defs]: "CAMPAIGN_TAG_MAX_LEN = 32"
definition MAX_TAGS_PER_CAMPAIGN :: u32 where [const_defs]: "MAX_TAGS_PER_CAMPAIGN = 10"
definition CAMPAIGN_DURATION_MIN_DAYS :: u64 where [const_defs]: "CAMPAIGN_DURATION_MIN_DAYS = 1"
definition CAMPAIGN_DURATION_MAX_DAYS :: u64 where [const_defs]: "CAMPAIGN_DURATION_MAX_DAYS = 365"
definition CAMPAIGN_EXTENSION_MAX_DAYS :: u64 where [const_defs]: "CAMPAIGN_EXTENSION_MAX_DAYS = 365"
definition CAMPAIGN_FUNDING_GOAL_MIN :: i128 where [const_defs]: "CAMPAIGN_FUNDING_GOAL_MIN = 100000"
definition CAMPAIGN_FUNDING_GOAL_MAX :: i128 where
  [const_defs]: "CAMPAIGN_FUNDING_GOAL_MAX = 1000000000000000"
definition PLATFORM_FEE_MAX_BPS :: u32 where [const_defs]: "PLATFORM_FEE_MAX_BPS = 1000"
definition PLATFORM_FEE_ABSOLUTE_MAX_BPS :: u32 where
  [const_defs]: "PLATFORM_FEE_ABSOLUTE_MAX_BPS = BPS_DENOMINATOR"
definition REVENUE_SHARE_MAX_BPS :: u32 where [const_defs]: "REVENUE_SHARE_MAX_BPS = 5000"
definition AUTO_PAUSE_SINGLE_CONTRIBUTION_BPS_THRESHOLD :: i128 where
  [const_defs]: "AUTO_PAUSE_SINGLE_CONTRIBUTION_BPS_THRESHOLD = 20000"
definition AUTO_PAUSE_BURST_THRESHOLD :: u32 where [const_defs]: "AUTO_PAUSE_BURST_THRESHOLD = 10"
definition AUTO_PAUSE_BURST_CHECK_MIN_RAISED_BPS :: i128 where
  [const_defs]: "AUTO_PAUSE_BURST_CHECK_MIN_RAISED_BPS = 5000"
definition LIST_MAX_LIMIT :: u32 where [const_defs]: "LIST_MAX_LIMIT = 50"
definition MAX_BATCH_CONTRIBUTE_SIZE :: u32 where [const_defs]: "MAX_BATCH_CONTRIBUTE_SIZE = 20"

section \<open>Structs and enums of \<open>types.rs\<close>\<close>

text \<open>
  \<open>MaybePendingCreator\<close> mirrors \<open>Option<Address>\<close>; its constructors are \<open>None\<close> and
  \<open>Some\<close>, which are taken in HOL.
\<close>

datatype maybe_pending_creator = NoPending | Pending address

definition mpc_is_some :: "maybe_pending_creator \<Rightarrow> bool" where
  "mpc_is_some p = (case p of Pending _ \<Rightarrow> True | NoPending \<Rightarrow> False)"

definition mpc_is_none :: "maybe_pending_creator \<Rightarrow> bool" where
  "mpc_is_none p = (case p of NoPending \<Rightarrow> True | Pending _ \<Rightarrow> False)"

definition mpc_from :: "address \<Rightarrow> maybe_pending_creator" where
  "mpc_from a = Pending a"

lemma mpc_simps [simp]:
  "mpc_is_some (Pending a)" "\<not> mpc_is_some NoPending"
  "mpc_is_none NoPending" "\<not> mpc_is_none (Pending a)"
  by (simp_all add: mpc_is_some_def mpc_is_none_def)

lemma mpc_is_none_iff: "mpc_is_none p \<longleftrightarrow> \<not> mpc_is_some p"
  by (cases p) simp_all

datatype category = Learner | EducationalStartup | Educator | Publisher

primrec category_code :: "category \<Rightarrow> u32" where
  "category_code Learner = 0"
| "category_code EducationalStartup = 1"
| "category_code Educator = 2"
| "category_code Publisher = 3"

lemma category_code_inj: "category_code a = category_code b \<longleftrightarrow> a = b"
  by (cases a; cases b) simp_all

record campaign =
  c_id :: u32
  c_creator :: address
  c_first_creator :: address
  c_pending_creator :: maybe_pending_creator
  c_title :: string
  c_description :: string
  c_funding_goal :: i128
  c_deadline :: u64
  c_amount_raised :: i128
  c_is_active :: bool
  c_funds_withdrawn :: bool
  c_is_cancelled :: bool
  c_is_verified :: bool
  c_category :: category
  c_has_revenue_sharing :: bool
  c_revenue_share_percentage :: u32
  c_max_contribution_per_user :: i128
  c_fee_override :: "u32 option"
  c_deadline_extended :: bool
  c_effective_amount_raised :: i128

record platform_stats =
  ps_total_campaigns :: u32
  ps_active_campaigns :: u32
  ps_verified_campaigns :: u32
  ps_cancelled_campaigns :: u32
  ps_total_amount_raised :: i128
  ps_stats_are_partial :: bool
  ps_scanned_up_to :: u32

record platform_report =
  pr_total_campaigns :: u32
  pr_active_campaigns :: u32
  pr_total_raised :: i128
  pr_total_contributors :: u32
  pr_platform_fee_bps :: u32
  pr_is_paused :: bool
  pr_token :: address

record creator_stats =
  crs_total_campaigns :: u32
  crs_active_campaigns :: u32
  crs_total_raised :: i128
  crs_total_contributors :: u32

record create_campaign_params =
  p_creator :: address
  p_title :: string
  p_description :: string
  p_funding_goal :: i128
  p_duration_days :: u64
  p_category :: category
  p_has_revenue_sharing :: bool
  p_revenue_share_percentage :: u32
  p_max_contribution_per_user :: i128

record milestone =
  m_id :: u32
  m_description :: string
  m_payout_bps :: u32
  m_verified :: bool

record campaign_reserve =
  r_amount :: i128
  r_release_timestamp :: u64
  r_released :: bool

record campaign_stats =
  cst_contributor_count :: u32
  cst_top_contributor :: maybe_pending_creator
  cst_avg_contribution :: i128
  cst_last_contribution_time :: u64

section \<open>Events\<close>

text \<open>
  A published event is a tuple of topics and a tuple of data values, each a host value.
\<close>

datatype scval =
    Sym string
  | U32 u32
  | U64 u64
  | I128 i128
  | Addr address
  | Bool bool
  | Str string
  | Hash bytes32
  | Ids "u32 list"

datatype event = Event (ev_topics: "scval list") (ev_data: "scval list")

section \<open>The host environment\<close>

text \<open>
  Code outside the repository is a parameter. \<open>h_transfer\<close>, \<open>h_balance\<close> and
  \<open>h_decimals\<close> are the SEP-41 token contracts, reached by address and acting on
  their own state of type \<open>'w\<close> (\<open>None\<close> is a trap or a failed call); \<open>h_sha256\<close> is
  the host's hash. An invocation adds the ledger's time and sequence number and
  the addresses that authorised the call. The host forbids re-entry, so a token
  call never changes the contract's own storage.
\<close>

record 'w host =
  h_self :: address
  h_transfer :: "address \<Rightarrow> address \<Rightarrow> address \<Rightarrow> i128 \<Rightarrow> 'w \<Rightarrow> 'w option"
  h_balance :: "address \<Rightarrow> address \<Rightarrow> 'w \<Rightarrow> i128 option"
  h_decimals :: "address \<Rightarrow> 'w \<Rightarrow> u32 option"
  h_sha256 :: "string \<Rightarrow> bytes32"

record 'w env = "'w host" +
  e_timestamp :: u64
  e_sequence :: u32
  e_auth :: "address \<Rightarrow> bool"

end
