(* ===== verification/Storage.thy ===== *)
theory Storage
  imports Types
begin

text \<open>
  \<^verbatim>\<open>src/storage.rs\<close>: the ledger entries of the contract and their accessors. Each key
  enum of the source is a record with one field per variant, in the source's
  order: a variant with parameters is a partial map from the parameters to the
  stored value, one without parameters is an optional value. Keys of different
  enums never coincide (the variant names differ), so the six records are
  disjoint parts of one store. An absent entry is \<open>None\<close>, and each getter
  applies the default the source applies.

  Entry lifetimes are the theory \<^verbatim>\<open>Rent\<close>: \<open>extend_ttl\<close> and \<open>bump_instance_ttl\<close> change rent
  metadata only, no value the contract reads. A stored value always has the type
  it was stored with, so the conversion failure \<open>get_campaign\<close> guards against
  does not arise.
\<close>

section \<open>The store\<close>

record admin_store =
  ak_admin :: "address option"
  ak_pending_admin :: "address option"
  ak_token :: "address option"
  ak_pending_token :: "address option"
  ak_pending_token_release :: "u64 option"
  ak_platform_fee :: "u32 option"
  ak_version :: "u32 option"
  ak_initialized :: "bool option"
  ak_paused :: "bool option"
  ak_auto_paused :: "bool option"
  ak_creation_disabled :: "bool option"
  ak_min_campaign_funding_goal :: "i128 option"
  ak_max_campaign_funding_goal :: "i128 option"
  ak_withdraw_release_delay_days :: "u64 option"
  ak_withdraw_reserve_percentage :: "u32 option"
  ak_token_update_delay_secs :: "u64 option"
  ak_emergency_pause_signers :: "address list option"
  ak_allowed_token :: "address \<rightharpoonup> bool"
  ak_max_contribution_per_transaction :: "i128 option"

record comment_censure =
  cc_reason :: string
  cc_censured_at :: u64
  cc_admin :: address

record campaign_store =
  ck_campaign_count :: "u32 option"
  ck_campaign :: "u32 \<rightharpoonup> campaign"
  ck_campaign_vesting :: "u32 \<rightharpoonup> u64 \<times> u32"
  ck_campaign_start_time :: "u32 \<rightharpoonup> u64"
  ck_campaign_reserve :: "u32 \<rightharpoonup> campaign_reserve"
  ck_category_campaigns :: "u32 \<rightharpoonup> u32 list"
  ck_category_campaigns_bucket :: "u32 \<times> u32 \<rightharpoonup> u32 list"
  ck_category_campaign_count :: "u32 \<rightharpoonup> u32"
  ck_category_duration_cap :: "u32 \<rightharpoonup> u64"
  ck_creator_campaign_count :: "address \<rightharpoonup> u32"
  ck_creator_campaigns_bucket :: "address \<times> u32 \<rightharpoonup> u32 list"
  ck_active_campaign_count :: "u32 option"
  ck_verified_campaign_count :: "u32 option"
  ck_cancelled_campaign_count :: "u32 option"
  ck_campaign_creator_index :: "u32 \<rightharpoonup> address"
  ck_campaign_milestones :: "u32 \<rightharpoonup> milestone list"
  ck_milestone_claimed :: "u32 \<times> u32 \<rightharpoonup> bool"
  ck_comment_censured :: "u32 \<times> bytes32 \<rightharpoonup> comment_censure"
  ck_campaign_censured_count :: "u32 \<rightharpoonup> u32"
  ck_campaign_token :: "u32 \<rightharpoonup> address"
  ck_creator_campaign_position :: "address \<times> u32 \<rightharpoonup> u32 \<times> u32"
  ck_creator_campaign_title_index :: "address \<times> bytes32 \<rightharpoonup> u32"
  ck_campaign_fee_recipient :: "u32 \<rightharpoonup> address"
  ck_tag_campaigns_bucket :: "bytes32 \<times> u32 \<rightharpoonup> u32 list"
  ck_tag_campaign_count :: "bytes32 \<rightharpoonup> u32"
  ck_campaign_tags :: "u32 \<rightharpoonup> string list"

record contribution_store =
  xk_contribution :: "u32 \<times> address \<rightharpoonup> i128"
  xk_lifetime_contribution :: "u32 \<times> address \<rightharpoonup> i128"
  xk_personal_cap :: "u32 \<times> address \<rightharpoonup> i128"
  xk_contributor_count :: "u32 \<rightharpoonup> u32"
  xk_total_raised :: "i128 option"
  xk_block_campaign_contribution_count :: "u32 \<rightharpoonup> u32 \<times> u32"
  xk_top_contributor :: "u32 \<rightharpoonup> address"
  xk_last_contribution_time :: "u32 \<rightharpoonup> u64"

record voting_store =
  vk_approve_votes :: "u32 \<rightharpoonup> u32"
  vk_reject_votes :: "u32 \<rightharpoonup> u32"
  vk_approve_weight :: "u32 \<rightharpoonup> i128"
  vk_reject_weight :: "u32 \<rightharpoonup> i128"
  vk_has_voted :: "u32 \<times> address \<rightharpoonup> bool"
  vk_min_votes_quorum :: "u32 option"
  vk_approval_threshold_bps :: "u32 option"
  vk_min_voting_balance :: "i128 option"
  vk_category_threshold_bps :: "u32 \<rightharpoonup> u32"

record revenue_store =
  rk_revenue_pool :: "u32 \<rightharpoonup> i128"
  rk_revenue_claimed :: "u32 \<times> address \<rightharpoonup> i128"
  rk_creator_revenue_claimed :: "u32 \<rightharpoonup> i128"
  rk_contributor_revenue_distributed :: "u32 \<rightharpoonup> i128"
  rk_contributor_revenue_claimants :: "u32 \<rightharpoonup> u32"

record bookmark_store =
  bk_saved_campaigns :: "address \<rightharpoonup> u32 list"

text \<open>
  The contract's state: its store, the state of the token contracts and the
  events published so far, newest first.
\<close>

record 'w state =
  st_admin :: admin_store
  st_campaign :: campaign_store
  st_contribution :: contribution_store
  st_voting :: voting_store
  st_revenue :: revenue_store
  st_bookmark :: bookmark_store
  st_world :: 'w
  st_events :: "event list"

definition publish :: "scval list \<Rightarrow> scval list \<Rightarrow> 'w state \<Rightarrow> 'w state" where
  [store_defs]: "publish topics vals s = s\<lparr>st_events := Event topics vals # st_events s\<rparr>"

text \<open>An undeployed contract: no entry stored, no event.\<close>

definition empty_state :: "'w \<Rightarrow> 'w state" where
  "empty_state wd =
    \<lparr>st_admin = \<lparr>ak_admin = None, ak_pending_admin = None, ak_token = None, ak_pending_token = None, ak_pending_token_release = None, ak_platform_fee = None, ak_version = None, ak_initialized = None, ak_paused = None, ak_auto_paused = None, ak_creation_disabled = None, ak_min_campaign_funding_goal = None, ak_max_campaign_funding_goal = None, ak_withdraw_release_delay_days = None, ak_withdraw_reserve_percentage = None, ak_token_update_delay_secs = None, ak_emergency_pause_signers = None, ak_allowed_token = Map.empty, ak_max_contribution_per_transaction = None\<rparr>,
      st_campaign = \<lparr>ck_campaign_count = None, ck_campaign = Map.empty, ck_campaign_vesting = Map.empty, ck_campaign_start_time = Map.empty, ck_campaign_reserve = Map.empty, ck_category_campaigns = Map.empty, ck_category_campaigns_bucket = Map.empty, ck_category_campaign_count = Map.empty, ck_category_duration_cap = Map.empty, ck_creator_campaign_count = Map.empty, ck_creator_campaigns_bucket = Map.empty, ck_active_campaign_count = None, ck_verified_campaign_count = None, ck_cancelled_campaign_count = None, ck_campaign_creator_index = Map.empty, ck_campaign_milestones = Map.empty, ck_milestone_claimed = Map.empty, ck_comment_censured = Map.empty, ck_campaign_censured_count = Map.empty, ck_campaign_token = Map.empty, ck_creator_campaign_position = Map.empty, ck_creator_campaign_title_index = Map.empty, ck_campaign_fee_recipient = Map.empty, ck_tag_campaigns_bucket = Map.empty, ck_tag_campaign_count = Map.empty, ck_campaign_tags = Map.empty\<rparr>,
      st_contribution = \<lparr>xk_contribution = Map.empty, xk_lifetime_contribution = Map.empty, xk_personal_cap = Map.empty, xk_contributor_count = Map.empty, xk_total_raised = None, xk_block_campaign_contribution_count = Map.empty, xk_top_contributor = Map.empty, xk_last_contribution_time = Map.empty\<rparr>,
      st_voting = \<lparr>vk_approve_votes = Map.empty, vk_reject_votes = Map.empty, vk_approve_weight = Map.empty, vk_reject_weight = Map.empty, vk_has_voted = Map.empty, vk_min_votes_quorum = None, vk_approval_threshold_bps = None, vk_min_voting_balance = None, vk_category_threshold_bps = Map.empty\<rparr>,
      st_revenue = \<lparr>rk_revenue_pool = Map.empty, rk_revenue_claimed = Map.empty, rk_creator_revenue_claimed = Map.empty, rk_contributor_revenue_distributed = Map.empty, rk_contributor_revenue_claimants = Map.empty\<rparr>,
      st_bookmark = \<lparr>bk_saved_campaigns = Map.empty\<rparr>,
      st_world = wd, st_events = []\<rparr>"

section \<open>Campaigns\<close>

definition get_campaign :: "'w state \<Rightarrow> u32 \<Rightarrow> campaign option" where
  [store_defs]: "get_campaign s cid = ck_campaign (st_campaign s) cid"

definition set_campaign :: "u32 \<Rightarrow> campaign \<Rightarrow> 'w state \<Rightarrow> 'w state" where
  [store_defs]: "set_campaign cid c s =
    s\<lparr>st_campaign := (st_campaign s)\<lparr>ck_campaign := (ck_campaign (st_campaign s))(cid \<mapsto> c)\<rparr>\<rparr>"

definition get_campaign_start_time :: "'w state \<Rightarrow> u32 \<Rightarrow> u64 option" where
  [store_defs]: "get_campaign_start_time s cid = ck_campaign_start_time (st_campaign s) cid"

definition set_campaign_start_time :: "u32 \<Rightarrow> u64 \<Rightarrow> 'w state \<Rightarrow> 'w state" where
  [store_defs]: "set_campaign_start_time cid t s =
    s\<lparr>st_campaign := (st_campaign s)\<lparr>ck_campaign_start_time := (ck_campaign_start_time (st_campaign s))(cid \<mapsto> t)\<rparr>\<rparr>"

definition get_campaign_count :: "'w state \<Rightarrow> u32" where
  [store_defs]: "get_campaign_count s =
    (case ck_campaign_count (st_campaign s) of None \<Rightarrow> 0 | Some x \<Rightarrow> x)"

definition set_campaign_count :: "u32 \<Rightarrow> 'w state \<Rightarrow> 'w state" where
  [store_defs]: "set_campaign_count x s =
    s\<lparr>st_campaign := (st_campaign s)\<lparr>ck_campaign_count := Some x\<rparr>\<rparr>"

section \<open>Administration and configuration\<close>

text \<open>
  The two pause flags are read and written by the entry points directly, with no
  accessor of their own in the source: \<open>paused_flag\<close> and \<open>auto_paused_flag\<close> are
  those reads, \<open>set_paused\<close> and \<open>set_auto_paused\<close> those writes.
\<close>

definition paused_flag :: "'w state \<Rightarrow> bool" where
  [store_defs]: "paused_flag s =
    (case ak_paused (st_admin s) of None \<Rightarrow> False | Some x \<Rightarrow> x)"

definition set_paused :: "bool \<Rightarrow> 'w state \<Rightarrow> 'w state" where
  [store_defs]: "set_paused x s =
    s\<lparr>st_admin := (st_admin s)\<lparr>ak_paused := Some x\<rparr>\<rparr>"

definition auto_paused_flag :: "'w state \<Rightarrow> bool" where
  [store_defs]: "auto_paused_flag s =
    (case ak_auto_paused (st_admin s) of None \<Rightarrow> False | Some x \<Rightarrow> x)"

definition set_auto_paused :: "bool \<Rightarrow> 'w state \<Rightarrow> 'w state" where
  [store_defs]: "set_auto_paused x s =
    s\<lparr>st_admin := (st_admin s)\<lparr>ak_auto_paused := Some x\<rparr>\<rparr>"

definition is_initialized :: "'w state \<Rightarrow> bool" where
  [store_defs]: "is_initialized s = (ak_initialized (st_admin s) \<noteq> None)"

definition set_initialized :: "'w state \<Rightarrow> 'w state" where
  [store_defs]: "set_initialized s = s\<lparr>st_admin := (st_admin s)\<lparr>ak_initialized := Some True\<rparr>\<rparr>"

text \<open>\<open>get_admin\<close> and \<open>get_token\<close> unwrap: the callers trap on \<open>None\<close>.\<close>

definition get_admin :: "'w state \<Rightarrow> address option" where
  [store_defs]: "get_admin s = ak_admin (st_admin s)"

definition set_admin :: "address \<Rightarrow> 'w state \<Rightarrow> 'w state" where
  [store_defs]: "set_admin x s =
    s\<lparr>st_admin := (st_admin s)\<lparr>ak_admin := Some x\<rparr>\<rparr>"

definition get_pending_admin :: "'w state \<Rightarrow> address option" where
  [store_defs]: "get_pending_admin s = ak_pending_admin (st_admin s)"

definition set_pending_admin :: "address \<Rightarrow> 'w state \<Rightarrow> 'w state" where
  [store_defs]: "set_pending_admin x s =
    s\<lparr>st_admin := (st_admin s)\<lparr>ak_pending_admin := Some x\<rparr>\<rparr>"

definition remove_pending_admin :: "'w state \<Rightarrow> 'w state" where
  [store_defs]: "remove_pending_admin s =
    s\<lparr>st_admin := (st_admin s)\<lparr>ak_pending_admin := None\<rparr>\<rparr>"

definition get_token :: "'w state \<Rightarrow> address option" where
  [store_defs]: "get_token s = ak_token (st_admin s)"

definition set_token :: "address \<Rightarrow> 'w state \<Rightarrow> 'w state" where
  [store_defs]: "set_token x s =
    s\<lparr>st_admin := (st_admin s)\<lparr>ak_token := Some x\<rparr>\<rparr>"

definition get_platform_fee :: "'w state \<Rightarrow> u32" where
  [store_defs]: "get_platform_fee s =
    (case ak_platform_fee (st_admin s) of None \<Rightarrow> 300 | Some x \<Rightarrow> x)"

definition set_platform_fee :: "u32 \<Rightarrow> 'w state \<Rightarrow> 'w state" where
  [store_defs]: "set_platform_fee x s =
    s\<lparr>st_admin := (st_admin s)\<lparr>ak_platform_fee := Some x\<rparr>\<rparr>"

definition get_max_contribution_per_transaction :: "'w state \<Rightarrow> i128" where
  [store_defs]: "get_max_contribution_per_transaction s =
    (case ak_max_contribution_per_transaction (st_admin s) of None \<Rightarrow> 0 | Some x \<Rightarrow> x)"

definition set_max_contribution_per_transaction_value :: "i128 \<Rightarrow> 'w state \<Rightarrow> 'w state" where
  [store_defs]: "set_max_contribution_per_transaction_value x s =
    s\<lparr>st_admin := (st_admin s)\<lparr>ak_max_contribution_per_transaction := Some x\<rparr>\<rparr>"

definition get_min_campaign_funding_goal :: "'w state \<Rightarrow> i128 \<Rightarrow> i128" where
  [store_defs]: "get_min_campaign_funding_goal s dflt =
    (case ak_min_campaign_funding_goal (st_admin s) of None \<Rightarrow> dflt | Some x \<Rightarrow> x)"

definition set_min_campaign_funding_goal :: "i128 \<Rightarrow> 'w state \<Rightarrow> 'w state" where
  [store_defs]: "set_min_campaign_funding_goal x s =
    s\<lparr>st_admin := (st_admin s)\<lparr>ak_min_campaign_funding_goal := Some x\<rparr>\<rparr>"

definition get_max_campaign_funding_goal :: "'w state \<Rightarrow> i128 \<Rightarrow> i128" where
  [store_defs]: "get_max_campaign_funding_goal s dflt =
    (case ak_max_campaign_funding_goal (st_admin s) of None \<Rightarrow> dflt | Some x \<Rightarrow> x)"

definition set_max_campaign_funding_goal :: "i128 \<Rightarrow> 'w state \<Rightarrow> 'w state" where
  [store_defs]: "set_max_campaign_funding_goal x s =
    s\<lparr>st_admin := (st_admin s)\<lparr>ak_max_campaign_funding_goal := Some x\<rparr>\<rparr>"

section \<open>Contributions\<close>

definition get_contribution :: "'w state \<Rightarrow> u32 \<Rightarrow> address \<Rightarrow> i128" where
  [store_defs]: "get_contribution s cid a =
    (case xk_contribution (st_contribution s) (cid, a) of None \<Rightarrow> 0 | Some x \<Rightarrow> x)"

definition set_contribution :: "u32 \<Rightarrow> address \<Rightarrow> i128 \<Rightarrow> 'w state \<Rightarrow> 'w state" where
  [store_defs]: "set_contribution cid a x s =
    s\<lparr>st_contribution := (st_contribution s)\<lparr>xk_contribution := (xk_contribution (st_contribution s))((cid, a) \<mapsto> x)\<rparr>\<rparr>"

definition get_lifetime_contribution :: "'w state \<Rightarrow> u32 \<Rightarrow> address \<Rightarrow> i128" where
  [store_defs]: "get_lifetime_contribution s cid a =
    (case xk_lifetime_contribution (st_contribution s) (cid, a) of None \<Rightarrow> 0 | Some x \<Rightarrow> x)"

definition set_lifetime_contribution :: "u32 \<Rightarrow> address \<Rightarrow> i128 \<Rightarrow> 'w state \<Rightarrow> 'w state" where
  [store_defs]: "set_lifetime_contribution cid a x s =
    s\<lparr>st_contribution := (st_contribution s)\<lparr>xk_lifetime_contribution := (xk_lifetime_contribution (st_contribution s))((cid, a) \<mapsto> x)\<rparr>\<rparr>"

definition remove_contribution :: "u32 \<Rightarrow> address \<Rightarrow> 'w state \<Rightarrow> 'w state" where
  [store_defs]: "remove_contribution cid a s =
    s\<lparr>st_contribution := (st_contribution s)\<lparr>xk_contribution := (xk_contribution (st_contribution s))((cid, a) := None)\<rparr>\<rparr>"

definition remove_lifetime_contribution :: "u32 \<Rightarrow> address \<Rightarrow> 'w state \<Rightarrow> 'w state" where
  [store_defs]: "remove_lifetime_contribution cid a s =
    s\<lparr>st_contribution := (st_contribution s)\<lparr>xk_lifetime_contribution := (xk_lifetime_contribution (st_contribution s))((cid, a) := None)\<rparr>\<rparr>"

definition get_contributor_count :: "'w state \<Rightarrow> u32 \<Rightarrow> u32" where
  [store_defs]: "get_contributor_count s cid =
    (case xk_contributor_count (st_contribution s) cid of None \<Rightarrow> 0 | Some x \<Rightarrow> x)"

definition set_contributor_count :: "u32 \<Rightarrow> u32 \<Rightarrow> 'w state \<Rightarrow> 'w state" where
  [store_defs]: "set_contributor_count cid x s =
    s\<lparr>st_contribution := (st_contribution s)\<lparr>xk_contributor_count := (xk_contributor_count (st_contribution s))(cid \<mapsto> x)\<rparr>\<rparr>"

text \<open>The increment is an unchecked \<open>+ 1\<close>, which traps on overflow in the release profile.\<close>

definition increment_contributor_count :: "u32 \<Rightarrow> 'w state \<Rightarrow> (error, 'w state) res" where
  "increment_contributor_count cid s =
    (and_then (unwrap (u32_checked_add (get_contributor_count s cid) 1)) (\<lambda>n. Ok (set_contributor_count cid n s)))"

definition decrement_contributor_count :: "u32 \<Rightarrow> 'w state \<Rightarrow> 'w state" where
  [store_defs]: "decrement_contributor_count cid s =
    (let count = get_contributor_count s cid in
     if 0 < count then set_contributor_count cid (count - 1) s else s)"

definition get_top_contributor :: "'w state \<Rightarrow> u32 \<Rightarrow> address option" where
  [store_defs]: "get_top_contributor s cid = xk_top_contributor (st_contribution s) cid"

definition set_top_contributor :: "u32 \<Rightarrow> address \<Rightarrow> 'w state \<Rightarrow> 'w state" where
  [store_defs]: "set_top_contributor cid x s =
    s\<lparr>st_contribution := (st_contribution s)\<lparr>xk_top_contributor := (xk_top_contributor (st_contribution s))(cid \<mapsto> x)\<rparr>\<rparr>"

definition get_last_contribution_time :: "'w state \<Rightarrow> u32 \<Rightarrow> u64" where
  [store_defs]: "get_last_contribution_time s cid =
    (case xk_last_contribution_time (st_contribution s) cid of None \<Rightarrow> 0 | Some x \<Rightarrow> x)"

definition set_last_contribution_time :: "u32 \<Rightarrow> u64 \<Rightarrow> 'w state \<Rightarrow> 'w state" where
  [store_defs]: "set_last_contribution_time cid x s =
    s\<lparr>st_contribution := (st_contribution s)\<lparr>xk_last_contribution_time := (xk_last_contribution_time (st_contribution s))(cid \<mapsto> x)\<rparr>\<rparr>"

section \<open>Revenue\<close>

definition get_revenue_pool :: "'w state \<Rightarrow> u32 \<Rightarrow> i128" where
  [store_defs]: "get_revenue_pool s cid =
    (case rk_revenue_pool (st_revenue s) cid of None \<Rightarrow> 0 | Some x \<Rightarrow> x)"

definition set_revenue_pool :: "u32 \<Rightarrow> i128 \<Rightarrow> 'w state \<Rightarrow> 'w state" where
  [store_defs]: "set_revenue_pool cid x s =
    s\<lparr>st_revenue := (st_revenue s)\<lparr>rk_revenue_pool := (rk_revenue_pool (st_revenue s))(cid \<mapsto> x)\<rparr>\<rparr>"

definition get_revenue_claimed :: "'w state \<Rightarrow> u32 \<Rightarrow> address \<Rightarrow> i128" where
  [store_defs]: "get_revenue_claimed s cid a =
    (case rk_revenue_claimed (st_revenue s) (cid, a) of None \<Rightarrow> 0 | Some x \<Rightarrow> x)"

definition set_revenue_claimed :: "u32 \<Rightarrow> address \<Rightarrow> i128 \<Rightarrow> 'w state \<Rightarrow> 'w state" where
  [store_defs]: "set_revenue_claimed cid a x s =
    s\<lparr>st_revenue := (st_revenue s)\<lparr>rk_revenue_claimed := (rk_revenue_claimed (st_revenue s))((cid, a) \<mapsto> x)\<rparr>\<rparr>"

definition remove_revenue_claimed :: "u32 \<Rightarrow> address \<Rightarrow> 'w state \<Rightarrow> 'w state" where
  [store_defs]: "remove_revenue_claimed cid a s =
    s\<lparr>st_revenue := (st_revenue s)\<lparr>rk_revenue_claimed := (rk_revenue_claimed (st_revenue s))((cid, a) := None)\<rparr>\<rparr>"

definition get_creator_revenue_claimed :: "'w state \<Rightarrow> u32 \<Rightarrow> i128" where
  [store_defs]: "get_creator_revenue_claimed s cid =
    (case rk_creator_revenue_claimed (st_revenue s) cid of None \<Rightarrow> 0 | Some x \<Rightarrow> x)"

definition set_creator_revenue_claimed :: "u32 \<Rightarrow> i128 \<Rightarrow> 'w state \<Rightarrow> 'w state" where
  [store_defs]: "set_creator_revenue_claimed cid x s =
    s\<lparr>st_revenue := (st_revenue s)\<lparr>rk_creator_revenue_claimed := (rk_creator_revenue_claimed (st_revenue s))(cid \<mapsto> x)\<rparr>\<rparr>"

definition get_contributor_revenue_distributed :: "'w state \<Rightarrow> u32 \<Rightarrow> i128" where
  [store_defs]: "get_contributor_revenue_distributed s cid =
    (case rk_contributor_revenue_distributed (st_revenue s) cid of None \<Rightarrow> 0 | Some x \<Rightarrow> x)"

definition set_contributor_revenue_distributed :: "u32 \<Rightarrow> i128 \<Rightarrow> 'w state \<Rightarrow> 'w state" where
  [store_defs]: "set_contributor_revenue_distributed cid x s =
    s\<lparr>st_revenue := (st_revenue s)\<lparr>rk_contributor_revenue_distributed := (rk_contributor_revenue_distributed (st_revenue s))(cid \<mapsto> x)\<rparr>\<rparr>"

definition get_contributor_revenue_claimants :: "'w state \<Rightarrow> u32 \<Rightarrow> u32" where
  [store_defs]: "get_contributor_revenue_claimants s cid =
    (case rk_contributor_revenue_claimants (st_revenue s) cid of None \<Rightarrow> 0 | Some x \<Rightarrow> x)"

definition set_contributor_revenue_claimants :: "u32 \<Rightarrow> u32 \<Rightarrow> 'w state \<Rightarrow> 'w state" where
  [store_defs]: "set_contributor_revenue_claimants cid x s =
    s\<lparr>st_revenue := (st_revenue s)\<lparr>rk_contributor_revenue_claimants := (rk_contributor_revenue_claimants (st_revenue s))(cid \<mapsto> x)\<rparr>\<rparr>"

section \<open>Voting\<close>

definition get_approve_votes :: "'w state \<Rightarrow> u32 \<Rightarrow> u32" where
  [store_defs]: "get_approve_votes s cid =
    (case vk_approve_votes (st_voting s) cid of None \<Rightarrow> 0 | Some x \<Rightarrow> x)"

definition set_approve_votes :: "u32 \<Rightarrow> u32 \<Rightarrow> 'w state \<Rightarrow> 'w state" where
  [store_defs]: "set_approve_votes cid x s =
    s\<lparr>st_voting := (st_voting s)\<lparr>vk_approve_votes := (vk_approve_votes (st_voting s))(cid \<mapsto> x)\<rparr>\<rparr>"

definition get_reject_votes :: "'w state \<Rightarrow> u32 \<Rightarrow> u32" where
  [store_defs]: "get_reject_votes s cid =
    (case vk_reject_votes (st_voting s) cid of None \<Rightarrow> 0 | Some x \<Rightarrow> x)"

definition set_reject_votes :: "u32 \<Rightarrow> u32 \<Rightarrow> 'w state \<Rightarrow> 'w state" where
  [store_defs]: "set_reject_votes cid x s =
    s\<lparr>st_voting := (st_voting s)\<lparr>vk_reject_votes := (vk_reject_votes (st_voting s))(cid \<mapsto> x)\<rparr>\<rparr>"

definition get_approve_weight :: "'w state \<Rightarrow> u32 \<Rightarrow> i128" where
  [store_defs]: "get_approve_weight s cid =
    (case vk_approve_weight (st_voting s) cid of None \<Rightarrow> 0 | Some x \<Rightarrow> x)"

definition set_approve_weight :: "u32 \<Rightarrow> i128 \<Rightarrow> 'w state \<Rightarrow> 'w state" where
  [store_defs]: "set_approve_weight cid x s =
    s\<lparr>st_voting := (st_voting s)\<lparr>vk_approve_weight := (vk_approve_weight (st_voting s))(cid \<mapsto> x)\<rparr>\<rparr>"

definition get_reject_weight :: "'w state \<Rightarrow> u32 \<Rightarrow> i128" where
  [store_defs]: "get_reject_weight s cid =
    (case vk_reject_weight (st_voting s) cid of None \<Rightarrow> 0 | Some x \<Rightarrow> x)"

definition set_reject_weight :: "u32 \<Rightarrow> i128 \<Rightarrow> 'w state \<Rightarrow> 'w state" where
  [store_defs]: "set_reject_weight cid x s =
    s\<lparr>st_voting := (st_voting s)\<lparr>vk_reject_weight := (vk_reject_weight (st_voting s))(cid \<mapsto> x)\<rparr>\<rparr>"

definition get_has_voted :: "'w state \<Rightarrow> u32 \<Rightarrow> address \<Rightarrow> bool" where
  [store_defs]: "get_has_voted s cid a =
    (case vk_has_voted (st_voting s) (cid, a) of None \<Rightarrow> False | Some x \<Rightarrow> x)"

definition set_has_voted :: "u32 \<Rightarrow> address \<Rightarrow> 'w state \<Rightarrow> 'w state" where
  [store_defs]: "set_has_voted cid a s =
    s\<lparr>st_voting := (st_voting s)\<lparr>vk_has_voted := (vk_has_voted (st_voting s))((cid, a) \<mapsto> True)\<rparr>\<rparr>"

definition remove_has_voted :: "u32 \<Rightarrow> address \<Rightarrow> 'w state \<Rightarrow> 'w state" where
  [store_defs]: "remove_has_voted cid a s =
    s\<lparr>st_voting := (st_voting s)\<lparr>vk_has_voted := (vk_has_voted (st_voting s))((cid, a) := None)\<rparr>\<rparr>"

definition remove_voting_state :: "u32 \<Rightarrow> 'w state \<Rightarrow> 'w state" where
  [store_defs]: "remove_voting_state cid s =
    s\<lparr>st_voting := (st_voting s)
      \<lparr>vk_approve_votes := (vk_approve_votes (st_voting s))(cid := None),
       vk_reject_votes := (vk_reject_votes (st_voting s))(cid := None),
       vk_approve_weight := (vk_approve_weight (st_voting s))(cid := None),
       vk_reject_weight := (vk_reject_weight (st_voting s))(cid := None)\<rparr>\<rparr>"

definition get_min_votes_quorum :: "'w state \<Rightarrow> u32 \<Rightarrow> u32" where
  [store_defs]: "get_min_votes_quorum s dflt =
    (case vk_min_votes_quorum (st_voting s) of None \<Rightarrow> dflt | Some x \<Rightarrow> x)"

definition set_min_votes_quorum :: "u32 \<Rightarrow> 'w state \<Rightarrow> 'w state" where
  [store_defs]: "set_min_votes_quorum x s =
    s\<lparr>st_voting := (st_voting s)\<lparr>vk_min_votes_quorum := Some x\<rparr>\<rparr>"

definition get_approval_threshold_bps :: "'w state \<Rightarrow> u32 \<Rightarrow> u32" where
  [store_defs]: "get_approval_threshold_bps s dflt =
    (case vk_approval_threshold_bps (st_voting s) of None \<Rightarrow> dflt | Some x \<Rightarrow> x)"

definition set_approval_threshold_bps :: "u32 \<Rightarrow> 'w state \<Rightarrow> 'w state" where
  [store_defs]: "set_approval_threshold_bps x s =
    s\<lparr>st_voting := (st_voting s)\<lparr>vk_approval_threshold_bps := Some x\<rparr>\<rparr>"

definition get_min_voting_balance :: "'w state \<Rightarrow> i128" where
  [store_defs]: "get_min_voting_balance s =
    (case vk_min_voting_balance (st_voting s) of None \<Rightarrow> 0 | Some x \<Rightarrow> x)"

definition set_min_voting_balance :: "i128 \<Rightarrow> 'w state \<Rightarrow> 'w state" where
  [store_defs]: "set_min_voting_balance x s =
    s\<lparr>st_voting := (st_voting s)\<lparr>vk_min_voting_balance := Some x\<rparr>\<rparr>"

definition get_category_voting_threshold_bps :: "'w state \<Rightarrow> category \<Rightarrow> u32 option" where
  [store_defs]: "get_category_voting_threshold_bps s cat = vk_category_threshold_bps (st_voting s) (category_code cat)"

definition set_category_voting_threshold_bps :: "category \<Rightarrow> u32 \<Rightarrow> 'w state \<Rightarrow> 'w state" where
  [store_defs]: "set_category_voting_threshold_bps cat x s =
    s\<lparr>st_voting := (st_voting s)\<lparr>vk_category_threshold_bps := (vk_category_threshold_bps (st_voting s))(category_code cat \<mapsto> x)\<rparr>\<rparr>"

definition remove_category_voting_threshold_bps :: "category \<Rightarrow> 'w state \<Rightarrow> 'w state" where
  [store_defs]: "remove_category_voting_threshold_bps cat s =
    s\<lparr>st_voting := (st_voting s)\<lparr>vk_category_threshold_bps := (vk_category_threshold_bps (st_voting s))(category_code cat := None)\<rparr>\<rparr>"

section \<open>Category index\<close>

definition get_category_campaigns :: "'w state \<Rightarrow> category \<Rightarrow> u32 list" where
  [store_defs]: "get_category_campaigns s cat =
    (case ck_category_campaigns (st_campaign s) (category_code cat) of None \<Rightarrow> [] | Some x \<Rightarrow> x)"

definition set_category_campaigns :: "category \<Rightarrow> u32 list \<Rightarrow> 'w state \<Rightarrow> 'w state" where
  [store_defs]: "set_category_campaigns cat x s =
    s\<lparr>st_campaign := (st_campaign s)\<lparr>ck_category_campaigns := (ck_category_campaigns (st_campaign s))(category_code cat \<mapsto> x)\<rparr>\<rparr>"

definition get_category_campaign_count :: "'w state \<Rightarrow> category \<Rightarrow> u32" where
  [store_defs]: "get_category_campaign_count s cat =
    (case ck_category_campaign_count (st_campaign s) (category_code cat) of None \<Rightarrow> 0 | Some x \<Rightarrow> x)"

definition set_category_campaign_count :: "category \<Rightarrow> u32 \<Rightarrow> 'w state \<Rightarrow> 'w state" where
  [store_defs]: "set_category_campaign_count cat x s =
    s\<lparr>st_campaign := (st_campaign s)\<lparr>ck_category_campaign_count := (ck_category_campaign_count (st_campaign s))(category_code cat \<mapsto> x)\<rparr>\<rparr>"

definition get_category_campaign_bucket :: "'w state \<Rightarrow> category \<Rightarrow> u32 \<Rightarrow> u32 list" where
  [store_defs]: "get_category_campaign_bucket s cat b =
    (case ck_category_campaigns_bucket (st_campaign s) (category_code cat, b) of
       None \<Rightarrow> [] | Some x \<Rightarrow> x)"

definition set_category_campaign_bucket ::
  "category \<Rightarrow> u32 \<Rightarrow> u32 list \<Rightarrow> 'w state \<Rightarrow> 'w state" where
  [store_defs]: "set_category_campaign_bucket cat b x s =
    s\<lparr>st_campaign := (st_campaign s)\<lparr>ck_category_campaigns_bucket :=
      (ck_category_campaigns_bucket (st_campaign s))((category_code cat, b) \<mapsto> x)\<rparr>\<rparr>"

definition CATEGORY_CAMPAIGNS_BUCKET_SIZE :: u32 where
  [const_defs]: "CATEGORY_CAMPAIGNS_BUCKET_SIZE = 500"

definition get_version :: "'w state \<Rightarrow> u32" where
  [store_defs]: "get_version s =
    (case ak_version (st_admin s) of None \<Rightarrow> 0 | Some x \<Rightarrow> x)"

definition set_version :: "u32 \<Rightarrow> 'w state \<Rightarrow> 'w state" where
  [store_defs]: "set_version x s =
    s\<lparr>st_admin := (st_admin s)\<lparr>ak_version := Some x\<rparr>\<rparr>"

definition get_total_raised_global :: "'w state \<Rightarrow> i128" where
  [store_defs]: "get_total_raised_global s =
    (case xk_total_raised (st_contribution s) of None \<Rightarrow> 0 | Some x \<Rightarrow> x)"

definition set_total_raised_global :: "i128 \<Rightarrow> 'w state \<Rightarrow> 'w state" where
  [store_defs]: "set_total_raised_global x s =
    s\<lparr>st_contribution := (st_contribution s)\<lparr>xk_total_raised := Some x\<rparr>\<rparr>"

section \<open>Creator index\<close>

definition CREATOR_CAMPAIGNS_BUCKET_SIZE :: u32 where
  [const_defs]: "CREATOR_CAMPAIGNS_BUCKET_SIZE = 500"

definition get_creator_campaign_count :: "'w state \<Rightarrow> address \<Rightarrow> u32" where
  [store_defs]: "get_creator_campaign_count s a =
    (case ck_creator_campaign_count (st_campaign s) a of None \<Rightarrow> 0 | Some x \<Rightarrow> x)"

definition set_creator_campaign_count :: "address \<Rightarrow> u32 \<Rightarrow> 'w state \<Rightarrow> 'w state" where
  [store_defs]: "set_creator_campaign_count a x s =
    s\<lparr>st_campaign := (st_campaign s)\<lparr>ck_creator_campaign_count := (ck_creator_campaign_count (st_campaign s))(a \<mapsto> x)\<rparr>\<rparr>"

definition get_creator_campaign_bucket :: "'w state \<Rightarrow> address \<Rightarrow> u32 \<Rightarrow> u32 list" where
  [store_defs]: "get_creator_campaign_bucket s a b =
    (case ck_creator_campaigns_bucket (st_campaign s) (a, b) of None \<Rightarrow> [] | Some x \<Rightarrow> x)"

definition set_creator_campaign_bucket :: "address \<Rightarrow> u32 \<Rightarrow> (u32 list) \<Rightarrow> 'w state \<Rightarrow> 'w state" where
  [store_defs]: "set_creator_campaign_bucket a b x s =
    s\<lparr>st_campaign := (st_campaign s)\<lparr>ck_creator_campaigns_bucket := (ck_creator_campaigns_bucket (st_campaign s))((a, b) \<mapsto> x)\<rparr>\<rparr>"

definition get_creator_campaign_position :: "'w state \<Rightarrow> address \<Rightarrow> u32 \<Rightarrow> (u32 \<times> u32) option" where
  [store_defs]: "get_creator_campaign_position s a cid = ck_creator_campaign_position (st_campaign s) (a, cid)"

definition set_creator_campaign_position ::
  "address \<Rightarrow> u32 \<Rightarrow> u32 \<Rightarrow> u32 \<Rightarrow> 'w state \<Rightarrow> 'w state" where
  [store_defs]: "set_creator_campaign_position a cid b i s =
    s\<lparr>st_campaign := (st_campaign s)\<lparr>ck_creator_campaign_position :=
      (ck_creator_campaign_position (st_campaign s))((a, cid) \<mapsto> (b, i))\<rparr>\<rparr>"

definition remove_creator_campaign_position :: "address \<Rightarrow> u32 \<Rightarrow> 'w state \<Rightarrow> 'w state" where
  [store_defs]: "remove_creator_campaign_position a cid s =
    s\<lparr>st_campaign := (st_campaign s)\<lparr>ck_creator_campaign_position := (ck_creator_campaign_position (st_campaign s))((a, cid) := None)\<rparr>\<rparr>"

section \<open>Caps, anomaly counters, vesting\<close>

definition get_personal_cap :: "'w state \<Rightarrow> u32 \<Rightarrow> address \<Rightarrow> i128 option" where
  [store_defs]: "get_personal_cap s cid a = xk_personal_cap (st_contribution s) (cid, a)"

definition set_personal_cap :: "u32 \<Rightarrow> address \<Rightarrow> i128 \<Rightarrow> 'w state \<Rightarrow> 'w state" where
  [store_defs]: "set_personal_cap cid a x s =
    s\<lparr>st_contribution := (st_contribution s)\<lparr>xk_personal_cap := (xk_personal_cap (st_contribution s))((cid, a) \<mapsto> x)\<rparr>\<rparr>"

definition remove_personal_cap :: "u32 \<Rightarrow> address \<Rightarrow> 'w state \<Rightarrow> 'w state" where
  [store_defs]: "remove_personal_cap cid a s =
    s\<lparr>st_contribution := (st_contribution s)\<lparr>xk_personal_cap := (xk_personal_cap (st_contribution s))((cid, a) := None)\<rparr>\<rparr>"

definition get_campaign_block_contribution_count :: "'w state \<Rightarrow> u32 \<Rightarrow> u32 \<times> u32" where
  [store_defs]: "get_campaign_block_contribution_count s cid =
    (case xk_block_campaign_contribution_count (st_contribution s) cid of
       None \<Rightarrow> (0, 0) | Some x \<Rightarrow> x)"

definition set_campaign_block_contribution_count ::
  "u32 \<Rightarrow> u32 \<Rightarrow> u32 \<Rightarrow> 'w state \<Rightarrow> 'w state" where
  [store_defs]: "set_campaign_block_contribution_count cid sq n s =
    s\<lparr>st_contribution := (st_contribution s)\<lparr>xk_block_campaign_contribution_count :=
      (xk_block_campaign_contribution_count (st_contribution s))(cid \<mapsto> (sq, n))\<rparr>\<rparr>"

definition get_withdraw_release_delay_days :: "'w state \<Rightarrow> u64" where
  [store_defs]: "get_withdraw_release_delay_days s =
    (case ak_withdraw_release_delay_days (st_admin s) of None \<Rightarrow> 0 | Some x \<Rightarrow> x)"

definition set_withdraw_release_delay_days :: "u64 \<Rightarrow> 'w state \<Rightarrow> 'w state" where
  [store_defs]: "set_withdraw_release_delay_days x s =
    s\<lparr>st_admin := (st_admin s)\<lparr>ak_withdraw_release_delay_days := Some x\<rparr>\<rparr>"

definition get_withdraw_reserve_percentage :: "'w state \<Rightarrow> u32" where
  [store_defs]: "get_withdraw_reserve_percentage s =
    (case ak_withdraw_reserve_percentage (st_admin s) of None \<Rightarrow> 0 | Some x \<Rightarrow> x)"

definition set_withdraw_reserve_percentage :: "u32 \<Rightarrow> 'w state \<Rightarrow> 'w state" where
  [store_defs]: "set_withdraw_reserve_percentage x s =
    s\<lparr>st_admin := (st_admin s)\<lparr>ak_withdraw_reserve_percentage := Some x\<rparr>\<rparr>"

definition get_campaign_reserve :: "'w state \<Rightarrow> u32 \<Rightarrow> campaign_reserve option" where
  [store_defs]: "get_campaign_reserve s cid = ck_campaign_reserve (st_campaign s) cid"

definition set_campaign_reserve :: "u32 \<Rightarrow> campaign_reserve \<Rightarrow> 'w state \<Rightarrow> 'w state" where
  [store_defs]: "set_campaign_reserve cid r s =
    s\<lparr>st_campaign := (st_campaign s)\<lparr>ck_campaign_reserve := (ck_campaign_reserve (st_campaign s))(cid \<mapsto> r)\<rparr>\<rparr>"

definition get_campaign_vesting :: "'w state \<Rightarrow> u32 \<Rightarrow> (u64 \<times> u32) option" where
  [store_defs]: "get_campaign_vesting s cid = ck_campaign_vesting (st_campaign s) cid"

definition set_campaign_vesting :: "u32 \<Rightarrow> u64 \<Rightarrow> u32 \<Rightarrow> 'w state \<Rightarrow> 'w state" where
  [store_defs]: "set_campaign_vesting cid days bps s =
    s\<lparr>st_campaign := (st_campaign s)\<lparr>ck_campaign_vesting :=
      (ck_campaign_vesting (st_campaign s))(cid \<mapsto> (days, bps))\<rparr>\<rparr>"

definition remove_campaign_vesting :: "u32 \<Rightarrow> 'w state \<Rightarrow> 'w state" where
  [store_defs]: "remove_campaign_vesting cid s =
    s\<lparr>st_campaign := (st_campaign s)\<lparr>ck_campaign_vesting := (ck_campaign_vesting (st_campaign s))(cid := None)\<rparr>\<rparr>"

definition get_creation_disabled :: "'w state \<Rightarrow> bool" where
  [store_defs]: "get_creation_disabled s =
    (case ak_creation_disabled (st_admin s) of None \<Rightarrow> False | Some x \<Rightarrow> x)"

definition set_creation_disabled :: "bool \<Rightarrow> 'w state \<Rightarrow> 'w state" where
  [store_defs]: "set_creation_disabled x s =
    s\<lparr>st_admin := (st_admin s)\<lparr>ak_creation_disabled := Some x\<rparr>\<rparr>"

definition get_category_duration_cap :: "'w state \<Rightarrow> category \<Rightarrow> u64 option" where
  [store_defs]: "get_category_duration_cap s cat = ck_category_duration_cap (st_campaign s) (category_code cat)"

definition set_category_duration_cap :: "category \<Rightarrow> u64 \<Rightarrow> 'w state \<Rightarrow> 'w state" where
  [store_defs]: "set_category_duration_cap cat x s =
    s\<lparr>st_campaign := (st_campaign s)\<lparr>ck_category_duration_cap := (ck_category_duration_cap (st_campaign s))(category_code cat \<mapsto> x)\<rparr>\<rparr>"

definition remove_category_duration_cap :: "category \<Rightarrow> 'w state \<Rightarrow> 'w state" where
  [store_defs]: "remove_category_duration_cap cat s =
    s\<lparr>st_campaign := (st_campaign s)\<lparr>ck_category_duration_cap := (ck_category_duration_cap (st_campaign s))(category_code cat := None)\<rparr>\<rparr>"

section \<open>Pending token update\<close>

definition set_pending_token :: "address \<Rightarrow> 'w state \<Rightarrow> 'w state" where
  [store_defs]: "set_pending_token x s =
    s\<lparr>st_admin := (st_admin s)\<lparr>ak_pending_token := Some x\<rparr>\<rparr>"

definition get_pending_token :: "'w state \<Rightarrow> address option" where
  [store_defs]: "get_pending_token s = ak_pending_token (st_admin s)"

definition remove_pending_token :: "'w state \<Rightarrow> 'w state" where
  [store_defs]: "remove_pending_token s =
    s\<lparr>st_admin := (st_admin s)\<lparr>ak_pending_token := None, ak_pending_token_release := None\<rparr>\<rparr>"

definition set_pending_token_release :: "u64 \<Rightarrow> 'w state \<Rightarrow> 'w state" where
  [store_defs]: "set_pending_token_release x s =
    s\<lparr>st_admin := (st_admin s)\<lparr>ak_pending_token_release := Some x\<rparr>\<rparr>"

definition get_pending_token_release :: "'w state \<Rightarrow> u64 option" where
  [store_defs]: "get_pending_token_release s = ak_pending_token_release (st_admin s)"

definition get_token_update_delay_secs :: "'w state \<Rightarrow> u64 \<Rightarrow> u64" where
  [store_defs]: "get_token_update_delay_secs s dflt =
    (case ak_token_update_delay_secs (st_admin s) of None \<Rightarrow> dflt | Some x \<Rightarrow> x)"

definition set_token_update_delay_secs :: "u64 \<Rightarrow> 'w state \<Rightarrow> 'w state" where
  [store_defs]: "set_token_update_delay_secs x s =
    s\<lparr>st_admin := (st_admin s)\<lparr>ak_token_update_delay_secs := Some x\<rparr>\<rparr>"

section \<open>Platform counters\<close>

definition get_active_campaign_count :: "'w state \<Rightarrow> u32" where
  [store_defs]: "get_active_campaign_count s =
    (case ck_active_campaign_count (st_campaign s) of None \<Rightarrow> 0 | Some x \<Rightarrow> x)"

definition set_active_campaign_count :: "u32 \<Rightarrow> 'w state \<Rightarrow> 'w state" where
  [store_defs]: "set_active_campaign_count x s =
    s\<lparr>st_campaign := (st_campaign s)\<lparr>ck_active_campaign_count := Some x\<rparr>\<rparr>"

definition increment_active_campaign_count :: "'w state \<Rightarrow> (error, 'w state) res" where
  "increment_active_campaign_count s =
    (and_then (unwrap (u32_checked_add (get_active_campaign_count s) 1)) (\<lambda>n. Ok (set_active_campaign_count n s)))"

definition decrement_active_campaign_count :: "'w state \<Rightarrow> 'w state" where
  [store_defs]: "decrement_active_campaign_count s =
    (let c = get_active_campaign_count s in
     if 0 < c then set_active_campaign_count (c - 1) s else s)"

definition get_verified_campaign_count :: "'w state \<Rightarrow> u32" where
  [store_defs]: "get_verified_campaign_count s =
    (case ck_verified_campaign_count (st_campaign s) of None \<Rightarrow> 0 | Some x \<Rightarrow> x)"

definition set_verified_campaign_count :: "u32 \<Rightarrow> 'w state \<Rightarrow> 'w state" where
  [store_defs]: "set_verified_campaign_count x s =
    s\<lparr>st_campaign := (st_campaign s)\<lparr>ck_verified_campaign_count := Some x\<rparr>\<rparr>"

definition increment_verified_campaign_count :: "'w state \<Rightarrow> (error, 'w state) res" where
  "increment_verified_campaign_count s =
    (and_then (unwrap (u32_checked_add (get_verified_campaign_count s) 1)) (\<lambda>n. Ok (set_verified_campaign_count n s)))"

text \<open>\<open>saturating_sub\<close> is the subtraction of \<^typ>\<open>nat\<close>.\<close>

definition decrement_verified_campaign_count :: "'w state \<Rightarrow> 'w state" where
  [store_defs]: "decrement_verified_campaign_count s =
    set_verified_campaign_count (get_verified_campaign_count s - 1) s"

definition get_cancelled_campaign_count :: "'w state \<Rightarrow> u32" where
  [store_defs]: "get_cancelled_campaign_count s =
    (case ck_cancelled_campaign_count (st_campaign s) of None \<Rightarrow> 0 | Some x \<Rightarrow> x)"

definition set_cancelled_campaign_count :: "u32 \<Rightarrow> 'w state \<Rightarrow> 'w state" where
  [store_defs]: "set_cancelled_campaign_count x s =
    s\<lparr>st_campaign := (st_campaign s)\<lparr>ck_cancelled_campaign_count := Some x\<rparr>\<rparr>"

definition increment_cancelled_campaign_count :: "'w state \<Rightarrow> (error, 'w state) res" where
  "increment_cancelled_campaign_count s =
    (and_then (unwrap (u32_checked_add (get_cancelled_campaign_count s) 1)) (\<lambda>n. Ok (set_cancelled_campaign_count n s)))"

section \<open>Bookmarks, milestones, creator index, pause signers\<close>

definition get_saved_campaigns :: "'w state \<Rightarrow> address \<Rightarrow> u32 list" where
  [store_defs]: "get_saved_campaigns s a =
    (case bk_saved_campaigns (st_bookmark s) a of None \<Rightarrow> [] | Some x \<Rightarrow> x)"

definition set_saved_campaigns :: "address \<Rightarrow> (u32 list) \<Rightarrow> 'w state \<Rightarrow> 'w state" where
  [store_defs]: "set_saved_campaigns a ids s =
    s\<lparr>st_bookmark := (st_bookmark s)\<lparr>bk_saved_campaigns := (bk_saved_campaigns (st_bookmark s))(a \<mapsto> ids)\<rparr>\<rparr>"

definition get_campaign_milestones :: "'w state \<Rightarrow> u32 \<Rightarrow> milestone list" where
  [store_defs]: "get_campaign_milestones s cid =
    (case ck_campaign_milestones (st_campaign s) cid of None \<Rightarrow> [] | Some x \<Rightarrow> x)"

definition set_campaign_milestones :: "u32 \<Rightarrow> (milestone list) \<Rightarrow> 'w state \<Rightarrow> 'w state" where
  [store_defs]: "set_campaign_milestones cid ms s =
    s\<lparr>st_campaign := (st_campaign s)\<lparr>ck_campaign_milestones := (ck_campaign_milestones (st_campaign s))(cid \<mapsto> ms)\<rparr>\<rparr>"

definition is_milestone_claimed :: "'w state \<Rightarrow> u32 \<Rightarrow> u32 \<Rightarrow> bool" where
  [store_defs]: "is_milestone_claimed s cid mid =
    (case ck_milestone_claimed (st_campaign s) (cid, mid) of None \<Rightarrow> False | Some x \<Rightarrow> x)"

definition set_milestone_claimed :: "u32 \<Rightarrow> u32 \<Rightarrow> 'w state \<Rightarrow> 'w state" where
  [store_defs]: "set_milestone_claimed cid mid s =
    s\<lparr>st_campaign := (st_campaign s)\<lparr>ck_milestone_claimed := (ck_milestone_claimed (st_campaign s))((cid, mid) \<mapsto> True)\<rparr>\<rparr>"

definition get_campaign_creator_index :: "'w state \<Rightarrow> u32 \<Rightarrow> address option" where
  [store_defs]: "get_campaign_creator_index s cid = ck_campaign_creator_index (st_campaign s) cid"

definition set_campaign_creator_index :: "u32 \<Rightarrow> address \<Rightarrow> 'w state \<Rightarrow> 'w state" where
  [store_defs]: "set_campaign_creator_index cid a s =
    s\<lparr>st_campaign := (st_campaign s)\<lparr>ck_campaign_creator_index := (ck_campaign_creator_index (st_campaign s))(cid \<mapsto> a)\<rparr>\<rparr>"

definition is_campaign_creator :: "'w state \<Rightarrow> u32 \<Rightarrow> address \<Rightarrow> bool" where
  [store_defs]: "is_campaign_creator s cid a =
    (case get_campaign_creator_index s cid of None \<Rightarrow> False | Some c \<Rightarrow> c = a)"

definition get_emergency_pause_signers :: "'w state \<Rightarrow> address list" where
  [store_defs]: "get_emergency_pause_signers s =
    (case ak_emergency_pause_signers (st_admin s) of None \<Rightarrow> [] | Some x \<Rightarrow> x)"

definition set_emergency_pause_signers :: "(address list) \<Rightarrow> 'w state \<Rightarrow> 'w state" where
  [store_defs]: "set_emergency_pause_signers x s =
    s\<lparr>st_admin := (st_admin s)\<lparr>ak_emergency_pause_signers := Some x\<rparr>\<rparr>"

section \<open>Comment censure\<close>

definition set_comment_censure :: "u32 \<Rightarrow> bytes32 \<Rightarrow> comment_censure \<Rightarrow> 'w state \<Rightarrow> 'w state" where
  [store_defs]: "set_comment_censure cid h r s =
    s\<lparr>st_campaign := (st_campaign s)\<lparr>ck_comment_censured := (ck_comment_censured (st_campaign s))((cid, h) \<mapsto> r)\<rparr>\<rparr>"

definition get_comment_censure :: "'w state \<Rightarrow> u32 \<Rightarrow> bytes32 \<Rightarrow> comment_censure option" where
  [store_defs]: "get_comment_censure s cid h = ck_comment_censured (st_campaign s) (cid, h)"

definition is_comment_censured :: "'w state \<Rightarrow> u32 \<Rightarrow> bytes32 \<Rightarrow> bool" where
  [store_defs]: "is_comment_censured s cid h = (ck_comment_censured (st_campaign s) (cid, h) \<noteq> None)"

definition remove_comment_censure :: "u32 \<Rightarrow> bytes32 \<Rightarrow> 'w state \<Rightarrow> 'w state" where
  [store_defs]: "remove_comment_censure cid h s =
    s\<lparr>st_campaign := (st_campaign s)\<lparr>ck_comment_censured := (ck_comment_censured (st_campaign s))((cid, h) := None)\<rparr>\<rparr>"

definition get_campaign_censured_count :: "'w state \<Rightarrow> u32 \<Rightarrow> u32" where
  [store_defs]: "get_campaign_censured_count s cid =
    (case ck_campaign_censured_count (st_campaign s) cid of None \<Rightarrow> 0 | Some x \<Rightarrow> x)"

definition set_campaign_censured_count :: "u32 \<Rightarrow> u32 \<Rightarrow> 'w state \<Rightarrow> 'w state" where
  [store_defs]: "set_campaign_censured_count cid x s =
    s\<lparr>st_campaign := (st_campaign s)\<lparr>ck_campaign_censured_count := (ck_campaign_censured_count (st_campaign s))(cid \<mapsto> x)\<rparr>\<rparr>"

section \<open>Campaign currency\<close>

definition set_campaign_token :: "u32 \<Rightarrow> address \<Rightarrow> 'w state \<Rightarrow> 'w state" where
  [store_defs]: "set_campaign_token cid t s =
    s\<lparr>st_campaign := (st_campaign s)\<lparr>ck_campaign_token := (ck_campaign_token (st_campaign s))(cid \<mapsto> t)\<rparr>\<rparr>"

definition get_campaign_token :: "'w state \<Rightarrow> u32 \<Rightarrow> address option" where
  [store_defs]: "get_campaign_token s cid =
    (case ck_campaign_token (st_campaign s) cid of None \<Rightarrow> get_token s | Some t \<Rightarrow> Some t)"

definition has_campaign_token :: "'w state \<Rightarrow> u32 \<Rightarrow> bool" where
  [store_defs]: "has_campaign_token s cid = (ck_campaign_token (st_campaign s) cid \<noteq> None)"

definition set_token_allowed :: "address \<Rightarrow> bool \<Rightarrow> 'w state \<Rightarrow> 'w state" where
  [store_defs]: "set_token_allowed t allowed s =
    s\<lparr>st_admin := (st_admin s)\<lparr>ak_allowed_token :=
      (ak_allowed_token (st_admin s))(t := (if allowed then Some True else None))\<rparr>\<rparr>"

definition is_token_explicitly_allowed :: "'w state \<Rightarrow> address \<Rightarrow> bool" where
  [store_defs]: "is_token_explicitly_allowed s t = (ak_allowed_token (st_admin s) t \<noteq> None)"

definition is_token_allowed :: "'w state \<Rightarrow> address \<Rightarrow> (error, bool) res" where
  "is_token_allowed s t =
    (and_then (unwrap (get_token s)) (\<lambda>platform. Ok (t = platform \<or> is_token_explicitly_allowed s t)))"

section \<open>Text hashing and the title index\<close>

text \<open>
  \<open>hash_text\<close> copies at most the title limit of bytes and hashes them; a longer text
  does not fit the slice it is copied into, which traps.
\<close>

definition hash_text :: "('w, 'm) host_scheme \<Rightarrow> string \<Rightarrow> (error, bytes32) res" where
  "hash_text e text =
    (if CAMPAIGN_TITLE_MAX_LEN < length text then Trap
     else Ok (h_sha256 e (take (min (length text) CAMPAIGN_TITLE_MAX_LEN) text)))"

definition creator_has_title :: "'w state \<Rightarrow> address \<Rightarrow> bytes32 \<Rightarrow> bool" where
  [store_defs]: "creator_has_title s a h =
    (ck_creator_campaign_title_index (st_campaign s) (a, h) \<noteq> None)"

definition set_creator_title_index :: "address \<Rightarrow> bytes32 \<Rightarrow> u32 \<Rightarrow> 'w state \<Rightarrow> 'w state" where
  [store_defs]: "set_creator_title_index a h cid s =
    s\<lparr>st_campaign := (st_campaign s)\<lparr>ck_creator_campaign_title_index := (ck_creator_campaign_title_index (st_campaign s))((a, h) \<mapsto> cid)\<rparr>\<rparr>"

definition remove_creator_title_index :: "address \<Rightarrow> bytes32 \<Rightarrow> 'w state \<Rightarrow> 'w state" where
  [store_defs]: "remove_creator_title_index a h s =
    s\<lparr>st_campaign := (st_campaign s)\<lparr>ck_creator_campaign_title_index := (ck_creator_campaign_title_index (st_campaign s))((a, h) := None)\<rparr>\<rparr>"

section \<open>Fee recipient snapshot\<close>

definition get_campaign_fee_recipient :: "'w state \<Rightarrow> u32 \<Rightarrow> address option" where
  [store_defs]: "get_campaign_fee_recipient s cid = ck_campaign_fee_recipient (st_campaign s) cid"

definition set_campaign_fee_recipient :: "u32 \<Rightarrow> address \<Rightarrow> 'w state \<Rightarrow> 'w state" where
  [store_defs]: "set_campaign_fee_recipient cid a s =
    s\<lparr>st_campaign := (st_campaign s)\<lparr>ck_campaign_fee_recipient := (ck_campaign_fee_recipient (st_campaign s))(cid \<mapsto> a)\<rparr>\<rparr>"

section \<open>Tag index\<close>

definition TAG_CAMPAIGNS_BUCKET_SIZE :: u32 where
  [const_defs]: "TAG_CAMPAIGNS_BUCKET_SIZE = 500"

definition get_campaign_tags :: "'w state \<Rightarrow> u32 \<Rightarrow> string list" where
  [store_defs]: "get_campaign_tags s cid =
    (case ck_campaign_tags (st_campaign s) cid of None \<Rightarrow> [] | Some x \<Rightarrow> x)"

definition set_campaign_tags :: "u32 \<Rightarrow> (string list) \<Rightarrow> 'w state \<Rightarrow> 'w state" where
  [store_defs]: "set_campaign_tags cid tags s =
    s\<lparr>st_campaign := (st_campaign s)\<lparr>ck_campaign_tags := (ck_campaign_tags (st_campaign s))(cid \<mapsto> tags)\<rparr>\<rparr>"

definition get_tag_campaign_count :: "'w state \<Rightarrow> bytes32 \<Rightarrow> u32" where
  [store_defs]: "get_tag_campaign_count s h =
    (case ck_tag_campaign_count (st_campaign s) h of None \<Rightarrow> 0 | Some x \<Rightarrow> x)"

definition set_tag_campaign_count :: "bytes32 \<Rightarrow> u32 \<Rightarrow> 'w state \<Rightarrow> 'w state" where
  [store_defs]: "set_tag_campaign_count h x s =
    s\<lparr>st_campaign := (st_campaign s)\<lparr>ck_tag_campaign_count := (ck_tag_campaign_count (st_campaign s))(h \<mapsto> x)\<rparr>\<rparr>"

definition get_tag_campaigns_bucket :: "'w state \<Rightarrow> bytes32 \<Rightarrow> u32 \<Rightarrow> u32 list" where
  [store_defs]: "get_tag_campaigns_bucket s h b =
    (case ck_tag_campaigns_bucket (st_campaign s) (h, b) of None \<Rightarrow> [] | Some x \<Rightarrow> x)"

definition set_tag_campaigns_bucket :: "bytes32 \<Rightarrow> u32 \<Rightarrow> (u32 list) \<Rightarrow> 'w state \<Rightarrow> 'w state" where
  [store_defs]: "set_tag_campaigns_bucket h b x s =
    s\<lparr>st_campaign := (st_campaign s)\<lparr>ck_tag_campaigns_bucket := (ck_tag_campaigns_bucket (st_campaign s))((h, b) \<mapsto> x)\<rparr>\<rparr>"

definition append_campaign_to_tag :: "bytes32 \<Rightarrow> u32 \<Rightarrow> 'w state \<Rightarrow> (error, 'w state) res" where
  "append_campaign_to_tag h cid s =
    (let count = get_tag_campaign_count s h;
         bucket_idx = count div TAG_CAMPAIGNS_BUCKET_SIZE;
         bucket = get_tag_campaigns_bucket s h bucket_idx @ [cid];
         s1 = set_tag_campaigns_bucket h bucket_idx bucket s in
     and_then (unwrap (u32_checked_add count 1)) (\<lambda>n. Ok (set_tag_campaign_count h n s1)))"

section \<open>Host calls\<close>

text \<open>A token transfer: the token contract runs on its own state or traps the invocation.\<close>

definition transfer ::
  "('w, 'm) host_scheme \<Rightarrow> address \<Rightarrow> address \<Rightarrow> address \<Rightarrow> i128 \<Rightarrow> 'w state \<Rightarrow> (error, 'w state) res" where
  "transfer e tok frm to amt s =
    (and_then (unwrap (h_transfer e tok frm to amt (st_world s))) (\<lambda>w. Ok (s\<lparr>st_world := w\<rparr>)))"

lemma transfer_eq_Ok [res_simps]:
  "transfer e tok frm to amt s = Inr s' \<longleftrightarrow>
     (\<exists>w. h_transfer e tok frm to amt (st_world s) = Some w \<and> s' = s\<lparr>st_world := w\<rparr>)"
  by (auto simp: transfer_def res_simps)

lemma increment_eq_Ok [res_simps]:
  "increment_contributor_count cid s = Inr s' \<longleftrightarrow>
     get_contributor_count s cid + 1 \<le> u32_max \<and>
     s' = set_contributor_count cid (get_contributor_count s cid + 1) s"
  "increment_active_campaign_count s = Inr s' \<longleftrightarrow>
     get_active_campaign_count s + 1 \<le> u32_max \<and>
     s' = set_active_campaign_count (get_active_campaign_count s + 1) s"
  "increment_verified_campaign_count s = Inr s' \<longleftrightarrow>
     get_verified_campaign_count s + 1 \<le> u32_max \<and>
     s' = set_verified_campaign_count (get_verified_campaign_count s + 1) s"
  "increment_cancelled_campaign_count s = Inr s' \<longleftrightarrow>
     get_cancelled_campaign_count s + 1 \<le> u32_max \<and>
     s' = set_cancelled_campaign_count (get_cancelled_campaign_count s + 1) s"
  by (auto simp: increment_contributor_count_def increment_active_campaign_count_def
      increment_verified_campaign_count_def increment_cancelled_campaign_count_def res_simps)

end
