(* ===== verification/Lifecycle.thy ===== *)
theory Lifecycle
  imports Storage
begin

text \<open>
  \<^verbatim>\<open>src/lifecycle.rs\<close>: the guards every entry point shares, the derived lifecycle
  state of a campaign and its transition check. Each guard comes with the
  condition under which it passes (\<open>res_simps\<close>), so that the proof of an entry
  point reads off its preconditions.
\<close>

section \<open>Lifecycle states\<close>

datatype campaign_state = Active | Verified | Withdrawn | Cancelled

definition campaign_state_of :: "campaign \<Rightarrow> campaign_state" where
  "campaign_state_of c =
    (if c_is_cancelled c then Cancelled
     else if c_funds_withdrawn c then Withdrawn
     else if c_is_verified c then Verified
     else Active)"

definition transition :: "campaign_state \<Rightarrow> campaign_state \<Rightarrow> (error, unit) res" where
  "transition frm to =
    (if (frm, to) \<in> {(Active, Verified), (Active, Cancelled), (Verified, Cancelled),
                     (Verified, Withdrawn)}
     then Ok () else Err InvalidStateTransition)"

lemma transition_eq_Ok [res_simps]:
  "transition frm to = Inr u \<longleftrightarrow>
     frm = Active \<and> to = Verified \<or> to = Cancelled \<and> frm \<in> {Active, Verified} \<or>
     frm = Verified \<and> to = Withdrawn"
  by (auto simp: transition_def)

lemma transition_from_terminal:
  "frm \<in> {Withdrawn, Cancelled} \<Longrightarrow> transition frm to = Err InvalidStateTransition"
  by (auto simp: transition_def)

lemma transition_to_active: "transition frm Active = Err InvalidStateTransition"
  by (auto simp: transition_def)

section \<open>Guards\<close>

definition require_auth :: "('w, 'm) env_scheme \<Rightarrow> address \<Rightarrow> (error, unit) res" where
  "require_auth e a = (if e_auth e a then Ok () else Trap)"

definition get_campaign_or_error :: "'w state \<Rightarrow> u32 \<Rightarrow> (error, campaign) res" where
  "get_campaign_or_error s cid =
    (and_then (ok_or (get_campaign s cid) CampaignNotFound) (\<lambda>c. Ok c))"

definition assert_creator :: "('w, 'm) env_scheme \<Rightarrow> campaign \<Rightarrow> (error, unit) res" where
  "assert_creator e c = require_auth e (c_creator c)"

definition get_creator_campaign ::
  "('w, 'm) env_scheme \<Rightarrow> 'w state \<Rightarrow> u32 \<Rightarrow> (error, campaign) res" where
  "get_creator_campaign e s cid =
    (and_then (get_campaign_or_error s cid) (\<lambda>c.
     and_then (assert_creator e c) (\<lambda>_. Ok c)))"

definition admin_or_trap :: "'w state \<Rightarrow> (error, address) res" where
  "admin_or_trap s = (and_then (unwrap (get_admin s)) (\<lambda>a. Ok a))"

definition token_or_trap :: "'w state \<Rightarrow> (error, address) res" where
  "token_or_trap s = (and_then (unwrap (get_token s)) (\<lambda>a. Ok a))"

definition assert_admin ::
  "('w, 'm) env_scheme \<Rightarrow> address \<Rightarrow> 'w state \<Rightarrow> (error, unit) res" where
  "assert_admin e caller s =
    (and_then (admin_or_trap s) (\<lambda>admin.
     if caller \<noteq> admin then Err NotAuthorized
     else require_auth e caller))"

definition require_active_campaign :: "campaign \<Rightarrow> (error, unit) res" where
  "require_active_campaign c =
    (if c_is_cancelled c \<or> \<not> c_is_active c then Err CampaignNotActive else Ok ())"

definition require_unverified_campaign :: "campaign \<Rightarrow> (error, unit) res" where
  "require_unverified_campaign c =
    (if c_is_verified c then Err CampaignAlreadyVerified else Ok ())"

definition require_revenue_sharing :: "campaign \<Rightarrow> error \<Rightarrow> (error, unit) res" where
  "require_revenue_sharing c err =
    (if \<not> c_has_revenue_sharing c then Err err else Ok ())"

definition calculate_deadline :: "u64 \<Rightarrow> u64 \<Rightarrow> (error, u64) res" where
  "calculate_deadline now days =
    (and_then (ok_or (u64_checked_mul days SECONDS_PER_DAY) ValidationFailed) (\<lambda>secs.
     and_then (ok_or (u64_checked_add now secs) ValidationFailed) (\<lambda>d. Ok d)))"

definition require_not_paused :: "'w state \<Rightarrow> (error, unit) res" where
  "require_not_paused s =
    (if paused_flag s \<or> auto_paused_flag s then Err ContractPaused else Ok ())"

text \<open>
  \<open>token_client\<close> and \<open>campaign_token_client\<close> select the token contract a call goes
  to: the platform's, or the campaign's own currency.
\<close>

definition token_client :: "'w state \<Rightarrow> (error, address) res" where
  "token_client s = token_or_trap s"

definition campaign_token_client :: "'w state \<Rightarrow> u32 \<Rightarrow> (error, address) res" where
  "campaign_token_client s cid =
    (and_then (unwrap (get_campaign_token s cid)) (\<lambda>t. Ok t))"

definition campaign_start_time_or_error :: "'w state \<Rightarrow> u32 \<Rightarrow> (error, u64) res" where
  "campaign_start_time_or_error s cid =
    (and_then (ok_or (get_campaign_start_time s cid) InvalidDuration) (\<lambda>t. Ok t))"

section \<open>When the guards pass\<close>

lemma guards_eq_Ok [res_simps]:
  "require_auth e a = Inr u \<longleftrightarrow> e_auth e a"
  "get_campaign_or_error s cid = Inr c \<longleftrightarrow> get_campaign s cid = Some c"
  "assert_creator e c = Inr u \<longleftrightarrow> e_auth e (c_creator c)"
  "admin_or_trap s = Inr a \<longleftrightarrow> get_admin s = Some a"
  "token_or_trap s = Inr a \<longleftrightarrow> get_token s = Some a"
  "require_active_campaign c = Inr u \<longleftrightarrow> c_is_active c \<and> \<not> c_is_cancelled c"
  "require_unverified_campaign c = Inr u \<longleftrightarrow> \<not> c_is_verified c"
  "require_revenue_sharing c er = Inr u \<longleftrightarrow> c_has_revenue_sharing c"
  "require_not_paused s = Inr u \<longleftrightarrow> \<not> paused_flag s \<and> \<not> auto_paused_flag s"
  "token_client s = Inr a \<longleftrightarrow> get_token s = Some a"
  "campaign_token_client s cid = Inr a \<longleftrightarrow> get_campaign_token s cid = Some a"
  "campaign_start_time_or_error s cid = Inr t \<longleftrightarrow> get_campaign_start_time s cid = Some t"
  by (auto simp: require_auth_def get_campaign_or_error_def assert_creator_def
      admin_or_trap_def token_or_trap_def require_active_campaign_def
      require_unverified_campaign_def require_revenue_sharing_def require_not_paused_def
      token_client_def campaign_token_client_def campaign_start_time_or_error_def
      res_simps split: option.splits)

lemma get_creator_campaign_eq_Ok [res_simps]:
  "get_creator_campaign e s cid = Inr c \<longleftrightarrow> get_campaign s cid = Some c \<and> e_auth e (c_creator c)"
  by (auto simp: get_creator_campaign_def res_simps)

lemma assert_admin_eq_Ok [res_simps]:
  "assert_admin e caller s = Inr u \<longleftrightarrow> get_admin s = Some caller \<and> e_auth e caller"
  by (auto simp: assert_admin_def res_simps)

lemma calculate_deadline_eq_Ok [res_simps]:
  "calculate_deadline now days = Inr d \<longleftrightarrow>
     d = now + days * SECONDS_PER_DAY \<and> now + days * SECONDS_PER_DAY \<le> u64_max"
  by (auto simp: calculate_deadline_def res_simps)

lemmas guard_unfolds [guard_defs] =
  require_auth_def get_campaign_or_error_def assert_creator_def get_creator_campaign_def
  admin_or_trap_def token_or_trap_def assert_admin_def require_active_campaign_def
  require_unverified_campaign_def require_revenue_sharing_def calculate_deadline_def
  require_not_paused_def token_client_def campaign_token_client_def
  campaign_start_time_or_error_def

end
