(* ===== verification/Example.thy ===== *)
theory Example
  imports Lifecycle
begin

text \<open>
  A concrete host for the witnesses: token contracts that keep balances and refuse
  an overdraft, everybody but the contract authorising every call, and a hash that tells texts of
  different lengths apart. \<open>eval_simps\<close> are the definitions a witness unfolds to
  compute an entry point on a concrete state.
\<close>

type_synonym balances = "address \<times> address \<Rightarrow> i128"

definition demo_transfer ::
  "address \<Rightarrow> address \<Rightarrow> address \<Rightarrow> i128 \<Rightarrow> balances \<Rightarrow> balances option" where
  "demo_transfer tok frm to amt bal =
    (if 0 \<le> amt \<and> amt \<le> bal (tok, frm)
     then (let bal' = bal((tok, frm) := bal (tok, frm) - amt) in
           Some (bal'((tok, to) := bal' (tok, to) + amt)))
     else None)"

definition demo_host :: "balances host" where
  "demo_host =
    \<lparr>h_self = Address 99, h_transfer = demo_transfer, h_balance = (\<lambda>tok a bal. Some (bal (tok, a))),
     h_decimals = (\<lambda>tok bal. Some 7), h_sha256 = (\<lambda>t. map (\<lambda>_. of_nat (length t)) t)\<rparr>"

definition demo_env :: "u64 \<Rightarrow> balances env" where
  "demo_env t = host.extend demo_host \<lparr>e_timestamp = t, e_sequence = 1, e_auth = (\<lambda>a. a \<noteq> Address 99)\<rparr>"

lemma demo_env_fields [simp]:
  "h_self (demo_env t) = Address 99" "h_transfer (demo_env t) = demo_transfer"
  "h_balance (demo_env t) = (\<lambda>tok a bal. Some (bal (tok, a)))"
  "h_decimals (demo_env t) = (\<lambda>tok bal. Some 7)"
  "h_sha256 (demo_env t) = (\<lambda>t. map (\<lambda>_. of_nat (length t)) t)"
  "e_timestamp (demo_env t) = t" "e_sequence (demo_env t) = 1" "e_auth (demo_env t) = (\<lambda>a. a \<noteq> Address 99)"
  "host.truncate (demo_env t) = demo_host"
  by (simp_all add: demo_env_def demo_host_def host.defs)

text \<open>Everybody starts with a million of every token, the contract with nothing.\<close>

definition demo_balances :: balances where
  "demo_balances = (\<lambda>(tok, a). if a = Address 99 then 0 else 1000000)"

named_theorems eval_simps "definitions unfolded to compute a concrete call"

lemmas base_eval [eval_simps] =
  store_defs const_defs guard_defs Let_def checked_simps in_i128_def i128_min_def i128_max_def
  u32_max_def u64_max_def transfer_def demo_transfer_def transition_def campaign_state_of_def
  increment_contributor_count_def increment_active_campaign_count_def
  increment_verified_campaign_count_def increment_cancelled_campaign_count_def
  empty_state_def demo_balances_def

text \<open>
  A small initialised platform: admin 0, token 1, a verified campaign 1 of creator 2
  that has met its goal of 100000 with 60000 from address 3 and 40001 from address 4.
\<close>

definition demo_campaign :: campaign where
  "demo_campaign =
    \<lparr>c_id = 1, c_creator = Address 2, c_first_creator = Address 2, c_pending_creator = NoPending,
     c_title = ''T'', c_description = ''D'', c_funding_goal = 100000, c_deadline = 866000,
     c_amount_raised = 100001, c_is_active = True, c_funds_withdrawn = False,
     c_is_cancelled = False, c_is_verified = True, c_category = EducationalStartup,
     c_has_revenue_sharing = True, c_revenue_share_percentage = 1000,
     c_max_contribution_per_user = 0, c_fee_override = None, c_deadline_extended = False,
     c_effective_amount_raised = 100001\<rparr>"

definition demo_state :: "balances state" where
  "demo_state =
    set_campaign_start_time 1 2000 (set_total_raised_global 100001 (set_active_campaign_count 1
    (set_contributor_count 1 2
    (set_lifetime_contribution 1 (Address 4) 40001 (set_contribution 1 (Address 4) 40001
    (set_lifetime_contribution 1 (Address 3) 60000 (set_contribution 1 (Address 3) 60000
    (set_campaign_vesting 1 30 2000 (set_campaign 1 demo_campaign (set_campaign_count 1
    (set_platform_fee 300 (set_token (Address 1) (set_admin (Address 0) (set_initialized
    (empty_state (\<lambda>(tok, a). 1000000))))))))))))))))"

lemmas demo_defs [eval_simps] = demo_state_def demo_campaign_def

declare One_nat_def [simp del]

lemma demo_campaign_fields:
  "c_id demo_campaign = 1" "c_creator demo_campaign = Address 2" "c_funding_goal demo_campaign = 100000"
  "c_deadline demo_campaign = 866000" "c_amount_raised demo_campaign = 100001"
  "c_effective_amount_raised demo_campaign = 100001" "c_is_active demo_campaign"
  "\<not> c_funds_withdrawn demo_campaign" "\<not> c_is_cancelled demo_campaign" "c_is_verified demo_campaign"
  "c_has_revenue_sharing demo_campaign" "c_revenue_share_percentage demo_campaign = 1000"
  "c_max_contribution_per_user demo_campaign = 0" "c_fee_override demo_campaign = None"
  by (simp_all add: demo_campaign_def)

lemma demo_facts:
  "get_campaign demo_state 1 = Some demo_campaign" "get_campaign_token demo_state 1 = Some (Address 1)"
  "get_contribution demo_state 1 (Address 3) = 60000" "get_contribution demo_state 1 (Address 4) = 40001"
  "get_lifetime_contribution demo_state 1 (Address 3) = 60000"
  "get_contributor_count demo_state 1 = 2" "get_total_raised_global demo_state = 100001"
  "get_admin demo_state = Some (Address 0)" "paused_flag demo_state = False"
  "auto_paused_flag demo_state = False"
  by (simp_all add: demo_state_def base_eval)

text \<open>A computed call that succeeds has a state to speak about.\<close>

lemma is_okE: "is_ok r \<Longrightarrow> (\<And>x. r = Inr x \<Longrightarrow> P) \<Longrightarrow> P"
  by (cases r) simp_all

end
