(* ===== verification/Rent.thy ===== *)
theory Rent
  imports Example
begin

text \<open>
  Entry lifetimes (\<^verbatim>\<open>src/storage.rs\<close>). The ledger keeps every persistent entry
  until its \<open>live_until\<close> ledger and the contract's instance entry (which holds all
  instance keys) until its own. The theories of the store ignore lifetimes, because
  no value the contract reads depends on them; this theory models what the accessors
  do to them: \<open>persistent_set!\<close>, the three setters that repeat its two steps by hand,
  \<open>bump_instance_ttl\<close>, the five getters that extend on read and \<open>extend_voting_state_ttl\<close>. Entries are named by the variants of
  the key enums that are stored persistently.

  How the host extends a lifetime is not code of the repository. It is a parameter, a
  \<open>rent_host\<close>, and \<open>documented\<close> states the documented law of \<open>extend_ttl\<close>: an entry with at least the
  threshold left stays as it is, any other lives for \<open>extend_to\<close> more ledgers, up to the network's
  limit. An archived entry cannot be read or written: such an access traps (the protocol requires it to
  be restored first; \<^verbatim>\<open>docs/ADR-001-storage-model.md\<close> says it reads as \<open>None\<close>).
\<close>

section \<open>Keys and lifetimes\<close>

text \<open>The variants of each key enum that are persistent, and the enum a key is of.\<close>

datatype campaign_key =
    Campaign u32
  | CampaignVesting u32
  | CampaignStartTime u32
  | CampaignReserve u32
  | CategoryCampaigns u32
  | CategoryCampaignsBucket u32 u32
  | CreatorCampaignCount address
  | CreatorCampaignsBucket address u32
  | CampaignCreatorIndex u32
  | CampaignMilestones u32
  | MilestoneClaimed u32 u32
  | CommentCensured u32 bytes32
  | CampaignCensuredCount u32
  | CampaignToken u32
  | CreatorCampaignPosition address u32
  | CreatorCampaignTitleIndex address bytes32
  | CampaignFeeRecipient u32
  | TagCampaignsBucket bytes32 u32
  | TagCampaignCount bytes32
  | CampaignTags u32

datatype contribution_key =
    Contribution u32 address
  | LifetimeContribution u32 address
  | PersonalCap u32 address
  | ContributorCount u32
  | TopContributor u32
  | LastContributionTime u32

datatype voting_key =
    ApproveVotes u32
  | RejectVotes u32
  | ApproveWeight u32
  | RejectWeight u32
  | HasVoted u32 address

datatype revenue_key =
    RevenuePool u32
  | RevenueClaimed u32 address
  | CreatorRevenueClaimed u32
  | ContributorRevenueDistributed u32
  | ContributorRevenueClaimants u32

datatype bookmark_key = SavedCampaigns address

datatype persistent_key =
    CampaignKey campaign_key
  | ContributionKey contribution_key
  | VotingKey voting_key
  | RevenueKey revenue_key
  | BookmarkKey bookmark_key

record rent =
  live_until :: "persistent_key \<rightharpoonup> u32"
  instance_until :: u32

record rent_host =
  h_extend :: "u32 \<Rightarrow> u32 \<Rightarrow> u32 \<Rightarrow> u32 \<Rightarrow> u32" \<comment> \<open>ledger, live until, threshold, extend to\<close>
  h_fresh :: "u32 \<Rightarrow> u32"                    \<comment> \<open>live until, of an entry created at this ledger\<close>
  h_limit :: u32                             \<comment> \<open>longest lifetime the network allows\<close>

definition documented :: "rent_host \<Rightarrow> bool" where
  "documented h \<longleftrightarrow>
     (\<forall>now. now \<le> h_fresh h now) \<and>
     (\<forall>now until threshold extend_to. now \<le> until \<longrightarrow> threshold \<le> extend_to \<longrightarrow>
        h_extend h now until threshold extend_to =
          (if until < now + threshold then max until (now + min extend_to (h_limit h)) else until))"

lemma documentedD:
  assumes "documented h"
  shows "now \<le> h_fresh h now"
    "now \<le> until \<Longrightarrow> threshold \<le> extend_to \<Longrightarrow> until \<le> h_extend h now until threshold extend_to"
    "now \<le> until \<Longrightarrow> threshold \<le> extend_to \<Longrightarrow>
       now + min threshold (h_limit h) \<le> h_extend h now until threshold extend_to"
    "now \<le> until \<Longrightarrow> until < now + threshold \<Longrightarrow> threshold \<le> extend_to \<Longrightarrow>
       now + min extend_to (h_limit h) \<le> h_extend h now until threshold extend_to"
  using assms unfolding documented_def by auto

definition DAY_IN_LEDGERS :: u32 where "DAY_IN_LEDGERS = 17280"
definition BUMP_THRESHOLD :: u32 where "BUMP_THRESHOLD = 7 * DAY_IN_LEDGERS"
definition BUMP_AMOUNT :: u32 where "BUMP_AMOUNT = 400 * DAY_IN_LEDGERS"

lemmas bump_defs = DAY_IN_LEDGERS_def BUMP_THRESHOLD_def BUMP_AMOUNT_def

lemma bump_order [simp]: "BUMP_THRESHOLD \<le> BUMP_AMOUNT"
  by (simp add: bump_defs)

section \<open>What the accessors do\<close>

text \<open>One access of the host: reading or writing an archived entry traps.\<close>

definition archived :: "u32 \<Rightarrow> persistent_key \<Rightarrow> rent \<Rightarrow> bool" where
  "archived now key r = (case live_until r key of None \<Rightarrow> False | Some l \<Rightarrow> l < now)"

definition extend_entry :: "rent_host \<Rightarrow> u32 \<Rightarrow> persistent_key \<Rightarrow> rent \<Rightarrow> (error, rent) res" where
  "extend_entry h now key r =
     (case live_until r key of
        None \<Rightarrow> Trap
      | Some l \<Rightarrow> if l < now then Trap
          else Ok (r\<lparr>live_until := (live_until r)(key \<mapsto> h_extend h now l BUMP_THRESHOLD BUMP_AMOUNT)\<rparr>))"

definition persistent_set :: "rent_host \<Rightarrow> u32 \<Rightarrow> persistent_key \<Rightarrow> rent \<Rightarrow> (error, rent) res" where
  "persistent_set h now key r =
     (if archived now key r then Trap
      else extend_entry h now key
        (case live_until r key of
           None \<Rightarrow> r\<lparr>live_until := (live_until r)(key \<mapsto> h_fresh h now)\<rparr>
         | Some _ \<Rightarrow> r))"

text \<open>Three setters repeat the two steps of the macro by hand.\<close>

definition rent_set_top_contributor :: "rent_host \<Rightarrow> u32 \<Rightarrow> u32 \<Rightarrow> rent \<Rightarrow> (error, rent) res" where
  "rent_set_top_contributor h now campaign_id = persistent_set h now (ContributionKey (TopContributor campaign_id))"

definition rent_set_last_contribution_time :: "rent_host \<Rightarrow> u32 \<Rightarrow> u32 \<Rightarrow> rent \<Rightarrow> (error, rent) res" where
  "rent_set_last_contribution_time h now campaign_id =
     persistent_set h now (ContributionKey (LastContributionTime campaign_id))"

definition rent_set_campaign_creator_index :: "rent_host \<Rightarrow> u32 \<Rightarrow> u32 \<Rightarrow> rent \<Rightarrow> (error, rent) res" where
  "rent_set_campaign_creator_index h now campaign_id = persistent_set h now (CampaignKey (CampaignCreatorIndex campaign_id))"

definition persistent_remove :: "persistent_key \<Rightarrow> rent \<Rightarrow> rent" where
  "persistent_remove key r = r\<lparr>live_until := (live_until r)(key := None)\<rparr>"

text \<open>A getter that only reads, and one that extends the entry it finds.\<close>

definition plain_get :: "u32 \<Rightarrow> persistent_key \<Rightarrow> rent \<Rightarrow> (error, rent) res" where
  "plain_get now key r = (if archived now key r then Trap else Ok r)"

definition extending_get :: "rent_host \<Rightarrow> u32 \<Rightarrow> persistent_key \<Rightarrow> rent \<Rightarrow> (error, rent) res" where
  "extending_get h now key r =
     (if archived now key r then Trap
      else if live_until r key \<noteq> None then extend_entry h now key r
      else Ok r)"

definition bump_instance_ttl :: "rent_host \<Rightarrow> u32 \<Rightarrow> rent \<Rightarrow> (error, rent) res" where
  "bump_instance_ttl h now r =
     (if instance_until r < now then Trap
      else Ok (r\<lparr>instance_until := h_extend h now (instance_until r) BUMP_THRESHOLD BUMP_AMOUNT\<rparr>))"

text \<open>The getters that extend.\<close>

definition rent_top_contributor :: "rent_host \<Rightarrow> u32 \<Rightarrow> u32 \<Rightarrow> rent \<Rightarrow> (error, rent) res" where
  "rent_top_contributor h now campaign_id = extending_get h now (ContributionKey (TopContributor campaign_id))"

definition rent_creator_campaign_count :: "rent_host \<Rightarrow> u32 \<Rightarrow> address \<Rightarrow> rent \<Rightarrow> (error, rent) res" where
  "rent_creator_campaign_count h now creator = extending_get h now (CampaignKey (CreatorCampaignCount creator))"

definition rent_creator_campaign_bucket ::
  "rent_host \<Rightarrow> u32 \<Rightarrow> address \<Rightarrow> u32 \<Rightarrow> rent \<Rightarrow> (error, rent) res" where
  "rent_creator_campaign_bucket h now creator bucket_index =
     extending_get h now (CampaignKey (CreatorCampaignsBucket creator bucket_index))"

definition rent_creator_campaign_position ::
  "rent_host \<Rightarrow> u32 \<Rightarrow> address \<Rightarrow> u32 \<Rightarrow> rent \<Rightarrow> (error, rent) res" where
  "rent_creator_campaign_position h now creator campaign_id =
     extending_get h now (CampaignKey (CreatorCampaignPosition creator campaign_id))"

definition rent_personal_cap :: "rent_host \<Rightarrow> u32 \<Rightarrow> u32 \<Rightarrow> address \<Rightarrow> rent \<Rightarrow> (error, rent) res" where
  "rent_personal_cap h now campaign_id contributor = extending_get h now (ContributionKey (PersonalCap campaign_id contributor))"

text \<open>\<open>extend_voting_state_ttl\<close> walks four keys and extends those that exist.\<close>

fun extend_each :: "rent_host \<Rightarrow> u32 \<Rightarrow> persistent_key list \<Rightarrow> rent \<Rightarrow> (error, rent) res" where
  "extend_each h now [] r = Ok r"
| "extend_each h now (key # keys) r = and_then (extending_get h now key r) (extend_each h now keys)"

definition extend_voting_state_ttl :: "rent_host \<Rightarrow> u32 \<Rightarrow> u32 \<Rightarrow> rent \<Rightarrow> (error, rent) res" where
  "extend_voting_state_ttl h now campaign_id =
     extend_each h now (map VotingKey [ApproveVotes campaign_id, RejectVotes campaign_id,
       ApproveWeight campaign_id, RejectWeight campaign_id])"

text \<open>A sequence of accesses, each at its ledger.\<close>

datatype access =
    SetEntry persistent_key
  | RemoveEntry persistent_key
  | ReadEntry persistent_key
  | ReadAndExtend persistent_key
  | BumpInstance
  | ExtendVotingState u32

fun do_access :: "rent_host \<Rightarrow> u32 \<Rightarrow> access \<Rightarrow> rent \<Rightarrow> (error, rent) res" where
  "do_access h now (SetEntry key) r = persistent_set h now key r"
| "do_access h now (RemoveEntry key) r = Ok (persistent_remove key r)"
| "do_access h now (ReadEntry key) r = plain_get now key r"
| "do_access h now (ReadAndExtend key) r = extending_get h now key r"
| "do_access h now BumpInstance r = bump_instance_ttl h now r"
| "do_access h now (ExtendVotingState cid) r = extend_voting_state_ttl h now cid r"

fun accesses :: "rent_host \<Rightarrow> (u32 \<times> access) list \<Rightarrow> rent \<Rightarrow> (error, rent) res" where
  "accesses h [] r = Ok r"
| "accesses h ((now, a) # as) r = and_then (do_access h now a r) (accesses h as)"

section \<open>Lifetimes only grow\<close>

text \<open>Entry \<open>key\<close> lives until ledger \<open>l\<close> at least.\<close>

definition lives :: "persistent_key \<Rightarrow> u32 \<Rightarrow> rent \<Rightarrow> bool" where
  "lives key l r = (case live_until r key of None \<Rightarrow> False | Some m \<Rightarrow> l \<le> m)"

abbreviation assured :: "rent_host \<Rightarrow> u32 \<Rightarrow> u32" where
  "assured h now \<equiv> now + min BUMP_THRESHOLD (h_limit h)"

lemma lives_not_archived: "lives key now r \<Longrightarrow> \<not> archived now key r"
  by (auto simp: lives_def archived_def split: option.splits)

lemma lives_updates [simp]:
  "lives key l (r\<lparr>instance_until := n\<rparr>) = lives key l r"
  "lives key l (r\<lparr>live_until := (live_until r)(other := v)\<rparr>) =
     (if other = key then (case v of None \<Rightarrow> False | Some m \<Rightarrow> l \<le> m) else lives key l r)"
  by (simp_all add: lives_def)

lemma extend_entry_ok:
  assumes "extend_entry h now key r = Inr r'" "documented h"
  shows "lives key (assured h now) r'" "lives other l r \<Longrightarrow> lives other l r'" "instance_until r' = instance_until r"
    "(live_until r' other = None) = (live_until r other = None)"
proof -
  from assms(1) obtain m where m: "live_until r key = Some m" "now \<le> m"
    and r': "r' = r\<lparr>live_until := (live_until r)(key \<mapsto> h_extend h now m BUMP_THRESHOLD BUMP_AMOUNT)\<rparr>"
    by (auto simp: extend_entry_def not_less split: option.splits if_splits)
  note law = documentedD(2,3) [OF assms(2) m(2) bump_order]
  show "lives key (assured h now) r'" using law(2) by (simp add: r')
  show "lives other l r'" if "lives other l r"
    using that law(1) m(1) by (cases "other = key") (auto simp: r' lives_def)
  show "instance_until r' = instance_until r" by (simp add: r')
  show "(live_until r' other = None) = (live_until r other = None)" using m(1) by (simp add: r')
qed

text \<open>An entry close to its end gets the whole of \<open>BUMP_AMOUNT\<close>, and so does a new one.\<close>

lemma extend_entry_far:
  assumes "extend_entry h now key r = Inr r'" "documented h" "live_until r key = Some m" "m < now + BUMP_THRESHOLD"
  shows "lives key (now + min BUMP_AMOUNT (h_limit h)) r'"
  using assms documentedD(4) [OF assms(2) _ assms(4) bump_order]
  by (auto simp: extend_entry_def not_less split: if_splits)

lemma persistent_set_far:
  assumes "persistent_set h now key r = Inr r'" "documented h"
    "\<forall>m. live_until r key = Some m \<longrightarrow> m < now + BUMP_THRESHOLD"
    "live_until r key = None \<longrightarrow> h_fresh h now < now + BUMP_THRESHOLD"
  shows "lives key (now + min BUMP_AMOUNT (h_limit h)) r'"
proof (cases "live_until r key")
  case None
  with assms(1) have "extend_entry h now key (r\<lparr>live_until := (live_until r)(key \<mapsto> h_fresh h now)\<rparr>) = Inr r'"
    by (simp add: persistent_set_def split: if_splits)
  from extend_entry_far [OF this assms(2)] None assms(4) show ?thesis by simp
next
  case (Some m)
  with assms(1) have "extend_entry h now key r = Inr r'" by (simp add: persistent_set_def split: if_splits)
  from extend_entry_far [OF this assms(2) Some] Some assms(3) show ?thesis by simp
qed

lemma persistent_set_ok:
  assumes "persistent_set h now key r = Inr r'" "documented h"
  shows "lives key (assured h now) r'" "lives other l r \<Longrightarrow> lives other l r'" "instance_until r' = instance_until r"
proof -
  from assms(1) have "extend_entry h now key (case live_until r key of
      None \<Rightarrow> r\<lparr>live_until := (live_until r)(key \<mapsto> h_fresh h now)\<rparr> | Some _ \<Rightarrow> r) = Inr r'"
    by (simp add: persistent_set_def split: if_splits)
  note ok = extend_entry_ok [OF this assms(2)]
  show "lives key (assured h now) r'" by (rule ok(1))
  show "lives other l r'" if "lives other l r"
    by (rule ok(2)) (use that in \<open>auto simp: lives_def split: option.splits\<close>)
  show "instance_until r' = instance_until r" using ok(3) by (simp split: option.splits)
qed

lemma extending_get_ok:
  assumes "extending_get h now key r = Inr r'" "documented h"
  shows "live_until r key \<noteq> None \<Longrightarrow> lives key (assured h now) r'" "lives other l r \<Longrightarrow> lives other l r'"
    "instance_until r' = instance_until r" "(live_until r' other = None) = (live_until r other = None)"
  using assms extend_entry_ok [of h now key r r'] by (auto simp: extending_get_def split: if_splits)

lemma extend_each_mono:
  assumes "extend_each h now keys r = Inr r'" "documented h"
  shows "(lives other l r \<longrightarrow> lives other l r') \<and> instance_until r' = instance_until r"
  using assms
proof (induction keys arbitrary: r)
  case (Cons k keys)
  then obtain r1 where "extending_get h now k r = Inr r1" "extend_each h now keys r1 = Inr r'"
    by (auto simp: res_simps)
  with Cons extending_get_ok(2) [of h now k r r1 other l] extending_get_ok(3) [of h now k r r1] show ?case by metis
qed simp

lemma extend_each_extends:
  assumes "extend_each h now keys r = Inr r'" "documented h" "key \<in> set keys" "live_until r key \<noteq> None"
  shows "lives key (assured h now) r'"
  using assms
proof (induction keys arbitrary: r)
  case (Cons k keys)
  then obtain r1 where r1: "extending_get h now k r = Inr r1" "extend_each h now keys r1 = Inr r'"
    by (auto simp: res_simps)
  show ?case
  proof (cases "k = key")
    case True
    with extending_get_ok(1) [OF r1(1) Cons.prems(2)] Cons.prems(4) extend_each_mono [OF r1(2) Cons.prems(2)]
    show ?thesis by blast
  next
    case False
    have "live_until r1 key \<noteq> None" using Cons.prems(4) by (simp add: extending_get_ok(4) [OF r1(1) Cons.prems(2)] del: not_None_eq)
    with False Cons.prems(3) show ?thesis by (intro Cons.IH [OF r1(2) Cons.prems(2)]) simp_all
  qed
qed simp

lemma do_access_lives:
  assumes "do_access h now a r = Inr r'" "documented h" "lives key l r" "a \<noteq> RemoveEntry key"
  shows "lives key l r'"
proof (cases a)
  case (SetEntry k)
  with assms persistent_set_ok(2) [of h now k r r' key l] show ?thesis by simp
next
  case (RemoveEntry k)
  with assms show ?thesis by (auto simp: persistent_remove_def)
next
  case (ReadEntry k)
  with assms show ?thesis by (simp add: plain_get_def split: if_splits)
next
  case (ReadAndExtend k)
  with assms extending_get_ok(2) [of h now k r r' key l] show ?thesis by simp
next
  case BumpInstance
  with assms show ?thesis by (auto simp: bump_instance_ttl_def split: if_splits)
next
  case (ExtendVotingState cid)
  with assms extend_each_mono [of h now _ r r' key l] show ?thesis
    by (simp add: extend_voting_state_ttl_def del: extend_each.simps)
qed

lemma do_access_instance:
  assumes "do_access h now a r = Inr r'" "documented h"
  shows "instance_until r \<le> instance_until r'"
proof (cases a)
  case (SetEntry k)
  with assms persistent_set_ok(3) [of h now k r r'] show ?thesis by simp
next
  case BumpInstance
  with assms documentedD(2) [OF assms(2) _ bump_order, of now "instance_until r"] show ?thesis
    by (auto simp: bump_instance_ttl_def split: if_splits)
next
  case (ReadAndExtend k)
  with assms extending_get_ok(3) [of h now k r r'] show ?thesis by simp
next
  case (ExtendVotingState cid)
  with assms extend_each_mono [of h now _ r r'] show ?thesis
    by (simp add: extend_voting_state_ttl_def del: extend_each.simps)
qed (use assms in \<open>auto simp: plain_get_def persistent_remove_def split: if_splits\<close>)

lemma accesses_live:
  assumes "accesses h as r = Inr r'" "documented h" "lives key l r" "RemoveEntry key \<notin> snd ` set as"
  shows "lives key l r'"
  using assms
proof (induction as arbitrary: r)
  case (Cons x as)
  then show ?case by (cases x) (auto simp: res_simps intro: do_access_lives)
qed simp

lemma accesses_instance:
  assumes "accesses h as r = Inr r'" "documented h"
  shows "instance_until r \<le> instance_until r'"
  using assms
proof (induction as arbitrary: r)
  case (Cons x as)
  then obtain now a r1 where "do_access h now a r = Inr r1" "accesses h as r1 = Inr r'"
    by (cases x) (auto simp: res_simps)
  with Cons do_access_instance [of h now a r r1] show ?case by (meson le_trans)
qed simp

text \<open>The entries an access extends.\<close>

fun extended_by :: "access \<Rightarrow> rent \<Rightarrow> persistent_key set" where
  "extended_by (SetEntry key) r = {key}"
| "extended_by (ReadAndExtend key) r = {key} \<inter> dom (live_until r)"
| "extended_by (ExtendVotingState cid) r =
     VotingKey ` {ApproveVotes cid, RejectVotes cid, ApproveWeight cid, RejectWeight cid} \<inter> dom (live_until r)"
| "extended_by _ r = {}"

lemma do_access_extends:
  assumes "do_access h now a r = Inr r1" "documented h" "key \<in> extended_by a r"
  shows "lives key (assured h now) r1"
proof (cases a)
  case (SetEntry k)
  with assms persistent_set_ok(1) [of h now k r r1] show ?thesis by simp
next
  case (ReadAndExtend k)
  with assms extending_get_ok(1) [of h now k r r1] show ?thesis by auto
next
  case (ExtendVotingState cid)
  from assms(1) this have ext: "extend_each h now (map VotingKey [ApproveVotes cid, RejectVotes cid,
       ApproveWeight cid, RejectWeight cid]) r = Inr r1"
    by (simp add: extend_voting_state_ttl_def)
  show ?thesis
    by (rule extend_each_extends [OF ext assms(2)]) (use ExtendVotingState assms(3) in auto)
qed (use assms(3) in simp_all)

section \<open>What an access assures\<close>

text \<open>
  After an access at ledger \<open>L\<close> that writes an entry, reads it through one of the extending getters, or
  extends a campaign's voting state, the entry lives until \<open>L\<close> plus seven days of ledgers (or the
  network's longest lifetime, when that is less), whatever the contract accesses afterwards short of
  removing it; \<open>bump_instance_ttl\<close> assures the instance entry the same way.
\<close>

lemma written_entries_live:
  assumes "documented h" "do_access h now a r = Inr r1" "accesses h as r1 = Inr r2"
  shows "(\<forall>key. key \<in> extended_by a r \<and> RemoveEntry key \<notin> snd ` set as \<longrightarrow> lives key (assured h now) r2) \<and>
    (a = BumpInstance \<longrightarrow> assured h now \<le> instance_until r2)"
proof (intro conjI allI impI)
  show "lives key (assured h now) r2" if "key \<in> extended_by a r \<and> RemoveEntry key \<notin> snd ` set as" for key
    using that do_access_extends [OF assms(2,1)] accesses_live [OF assms(3,1)] by blast
next
  assume "a = BumpInstance"
  with assms(2) have "\<not> instance_until r < now"
    "r1 = r\<lparr>instance_until := h_extend h now (instance_until r) BUMP_THRESHOLD BUMP_AMOUNT\<rparr>"
    by (simp_all add: bump_instance_ttl_def split: if_splits)
  with documentedD(3) [OF assms(1) _ bump_order, of now "instance_until r"] accesses_instance [OF assms(3,1)]
  show "assured h now \<le> instance_until r2" by simp
qed

text \<open>A network whose longest lifetime is 180 days obeys the law.\<close>

definition demo_rent_host :: rent_host where
  "demo_rent_host = \<lparr>
     h_extend = (\<lambda>now until threshold extend_to.
       if until < now + threshold then max until (now + min extend_to 3110400) else until),
     h_fresh = (\<lambda>now. now + 4095), h_limit = 3110400\<rparr>"

lemma demo_documented: "documented demo_rent_host"
  by (auto simp: documented_def demo_rent_host_def)

text \<open>There, a new campaign entry is kept for the network's longest lifetime, not for seven days only.\<close>

lemma new_entry_kept:
  assumes "persistent_set demo_rent_host now key r = Inr r'" "live_until r key = None"
  shows "lives key (now + 3110400) r'"
  using persistent_set_far [OF assms(1) demo_documented] assms(2) by (simp add: demo_rent_host_def bump_defs)

end
