(* ===== verification/Escrow.thy ===== *)
theory Escrow
  imports Lifecycle
begin

text \<open>
  The abstract specification of the escrow: the part of the ledger that says who
  has money in which campaign and what stage the campaign is in, and the moves it
  may make. Each entry point is shown, in its component's theory, to make one of
  these moves (or a sequence of them) or none; the invariant is proved once, here,
  over the moves.
\<close>

section \<open>The core of a state\<close>

record core =
  k_count :: u32
  k_camp :: "u32 \<Rightarrow> campaign option"
  k_start :: "u32 \<Rightarrow> u64 option"
  k_contrib :: "u32 \<Rightarrow> address \<Rightarrow> i128"
  k_life :: "u32 \<Rightarrow> address \<Rightarrow> i128"
  k_backers :: "u32 \<Rightarrow> u32"
  k_active :: u32
  k_verified :: u32
  k_cancelled :: u32

definition core :: "'w state \<Rightarrow> core" where
  "core s =
    \<lparr>k_count = get_campaign_count s, k_camp = get_campaign s, k_start = get_campaign_start_time s,
     k_contrib = get_contribution s, k_life = get_lifetime_contribution s,
     k_backers = get_contributor_count s, k_active = get_active_campaign_count s,
     k_verified = get_verified_campaign_count s, k_cancelled = get_cancelled_campaign_count s\<rparr>"

lemma core_fields:
  "k_count (core s) = get_campaign_count s" "k_camp (core s) = get_campaign s"
  "k_start (core s) = get_campaign_start_time s" "k_contrib (core s) = get_contribution s"
  "k_life (core s) = get_lifetime_contribution s" "k_backers (core s) = get_contributor_count s"
  "k_active (core s) = get_active_campaign_count s"
  "k_verified (core s) = get_verified_campaign_count s"
  "k_cancelled (core s) = get_cancelled_campaign_count s"
  by (simp_all add: core_def)

text \<open>The core depends on the campaign and contribution entries only.\<close>

lemma core_cong:
  assumes "get_campaign_count s' = get_campaign_count s" "get_campaign s' = get_campaign s"
    "get_campaign_start_time s' = get_campaign_start_time s"
    "get_contribution s' = get_contribution s"
    "get_lifetime_contribution s' = get_lifetime_contribution s"
    "get_contributor_count s' = get_contributor_count s"
    "get_active_campaign_count s' = get_active_campaign_count s"
    "get_verified_campaign_count s' = get_verified_campaign_count s"
    "get_cancelled_campaign_count s' = get_cancelled_campaign_count s"
  shows "core s' = core s"
  using assms by (simp add: core_def)

named_theorems core_frame "effect of each setter on the core"

lemma core_unchanged [core_frame]:
  "core (publish tp v s) = core s"
  "core (s\<lparr>st_world := w\<rparr>) = core s"
  "core (s\<lparr>st_admin := x\<rparr>) = core s"
  "core (s\<lparr>st_voting := y\<rparr>) = core s"
  "core (s\<lparr>st_revenue := z\<rparr>) = core s"
  "core (s\<lparr>st_bookmark := b\<rparr>) = core s"
  by (simp_all add: core_def store_defs fun_eq_iff)

lemma core_unchanged_admin [core_frame]:
  "core (set_paused x1 s) = core s" "core (set_auto_paused x1 s) = core s"
  "core (set_initialized s) = core s" "core (set_admin a s) = core s"
  "core (set_pending_admin a s) = core s" "core (remove_pending_admin s) = core s"
  "core (set_token a s) = core s" "core (set_platform_fee n s) = core s"
  "core (set_max_contribution_per_transaction_value i s) = core s"
  "core (set_min_campaign_funding_goal i s) = core s"
  "core (set_max_campaign_funding_goal i s) = core s"
  "core (set_version n s) = core s" "core (set_withdraw_release_delay_days n s) = core s"
  "core (set_withdraw_reserve_percentage n s) = core s"
  "core (set_creation_disabled x1 s) = core s" "core (set_pending_token a s) = core s"
  "core (remove_pending_token s) = core s" "core (set_pending_token_release n s) = core s"
  "core (set_token_update_delay_secs n s) = core s"
  "core (set_emergency_pause_signers xs s) = core s" "core (set_token_allowed a x1 s) = core s"
  by (simp_all add: core_def store_defs fun_eq_iff)

lemma core_unchanged_voting_revenue [core_frame]:
  "core (set_approve_votes cid n s) = core s" "core (set_reject_votes cid n s) = core s"
  "core (set_approve_weight cid i s) = core s" "core (set_reject_weight cid i s) = core s"
  "core (set_has_voted cid a s) = core s" "core (remove_has_voted cid a s) = core s"
  "core (remove_voting_state cid s) = core s" "core (set_min_votes_quorum n s) = core s"
  "core (set_approval_threshold_bps n s) = core s" "core (set_min_voting_balance i s) = core s"
  "core (set_category_voting_threshold_bps cat n s) = core s"
  "core (remove_category_voting_threshold_bps cat s) = core s"
  "core (set_revenue_pool cid i s) = core s" "core (set_revenue_claimed cid a i s) = core s"
  "core (remove_revenue_claimed cid a s) = core s"
  "core (set_creator_revenue_claimed cid i s) = core s"
  "core (set_contributor_revenue_distributed cid i s) = core s"
  "core (set_contributor_revenue_claimants cid n s) = core s"
  "core (set_saved_campaigns a xs s) = core s"
  by (simp_all add: core_def store_defs fun_eq_iff)

lemma core_unchanged_campaign [core_frame]:
  "core (set_category_campaign_count cat n s) = core s"
  "core (set_category_campaign_bucket cat n xs s) = core s"
  "core (set_creator_campaign_count a n s) = core s"
  "core (set_creator_campaign_bucket a n xs s) = core s"
  "core (set_creator_campaign_position a n m j s) = core s"
  "core (remove_creator_campaign_position a n s) = core s"
  "core (set_campaign_reserve cid r s) = core s" "core (set_campaign_vesting cid n m s) = core s"
  "core (set_category_duration_cap cat n s) = core s"
  "core (remove_category_duration_cap cat s) = core s"
  "core (set_campaign_milestones cid ms s) = core s" "core (set_milestone_claimed cid n s) = core s"
  "core (set_campaign_creator_index cid a s) = core s"
  "core (set_comment_censure cid h cc s) = core s" "core (remove_comment_censure cid h s) = core s"
  "core (set_campaign_censured_count cid n s) = core s" "core (set_campaign_token cid a s) = core s"
  "core (set_creator_title_index a h n s) = core s"
  "core (set_campaign_fee_recipient cid a s) = core s" "core (set_campaign_tags cid ts s) = core s"
  "core (set_tag_campaign_count h n s) = core s" "core (set_tag_campaigns_bucket h n xs s) = core s"
  by (simp_all add: core_def store_defs fun_eq_iff)

lemma core_unchanged_contribution [core_frame]:
  "core (set_top_contributor cid a s) = core s" "core (set_last_contribution_time cid n s) = core s"
  "core (set_personal_cap cid a i s) = core s" "core (remove_personal_cap cid a s) = core s"
  "core (set_campaign_block_contribution_count cid n m s) = core s"
  "core (set_total_raised_global i s) = core s"
  by (simp_all add: core_def store_defs fun_eq_iff)

lemma core_changed [core_frame]:
  "core (set_campaign cid c s) = (core s)\<lparr>k_camp := (get_campaign s)(cid \<mapsto> c)\<rparr>"
  "core (set_campaign_count n s) = (core s)\<lparr>k_count := n\<rparr>"
  "core (set_campaign_start_time cid t s) =
     (core s)\<lparr>k_start := (get_campaign_start_time s)(cid \<mapsto> t)\<rparr>"
  "core (set_contribution cid a x s) =
     (core s)\<lparr>k_contrib := (get_contribution s)(cid := (get_contribution s cid)(a := x))\<rparr>"
  "core (remove_contribution cid a s) =
     (core s)\<lparr>k_contrib := (get_contribution s)(cid := (get_contribution s cid)(a := 0))\<rparr>"
  "core (set_lifetime_contribution cid a x s) =
     (core s)\<lparr>k_life := (get_lifetime_contribution s)
                          (cid := (get_lifetime_contribution s cid)(a := x))\<rparr>"
  "core (set_contributor_count cid n s) =
     (core s)\<lparr>k_backers := (get_contributor_count s)(cid := n)\<rparr>"
  "core (set_active_campaign_count n s) = (core s)\<lparr>k_active := n\<rparr>"
  "core (set_verified_campaign_count n s) = (core s)\<lparr>k_verified := n\<rparr>"
  "core (set_cancelled_campaign_count n s) = (core s)\<lparr>k_cancelled := n\<rparr>"
  by (auto simp: core_def store_defs fun_eq_iff)

lemma core_decrements [core_frame]:
  "core (decrement_contributor_count cid s) =
     (core s)\<lparr>k_backers := (get_contributor_count s)(cid := get_contributor_count s cid - 1)\<rparr>"
  "core (decrement_active_campaign_count s) = (core s)\<lparr>k_active := get_active_campaign_count s - 1\<rparr>"
  "core (decrement_verified_campaign_count s) =
     (core s)\<lparr>k_verified := get_verified_campaign_count s - 1\<rparr>"
  by (simp_all add: decrement_contributor_count_def decrement_active_campaign_count_def
      decrement_verified_campaign_count_def Let_def core_changed fun_upd_idem core_fields [symmetric])

text \<open>Reading a field of the core back from the state it was computed from.\<close>

lemma core_reads [core_frame]:
  "get_campaign_count s = k_count (core s)" "get_campaign s = k_camp (core s)"
  "get_campaign_start_time s = k_start (core s)" "get_contribution s = k_contrib (core s)"
  "get_lifetime_contribution s = k_life (core s)" "get_contributor_count s = k_backers (core s)"
  "get_active_campaign_count s = k_active (core s)"
  "get_verified_campaign_count s = k_verified (core s)"
  "get_cancelled_campaign_count s = k_cancelled (core s)"
  by (simp_all add: core_fields)

section \<open>Moves\<close>

text \<open>A campaign as \<open>create_campaign\<close> writes it, with its start time.\<close>

definition fresh_campaign :: "u64 \<Rightarrow> campaign \<Rightarrow> bool" where
  "fresh_campaign start c \<longleftrightarrow>
     c_amount_raised c = 0 \<and> c_effective_amount_raised c = 0 \<and> c_is_active c \<and>
     \<not> c_funds_withdrawn c \<and> \<not> c_is_cancelled c \<and> \<not> c_is_verified c \<and>
     c_fee_override c = None \<and> \<not> c_deadline_extended c \<and> 0 < c_funding_goal c \<and>
     c_first_creator c = c_creator c \<and> c_pending_creator c = NoPending \<and>
     (\<exists>days. 1 \<le> days \<and> days \<le> 365 \<and> c_deadline c = start + days * 86400) \<and>
     (if c_has_revenue_sharing c
      then c_category c = EducationalStartup \<and> 0 < c_revenue_share_percentage c \<and>
           c_revenue_share_percentage c \<le> 5000
      else c_revenue_share_percentage c = 0) \<and>
     0 \<le> c_max_contribution_per_user c"

text \<open>What an edit may change: texts, pending creator, fee override, and the deadline once.\<close>

definition edited :: "u64 \<Rightarrow> u64 option \<Rightarrow> campaign \<Rightarrow> campaign \<Rightarrow> bool" where
  "edited now start c c' \<longleftrightarrow>
     c_id c' = c_id c \<and> c_first_creator c' = c_first_creator c \<and> c_creator c' = c_creator c \<and>
     (c_pending_creator c' = c_pending_creator c \<or> c_pending_creator c' = NoPending \<or>
      (\<exists>a. a \<noteq> c_creator c \<and> c_pending_creator c' = Pending a)) \<and>
     c_funding_goal c' = c_funding_goal c \<and> c_amount_raised c' = c_amount_raised c \<and>
     c_effective_amount_raised c' = c_effective_amount_raised c \<and>
     c_is_active c' = c_is_active c \<and> c_funds_withdrawn c' = c_funds_withdrawn c \<and>
     c_is_cancelled c' = c_is_cancelled c \<and> c_is_verified c' = c_is_verified c \<and>
     c_category c' = c_category c \<and> c_has_revenue_sharing c' = c_has_revenue_sharing c \<and>
     c_revenue_share_percentage c' = c_revenue_share_percentage c \<and>
     c_max_contribution_per_user c' = c_max_contribution_per_user c \<and>
     (c_fee_override c' = c_fee_override c \<or> (\<exists>fee. c_fee_override c' = Some fee \<and> fee \<le> 1000)) \<and>
     (c_deadline c' = c_deadline c \<and> c_deadline_extended c' = c_deadline_extended c \<or>
      now < c_deadline c \<and> \<not> c_deadline_extended c \<and> c_deadline_extended c' \<and>
      (\<exists>days st. 1 \<le> days \<and> days \<le> 30 \<and> c_deadline c' = c_deadline c + days * 86400 \<and>
         start = Some st \<and> (c_deadline c' - st) div 86400 \<le> 365))"

definition refundable :: "u64 \<Rightarrow> campaign \<Rightarrow> bool" where
  "refundable now c \<longleftrightarrow>
     c_is_cancelled c \<or> (c_deadline c < now \<and> c_amount_raised c < c_funding_goal c)"

text \<open>The moves themselves, on the campaign \<open>c\<close> stored under \<open>cid\<close>.\<close>

definition put :: "u32 \<Rightarrow> campaign \<Rightarrow> core \<Rightarrow> core" where
  "put cid c k = k\<lparr>k_camp := (k_camp k)(cid \<mapsto> c)\<rparr>"

definition k_create :: "u64 \<Rightarrow> campaign \<Rightarrow> core \<Rightarrow> core" where
  "k_create now c k =
     k\<lparr>k_count := k_count k + 1, k_camp := (k_camp k)(k_count k + 1 \<mapsto> c),
       k_start := (k_start k)(k_count k + 1 \<mapsto> now), k_active := k_active k + 1\<rparr>"

definition k_contribute :: "u32 \<Rightarrow> campaign \<Rightarrow> address \<Rightarrow> i128 \<Rightarrow> core \<Rightarrow> core" where
  "k_contribute cid c who amt k =
     k\<lparr>k_camp := (k_camp k)(cid \<mapsto> c\<lparr>c_amount_raised := c_amount_raised c + amt,
         c_effective_amount_raised := c_effective_amount_raised c + amt\<rparr>),
       k_contrib := (k_contrib k)(cid := (k_contrib k cid)(who := k_contrib k cid who + amt)),
       k_life := (k_life k)(cid := (k_life k cid)(who := k_life k cid who + amt)),
       k_backers := (k_backers k)
         (cid := (if k_life k cid who = 0 then k_backers k cid + 1 else k_backers k cid))\<rparr>"

definition k_refund :: "u32 \<Rightarrow> campaign \<Rightarrow> address \<Rightarrow> core \<Rightarrow> core" where
  "k_refund cid c who k =
     k\<lparr>k_camp := (k_camp k)(cid \<mapsto>
         c\<lparr>c_effective_amount_raised := c_effective_amount_raised c - k_contrib k cid who\<rparr>),
       k_contrib := (k_contrib k)(cid := (k_contrib k cid)(who := 0)),
       k_backers := (k_backers k)(cid := k_backers k cid - 1)\<rparr>"

definition k_cancel :: "u32 \<Rightarrow> campaign \<Rightarrow> core \<Rightarrow> core" where
  "k_cancel cid c k =
     k\<lparr>k_camp := (k_camp k)(cid \<mapsto> c\<lparr>c_is_cancelled := True, c_is_active := False\<rparr>),
       k_active := k_active k - 1, k_cancelled := k_cancelled k + 1\<rparr>"

definition k_verify :: "u32 \<Rightarrow> campaign \<Rightarrow> core \<Rightarrow> core" where
  "k_verify cid c k =
     k\<lparr>k_camp := (k_camp k)(cid \<mapsto> c\<lparr>c_is_verified := True\<rparr>),
       k_verified := k_verified k + 1\<rparr>"

definition k_revoke :: "u32 \<Rightarrow> campaign \<Rightarrow> string \<Rightarrow> core \<Rightarrow> core" where
  "k_revoke cid c d k =
     k\<lparr>k_camp := (k_camp k)(cid \<mapsto> c\<lparr>c_description := d, c_is_verified := False\<rparr>),
       k_verified := k_verified k - 1\<rparr>"

definition k_withdraw :: "u32 \<Rightarrow> campaign \<Rightarrow> core \<Rightarrow> core" where
  "k_withdraw cid c k =
     k\<lparr>k_camp := (k_camp k)(cid \<mapsto> c\<lparr>c_funds_withdrawn := True, c_is_active := False\<rparr>),
       k_active := k_active k - 1\<rparr>"

lemmas move_defs =
  put_def k_create_def k_contribute_def k_refund_def k_cancel_def k_verify_def k_revoke_def
  k_withdraw_def

text \<open>When a contribution is admissible.\<close>

definition open_for :: "u64 \<Rightarrow> core \<Rightarrow> u32 \<Rightarrow> campaign \<Rightarrow> address \<Rightarrow> i128 \<Rightarrow> bool" where
  "open_for now k cid c who amt \<longleftrightarrow>
     c_is_verified c \<and> c_is_active c \<and> \<not> c_is_cancelled c \<and> now \<le> c_deadline c \<and>
     0 < amt \<and> c_amount_raised c + amt \<le> i128_max \<and> who \<noteq> c_creator c \<and>
     (c_max_contribution_per_user c \<le> 0 \<or>
      k_life k cid who + amt \<le> c_max_contribution_per_user c)"

inductive core_step :: "u64 \<Rightarrow> core \<Rightarrow> core \<Rightarrow> bool" for now where
  created:
    "c_id c = k_count k + 1 \<Longrightarrow> fresh_campaign now c \<Longrightarrow> core_step now k (k_create now c k)"
| contributed:
    "k_camp k cid = Some c \<Longrightarrow> open_for now k cid c who amt \<Longrightarrow>
     core_step now k (k_contribute cid c who amt k)"
| refunded:
    "k_camp k cid = Some c \<Longrightarrow> refundable now c \<Longrightarrow> k_contrib k cid who \<noteq> 0 \<Longrightarrow>
     core_step now k (k_refund cid c who k)"
| cancelled:
    "k_camp k cid = Some c \<Longrightarrow> c_is_active c \<Longrightarrow> \<not> c_is_cancelled c \<Longrightarrow> \<not> c_funds_withdrawn c \<Longrightarrow>
     core_step now k (k_cancel cid c k)"
| verified:
    "k_camp k cid = Some c \<Longrightarrow> c_is_active c \<Longrightarrow> \<not> c_is_cancelled c \<Longrightarrow> \<not> c_is_verified c \<Longrightarrow>
     core_step now k (k_verify cid c k)"
| revoked:
    "k_camp k cid = Some c \<Longrightarrow> c_is_active c \<Longrightarrow> \<not> c_is_cancelled c \<Longrightarrow> c_is_verified c \<Longrightarrow>
     core_step now k (k_revoke cid c d k)"
| withdrawn:
    "k_camp k cid = Some c \<Longrightarrow> c_is_verified c \<Longrightarrow> \<not> c_is_cancelled c \<Longrightarrow> \<not> c_funds_withdrawn c \<Longrightarrow>
     c_amount_raised c \<noteq> 0 \<Longrightarrow> c_funding_goal c \<le> c_amount_raised c \<Longrightarrow>
     core_step now k (k_withdraw cid c k)"
| edit:
    "k_camp k cid = Some c \<Longrightarrow> edited now (k_start k cid) c c' \<Longrightarrow> core_step now k (put cid c' k)"

text \<open>The creator of a campaign changes in one way: the pending creator takes over.\<close>

inductive hand_over :: "u32 \<Rightarrow> core \<Rightarrow> core \<Rightarrow> bool" for cid where
  handed_over:
    "k_camp k cid = Some c \<Longrightarrow> c_is_active c \<Longrightarrow> \<not> c_is_cancelled c \<Longrightarrow>
     c_pending_creator c = Pending a \<Longrightarrow> a \<noteq> c_creator c \<Longrightarrow>
     hand_over cid k (put cid (c\<lparr>c_creator := a, c_pending_creator := NoPending\<rparr>) k)"

abbreviation core_steps :: "u64 \<Rightarrow> core \<Rightarrow> core \<Rightarrow> bool" where
  "core_steps now \<equiv> (core_step now)\<^sup>*\<^sup>*"

section \<open>The invariant\<close>

definition tally :: "('c \<Rightarrow> bool) \<Rightarrow> (u32 \<Rightarrow> 'c option) \<Rightarrow> nat" where
  "tally P m = card {cid. \<exists>c. m cid = Some c \<and> P c}"

lemma tally_upd:
  assumes "finite (dom m)"
  shows "tally P (m(cid \<mapsto> c')) =
         tally P m - (case m cid of Some c \<Rightarrow> if P c then 1 else 0 | None \<Rightarrow> 0) + (if P c' then 1 else 0)"
proof -
  let ?S = "{i. \<exists>c. m i = Some c \<and> P c}"
  have fin: "finite ?S" by (rule finite_subset [OF _ assms]) auto
  have "{i. \<exists>c. (m(cid \<mapsto> c')) i = Some c \<and> P c} = (if P c' then insert cid (?S - {cid}) else ?S - {cid})"
    by auto
  then have "tally P (m(cid \<mapsto> c')) = card (?S - {cid}) + (if P c' then 1 else 0)"
    using fin by (simp add: tally_def card_insert_disjoint del: insert_Diff_single)
  moreover have "card (?S - {cid}) = card ?S - (if cid \<in> ?S then 1 else 0)"
    by (auto simp: card_Diff_singleton_if)
  moreover have "cid \<in> ?S \<longleftrightarrow> (case m cid of Some c \<Rightarrow> P c | None \<Rightarrow> False)"
    by (auto split: option.splits)
  ultimately show ?thesis by (auto simp: tally_def split: option.splits)
qed

lemma tally_pos:
  assumes "finite (dom m)" "m cid = Some c" "P c"
  shows "0 < tally P m"
proof -
  have "finite {i. \<exists>c. m i = Some c \<and> P c}" by (rule finite_subset [OF _ assms(1)]) auto
  then show ?thesis using assms(2, 3) by (auto simp: tally_def card_gt_0_iff)
qed

text \<open>
  Everything a single campaign's entries satisfy: \<open>ct\<close>, \<open>lf\<close> are the current and
  lifetime contributions of each address, \<open>bk\<close> the stored contributor count.
\<close>

definition flags_ok :: "campaign \<Rightarrow> bool" where
  "flags_ok c \<longleftrightarrow>
     (c_is_active c \<longleftrightarrow> \<not> c_is_cancelled c \<and> \<not> c_funds_withdrawn c) \<and>
     \<not> (c_is_cancelled c \<and> c_funds_withdrawn c) \<and>
     (c_funds_withdrawn c \<longrightarrow> c_is_verified c \<and> 0 < c_amount_raised c \<and>
        c_funding_goal c \<le> c_amount_raised c)"

definition terms_ok :: "u64 option \<Rightarrow> campaign \<Rightarrow> bool" where
  "terms_ok start c \<longleftrightarrow>
     0 < c_funding_goal c \<and> 0 \<le> c_max_contribution_per_user c \<and>
     (if c_has_revenue_sharing c
      then c_category c = EducationalStartup \<and> 0 < c_revenue_share_percentage c \<and>
           c_revenue_share_percentage c \<le> 5000
      else c_revenue_share_percentage c = 0) \<and>
     (\<forall>fee. c_fee_override c = Some fee \<longrightarrow> fee \<le> 1000) \<and>
     (\<exists>st days. start = Some st \<and> c_deadline c = st + days * 86400 \<and> 1 \<le> days \<and> days \<le> 365)"

definition books_ok ::
  "u64 \<Rightarrow> campaign \<Rightarrow> (address \<Rightarrow> i128) \<Rightarrow> (address \<Rightarrow> i128) \<Rightarrow> u32 \<Rightarrow> bool" where
  "books_ok now c ct lf bk \<longleftrightarrow>
     finite {a. lf a \<noteq> 0} \<and>
     (\<forall>a. 0 \<le> lf a \<and> (ct a = lf a \<or> ct a = 0 \<and> refundable now c)) \<and>
     (\<forall>a. 0 < c_max_contribution_per_user c \<longrightarrow> lf a \<le> c_max_contribution_per_user c) \<and>
     support_sum lf = c_amount_raised c \<and> c_amount_raised c \<le> i128_max \<and>
     support_sum ct = c_effective_amount_raised c \<and>
     bk = card {a. ct a \<noteq> 0}"

definition core_inv :: "u64 \<Rightarrow> core \<Rightarrow> bool" where
  "core_inv now k \<longleftrightarrow>
     (\<forall>cid. k_camp k cid \<noteq> None \<longleftrightarrow> 1 \<le> cid \<and> cid \<le> k_count k) \<and>
     (\<forall>cid c. k_camp k cid = Some c \<longrightarrow>
        c_id c = cid \<and> flags_ok c \<and> terms_ok (k_start k cid) c \<and>
        books_ok now c (k_contrib k cid) (k_life k cid) (k_backers k cid)) \<and>
     (\<forall>cid a. k_camp k cid = None \<longrightarrow>
        k_contrib k cid a = 0 \<and> k_life k cid a = 0 \<and> k_backers k cid = 0) \<and>
     k_active k = tally c_is_active (k_camp k) \<and>
     k_verified k = tally c_is_verified (k_camp k) \<and>
     k_cancelled k = tally c_is_cancelled (k_camp k)"

section \<open>The moves keep the invariant\<close>

text \<open>Every move but creation replaces the entries of one campaign.\<close>

definition replace ::
  "u32 \<Rightarrow> campaign \<Rightarrow> campaign \<Rightarrow> (address \<Rightarrow> i128) \<Rightarrow> (address \<Rightarrow> i128) \<Rightarrow> u32 \<Rightarrow> core \<Rightarrow> core" where
  "replace cid c c' ct lf bk k =
     k\<lparr>k_camp := (k_camp k)(cid \<mapsto> c'), k_contrib := (k_contrib k)(cid := ct),
       k_life := (k_life k)(cid := lf), k_backers := (k_backers k)(cid := bk),
       k_active := k_active k - of_bool (c_is_active c) + of_bool (c_is_active c'),
       k_verified := k_verified k - of_bool (c_is_verified c) + of_bool (c_is_verified c'),
       k_cancelled := k_cancelled k - of_bool (c_is_cancelled c) + of_bool (c_is_cancelled c')\<rparr>"

lemma core_invD:
  assumes "core_inv now k" "k_camp k cid = Some c"
  shows "c_id c = cid" "flags_ok c" "terms_ok (k_start k cid) c"
    "books_ok now c (k_contrib k cid) (k_life k cid) (k_backers k cid)"
    "1 \<le> cid" "cid \<le> k_count k"
  using assms unfolding core_inv_def by blast+

lemma core_inv_dom: "core_inv now k \<Longrightarrow> dom (k_camp k) = {1..k_count k}"
  by (auto simp: core_inv_def dom_def)

lemma core_inv_next: "core_inv now k \<Longrightarrow> k_camp k (k_count k + 1) = None"
  using core_inv_dom [of now k] by (metis atLeastAtMost_iff domIff not_add_less1 not_le less_add_one Suc_eq_plus1)

lemma core_inv_replace:
  assumes inv: "core_inv now k" and camp: "k_camp k cid = Some c"
    and new: "c_id c' = cid" "flags_ok c'" "terms_ok (k_start k cid) c'" "books_ok now c' ct lf bk"
  shows "core_inv now (replace cid c c' ct lf bk k)"
proof -
  have fin: "finite (dom (k_camp k))" using core_inv_dom [OF inv] by simp
  have tallies: "k_active k = tally c_is_active (k_camp k)"
    "k_verified k = tally c_is_verified (k_camp k)" "k_cancelled k = tally c_is_cancelled (k_camp k)"
    using inv by (simp_all add: core_inv_def)
  have rng: "1 \<le> cid" "cid \<le> k_count k" using core_invD [OF inv camp] by simp_all
  show ?thesis
    unfolding core_inv_def
  proof (intro conjI)
    show "\<forall>i. k_camp (replace cid c c' ct lf bk k) i \<noteq> None \<longleftrightarrow>
            1 \<le> i \<and> i \<le> k_count (replace cid c c' ct lf bk k)"
      using inv rng by (auto simp: replace_def core_inv_def)
    show "\<forall>i d. k_camp (replace cid c c' ct lf bk k) i = Some d \<longrightarrow>
            c_id d = i \<and> flags_ok d \<and> terms_ok (k_start (replace cid c c' ct lf bk k) i) d \<and>
            books_ok now d (k_contrib (replace cid c c' ct lf bk k) i)
              (k_life (replace cid c c' ct lf bk k) i) (k_backers (replace cid c c' ct lf bk k) i)"
      using inv new by (auto simp: replace_def core_inv_def)
    show "\<forall>i a. k_camp (replace cid c c' ct lf bk k) i = None \<longrightarrow>
            k_contrib (replace cid c c' ct lf bk k) i a = 0 \<and>
            k_life (replace cid c c' ct lf bk k) i a = 0 \<and> k_backers (replace cid c c' ct lf bk k) i = 0"
      using inv by (auto simp: replace_def core_inv_def)
  qed (simp_all add: replace_def tallies tally_upd [OF fin] camp)
qed

lemma books_ok_cong:
  assumes "books_ok now c ct lf bk" "refundable now c \<Longrightarrow> refundable now' c'"
    "c_amount_raised c' = c_amount_raised c"
    "c_effective_amount_raised c' = c_effective_amount_raised c"
    "c_max_contribution_per_user c' = c_max_contribution_per_user c"
  shows "books_ok now' c' ct lf bk"
  using assms unfolding books_ok_def by auto

lemma books_okD:
  assumes "books_ok now c ct lf bk"
  shows "finite {a. lf a \<noteq> 0}" "0 \<le> lf a" "0 \<le> ct a" "ct a \<le> lf a" "finite {a. ct a \<noteq> 0}"
    "support_sum lf = c_amount_raised c" "support_sum ct = c_effective_amount_raised c"
    "c_amount_raised c \<le> i128_max"
proof -
  show "finite {a. lf a \<noteq> 0}" "0 \<le> lf a" "support_sum lf = c_amount_raised c"
    "support_sum ct = c_effective_amount_raised c" "c_amount_raised c \<le> i128_max"
    using assms by (simp_all add: books_ok_def)
  have cases: "ct a = lf a \<or> ct a = 0" for a using assms by (auto simp: books_ok_def)
  show "0 \<le> ct a" "ct a \<le> lf a"
    using cases [of a] \<open>0 \<le> lf a\<close> by auto
  show "finite {a. ct a \<noteq> 0}"
    by (rule finite_subset [OF _ \<open>finite {a. lf a \<noteq> 0}\<close>], rule Collect_mono, metis cases)
qed

lemma books_ok_bounds:
  assumes ok: "books_ok now c ct lf bk"
  shows "0 \<le> c_effective_amount_raised c" "c_effective_amount_raised c \<le> c_amount_raised c"
    "c_amount_raised c \<le> i128_max" "lf a \<le> c_amount_raised c" "ct a \<le> c_effective_amount_raised c"
proof -
  note facts = books_okD [OF ok]
  have "support_sum ct \<le> support_sum lf" by (rule support_sum_mono) (use facts in auto)
  moreover have "0 \<le> support_sum ct" using facts(3) by (rule support_sum_nonneg)
  ultimately show "0 \<le> c_effective_amount_raised c" "c_effective_amount_raised c \<le> c_amount_raised c"
    "c_amount_raised c \<le> i128_max" using facts(6-8) by simp_all
  have "lf a \<le> support_sum lf" by (rule le_support_sum) (use facts in auto)
  moreover have "ct a \<le> support_sum ct" by (rule le_support_sum) (use facts in auto)
  ultimately show "lf a \<le> c_amount_raised c" "ct a \<le> c_effective_amount_raised c"
    using facts(6, 7) by simp_all
qed

lemma books_ok_not_refundable:
  assumes "books_ok now c ct lf bk" "\<not> refundable now c"
  shows "ct = lf"
  using assms by (auto simp: books_ok_def)

lemma books_ok_contribute:
  assumes ok: "books_ok now c ct lf bk" and "\<not> c_is_cancelled c" "now \<le> c_deadline c" "0 < amt"
    and room: "c_amount_raised c + amt \<le> i128_max"
    and cap: "c_max_contribution_per_user c \<le> 0 \<or> lf who + amt \<le> c_max_contribution_per_user c"
  shows "books_ok now (c\<lparr>c_amount_raised := c_amount_raised c + amt,
             c_effective_amount_raised := c_effective_amount_raised c + amt\<rparr>)
           (ct(who := ct who + amt)) (lf(who := lf who + amt)) (if lf who = 0 then bk + 1 else bk)"
proof -
  have eq: "ct = lf" using books_ok_not_refundable [OF ok] assms(2, 3) by (simp add: refundable_def)
  have nonneg: "0 \<le> lf a" for a using books_okD(2) [OF ok] .
  have fin: "finite {a. lf a \<noteq> 0}" using books_okD(1) [OF ok] .
  have card: "card {a. (lf(who := lf who + amt)) a \<noteq> 0} = (if lf who = 0 then bk + 1 else bk)"
  proof -
    have "{a. (lf(who := lf who + amt)) a \<noteq> 0} = insert who {a. lf a \<noteq> 0}"
      using nonneg [of who] assms(4) by auto
    then show ?thesis using ok fin eq by (auto simp: books_ok_def card_insert_if)
  qed
  show ?thesis
    using ok eq assms(4) room cap nonneg [of who] finite_support_upd [OF fin, of who "lf who + amt"] card
    by (auto simp: books_ok_def support_sum_upd [OF fin])
qed

lemma books_ok_refund:
  assumes ok: "books_ok now c ct lf bk" and ref: "refundable now c" and nz: "ct who \<noteq> 0"
  shows "books_ok now (c\<lparr>c_effective_amount_raised := c_effective_amount_raised c - ct who\<rparr>)
           (ct(who := 0)) lf (bk - 1)"
proof -
  have fin: "finite {a. ct a \<noteq> 0}" using books_okD(5) [OF ok] .
  have "{a. (ct(who := 0)) a \<noteq> 0} = {a. ct a \<noteq> 0} - {who}" by auto
  then have "card {a. (ct(who := 0)) a \<noteq> 0} = bk - 1"
    using ok nz fin by (simp add: books_ok_def)
  then show ?thesis
    using ok ref by (auto simp: books_ok_def support_sum_upd [OF fin] refundable_def)
qed

lemma refundable_mono: "refundable now c \<Longrightarrow> now \<le> now' \<Longrightarrow> refundable now' c"
  by (auto simp: refundable_def)

text \<open>The invariant survives the passing of time.\<close>

lemma core_inv_later:
  assumes "core_inv now k" "now \<le> now'"
  shows "core_inv now' k"
  unfolding core_inv_def
proof (intro conjI allI impI)
  fix cid c assume "k_camp k cid = Some c"
  note facts = core_invD [OF assms(1) this]
  show "c_id c = cid" "flags_ok c" "terms_ok (k_start k cid) c" using facts by simp_all
  show "books_ok now' c (k_contrib k cid) (k_life k cid) (k_backers k cid)"
    by (rule books_ok_cong [OF facts(4)]) (use assms(2) in \<open>auto intro: refundable_mono\<close>)
qed (use assms(1) in \<open>auto simp: core_inv_def\<close>)

text \<open>A move that leaves the books of its campaign alone.\<close>

lemma core_inv_relabel:
  assumes inv: "core_inv now k" and camp: "k_camp k cid = Some c"
    and new: "c_id c' = c_id c" "flags_ok c \<Longrightarrow> flags_ok c'"
      "terms_ok (k_start k cid) c \<Longrightarrow> terms_ok (k_start k cid) c'"
      "refundable now c \<Longrightarrow> refundable now c'" "c_amount_raised c' = c_amount_raised c"
      "c_effective_amount_raised c' = c_effective_amount_raised c"
      "c_max_contribution_per_user c' = c_max_contribution_per_user c"
  shows "core_inv now (replace cid c c' (k_contrib k cid) (k_life k cid) (k_backers k cid) k)"
proof (rule core_inv_replace [OF inv camp])
  note facts = core_invD [OF inv camp]
  show "c_id c' = cid" "flags_ok c'" "terms_ok (k_start k cid) c'" using new facts by simp_all
  show "books_ok now c' (k_contrib k cid) (k_life k cid) (k_backers k cid)"
    by (rule books_ok_cong [OF facts(4)]) (use new in simp_all)
qed

lemma terms_ok_fresh: "fresh_campaign now c \<Longrightarrow> terms_ok (Some now) c"
  by (auto simp: fresh_campaign_def terms_ok_def)

lemma terms_ok_edited:
  assumes ok: "terms_ok start c" and ed: "edited now start c c'"
  shows "terms_ok start c'"
proof -
  obtain st m where old: "start = Some st" "c_deadline c = st + m * 86400" "1 \<le> m" "m \<le> 365"
    using ok unfolding terms_ok_def by blast
  have "\<exists>days. c_deadline c' = st + days * 86400 \<and> 1 \<le> days \<and> days \<le> 365"
  proof (cases "c_deadline c' = c_deadline c")
    case True
    with old show ?thesis by metis
  next
    case False
    with ed obtain n st' where ext: "c_deadline c' = c_deadline c + n * 86400"
      "start = Some st'" "(c_deadline c' - st') div 86400 \<le> 365"
      unfolding edited_def by blast
    from old(1) ext(2) have "st' = st" by simp
    have dl: "c_deadline c' = st + (m + n) * 86400"
      unfolding ext(1) old(2) by (simp only: add_mult_distrib add.assoc)
    have "m + n = (m + n) * 86400 div 86400" by (rule nonzero_mult_div_cancel_right [symmetric]) simp
    also have "\<dots> = (c_deadline c' - st) div 86400" unfolding dl by (simp only: diff_add_inverse)
    also have "\<dots> \<le> 365" using ext(3) \<open>st' = st\<close> by (simp only:)
    finally show ?thesis using dl old(3) by (intro exI [of _ "m + n"] conjI) linarith+
  qed
  moreover have "\<forall>fee. c_fee_override c' = Some fee \<longrightarrow> fee \<le> 1000"
    using ok ed unfolding terms_ok_def edited_def by (metis option.inject)
  moreover have "0 < c_funding_goal c'" "0 \<le> c_max_contribution_per_user c'"
    "if c_has_revenue_sharing c'
     then c_category c' = EducationalStartup \<and> 0 < c_revenue_share_percentage c' \<and>
          c_revenue_share_percentage c' \<le> 5000
     else c_revenue_share_percentage c' = 0"
    using ok ed unfolding terms_ok_def edited_def by metis+
  ultimately show ?thesis unfolding terms_ok_def using old(1) by blast
qed

lemma core_inv_create:
  assumes inv: "core_inv now k" and new: "c_id c = k_count k + 1" "fresh_campaign now c"
  shows "core_inv now (k_create now c k)"
proof -
  let ?n = "k_count k + 1"
  have fin: "finite (dom (k_camp k))" using core_inv_dom [OF inv] by simp
  have "k_camp k ?n \<noteq> None \<longleftrightarrow> 1 \<le> ?n \<and> ?n \<le> k_count k"
    using inv unfolding core_inv_def by blast
  then have none: "k_camp k ?n = None" by simp
  have zero: "k_contrib k ?n = (\<lambda>_. 0)" "k_life k ?n = (\<lambda>_. 0)" "k_backers k ?n = 0"
    using inv none by (auto simp: core_inv_def)
  have "books_ok now c (k_contrib k ?n) (k_life k ?n) (k_backers k ?n)"
    unfolding zero using new(2) by (simp add: books_ok_def fresh_campaign_def i128_max_def)
  moreover have "flags_ok c" using new(2) by (simp add: flags_ok_def fresh_campaign_def)
  ultimately have fresh: "flags_ok c" "books_ok now c (k_contrib k ?n) (k_life k ?n) (k_backers k ?n)"
    by simp_all
  have init: "c_is_active c" "\<not> c_is_verified c" "\<not> c_is_cancelled c"
    using new(2) by (simp_all add: fresh_campaign_def)
  show ?thesis
    unfolding core_inv_def
  proof (intro conjI)
    show "\<forall>cid. k_camp (k_create now c k) cid \<noteq> None \<longleftrightarrow>
            1 \<le> cid \<and> cid \<le> k_count (k_create now c k)"
      using core_inv_dom [OF inv] by (auto simp: k_create_def dom_def set_eq_iff)
    show "\<forall>cid d. k_camp (k_create now c k) cid = Some d \<longrightarrow>
            c_id d = cid \<and> flags_ok d \<and> terms_ok (k_start (k_create now c k) cid) d \<and>
            books_ok now d (k_contrib (k_create now c k) cid) (k_life (k_create now c k) cid)
              (k_backers (k_create now c k) cid)"
      using core_invD [OF inv] fresh new(1) terms_ok_fresh [OF new(2)]
      by (simp add: k_create_def)
    show "\<forall>cid a. k_camp (k_create now c k) cid = None \<longrightarrow>
            k_contrib (k_create now c k) cid a = 0 \<and> k_life (k_create now c k) cid a = 0 \<and>
            k_backers (k_create now c k) cid = 0"
      using inv by (simp add: k_create_def core_inv_def)
  qed (use inv none init in \<open>simp_all add: k_create_def core_inv_def tally_upd [OF fin]\<close>)
qed

lemma replace_tally_pos:
  assumes "core_inv now k" "k_camp k cid = Some c"
  shows "c_is_active c \<Longrightarrow> 0 < k_active k" "c_is_verified c \<Longrightarrow> 0 < k_verified k"
    "c_is_cancelled c \<Longrightarrow> 0 < k_cancelled k"
  using assms(1) tally_pos [where m = "k_camp k" and cid = cid and c = c, OF _ assms(2)]
    core_inv_dom [OF assms(1)]
  by (auto simp: core_inv_def)

text \<open>Each move as a replacement.\<close>

lemma moves_replace:
  assumes inv: "core_inv now k" and camp: "k_camp k cid = Some c"
  shows
    "k_contribute cid c who amt k =
       replace cid c (c\<lparr>c_amount_raised := c_amount_raised c + amt,
                        c_effective_amount_raised := c_effective_amount_raised c + amt\<rparr>)
         ((k_contrib k cid)(who := k_contrib k cid who + amt))
         ((k_life k cid)(who := k_life k cid who + amt))
         (if k_life k cid who = 0 then k_backers k cid + 1 else k_backers k cid) k"
    "k_refund cid c who k =
       replace cid c (c\<lparr>c_effective_amount_raised := c_effective_amount_raised c - k_contrib k cid who\<rparr>)
         ((k_contrib k cid)(who := 0)) (k_life k cid) (k_backers k cid - 1) k"
    "c_is_active c \<Longrightarrow> \<not> c_is_cancelled c \<Longrightarrow>
     k_cancel cid c k = replace cid c (c\<lparr>c_is_cancelled := True, c_is_active := False\<rparr>)
       (k_contrib k cid) (k_life k cid) (k_backers k cid) k"
    "\<not> c_is_verified c \<Longrightarrow> k_verify cid c k = replace cid c (c\<lparr>c_is_verified := True\<rparr>)
       (k_contrib k cid) (k_life k cid) (k_backers k cid) k"
    "c_is_verified c \<Longrightarrow>
     k_revoke cid c d k = replace cid c (c\<lparr>c_description := d, c_is_verified := False\<rparr>)
       (k_contrib k cid) (k_life k cid) (k_backers k cid) k"
    "c_is_active c \<Longrightarrow>
     k_withdraw cid c k = replace cid c (c\<lparr>c_funds_withdrawn := True, c_is_active := False\<rparr>)
       (k_contrib k cid) (k_life k cid) (k_backers k cid) k"
    "edited now st c c' \<or> (\<exists>a. c' = c\<lparr>c_creator := a, c_pending_creator := NoPending\<rparr>) \<Longrightarrow>
     put cid c' k = replace cid c c' (k_contrib k cid) (k_life k cid) (k_backers k cid) k"
  using replace_tally_pos [OF inv camp]
  by (auto simp: move_defs replace_def edited_def intro!: core.equality)

theorem core_step_inv:
  assumes "core_step now k k'" "core_inv now k"
  shows "core_inv now k'"
  using assms(1)
proof cases
  case (created c)
  then show ?thesis using assms(2) by (simp add: core_inv_create)
next
  case (contributed cid c who amt)
  note facts = core_invD [OF assms(2) contributed(2)]
  from contributed(3) have op: "\<not> c_is_cancelled c" "now \<le> c_deadline c" "0 < amt"
    "c_amount_raised c + amt \<le> i128_max"
    "c_max_contribution_per_user c \<le> 0 \<or> k_life k cid who + amt \<le> c_max_contribution_per_user c"
    "c_is_active c"
    by (simp_all add: open_for_def)
  show ?thesis
    unfolding contributed(1) moves_replace(1) [OF assms(2) contributed(2)]
    by (rule core_inv_replace [OF assms(2) contributed(2)])
       (use facts op books_ok_contribute [OF facts(4) op(1-5)]
        in \<open>auto simp: flags_ok_def terms_ok_def\<close>)
next
  case (refunded cid c who)
  note facts = core_invD [OF assms(2) refunded(2)]
  show ?thesis
    unfolding refunded(1) moves_replace(2) [OF assms(2) refunded(2)]
    by (rule core_inv_replace [OF assms(2) refunded(2)])
       (use facts books_ok_refund [OF facts(4) refunded(3, 4)]
        in \<open>auto simp: flags_ok_def terms_ok_def\<close>)
next
  case (cancelled cid c)
  show ?thesis
    unfolding cancelled(1) moves_replace(3) [OF assms(2) cancelled(2, 3, 4)]
    by (rule core_inv_relabel [OF assms(2) cancelled(2)])
       (use cancelled(3-5) in \<open>auto simp: flags_ok_def terms_ok_def refundable_def\<close>)
next
  case (verified cid c)
  show ?thesis
    unfolding verified(1) moves_replace(4) [OF assms(2) verified(2, 5)]
    by (rule core_inv_relabel [OF assms(2) verified(2)])
       (use verified(3-5) in \<open>auto simp: flags_ok_def terms_ok_def refundable_def\<close>)
next
  case (revoked cid c d)
  show ?thesis
    unfolding revoked(1) moves_replace(5) [OF assms(2) revoked(2, 5)]
    by (rule core_inv_relabel [OF assms(2) revoked(2)])
       (use revoked(3-5) in \<open>auto simp: flags_ok_def terms_ok_def refundable_def\<close>)
next
  case (withdrawn cid c)
  note facts = core_invD [OF assms(2) withdrawn(2)]
  have "c_is_active c" using facts(2) withdrawn(4, 5) by (simp add: flags_ok_def)
  have "0 \<le> c_amount_raised c"
    using books_okD [OF facts(4)] support_sum_nonneg [of "k_life k cid"] by metis
  then show ?thesis
    unfolding withdrawn(1) moves_replace(6) [OF assms(2) withdrawn(2) \<open>c_is_active c\<close>]
    by (intro core_inv_relabel [OF assms(2) withdrawn(2)])
       (use withdrawn(3-7) in \<open>auto simp: flags_ok_def terms_ok_def refundable_def\<close>)
next
  case (edit cid c c')
  note facts = core_invD [OF assms(2) edit(2)]
  have "refundable now c \<Longrightarrow> refundable now c'"
    using edit(3) by (auto simp: refundable_def edited_def)
  then show ?thesis
    unfolding edit(1) moves_replace(7) [OF assms(2) edit(2) disjI1, OF edit(3)]
    by (intro core_inv_relabel [OF assms(2) edit(2)] terms_ok_edited [OF _ edit(3)])
       (use edit(3) in \<open>simp_all add: flags_ok_def edited_def\<close>)
qed

lemma hand_over_inv:
  assumes "hand_over cid k k'" "core_inv now k"
  shows "core_inv now k'"
  using assms(1)
proof cases
  case (handed_over c a)
  show ?thesis
    unfolding handed_over(1) moves_replace(7) [OF assms(2) handed_over(2) disjI2, OF exI, OF refl]
    by (rule core_inv_relabel [OF assms(2) handed_over(2)])
       (auto simp: flags_ok_def terms_ok_def refundable_def)
qed

lemma core_steps_inv: "core_steps now k k' \<Longrightarrow> core_inv now k \<Longrightarrow> core_inv now k'"
  by (induction rule: rtranclp_induct) (auto intro: core_step_inv)

section \<open>Refinement helpers\<close>

lemma edited_sameI:
  "c_id c' = c_id c \<Longrightarrow> c_first_creator c' = c_first_creator c \<Longrightarrow> c_creator c' = c_creator c \<Longrightarrow>
   c_pending_creator c' = c_pending_creator c \<or> c_pending_creator c' = NoPending \<or>
     (\<exists>a. a \<noteq> c_creator c \<and> c_pending_creator c' = Pending a) \<Longrightarrow>
   c_funding_goal c' = c_funding_goal c \<Longrightarrow> c_amount_raised c' = c_amount_raised c \<Longrightarrow>
   c_effective_amount_raised c' = c_effective_amount_raised c \<Longrightarrow>
   c_is_active c' = c_is_active c \<Longrightarrow> c_funds_withdrawn c' = c_funds_withdrawn c \<Longrightarrow>
   c_is_cancelled c' = c_is_cancelled c \<Longrightarrow> c_is_verified c' = c_is_verified c \<Longrightarrow>
   c_category c' = c_category c \<Longrightarrow> c_has_revenue_sharing c' = c_has_revenue_sharing c \<Longrightarrow>
   c_revenue_share_percentage c' = c_revenue_share_percentage c \<Longrightarrow>
   c_max_contribution_per_user c' = c_max_contribution_per_user c \<Longrightarrow>
   c_fee_override c' = c_fee_override c \<or> (\<exists>fee. c_fee_override c' = Some fee \<and> fee \<le> 1000) \<Longrightarrow>
   c_deadline c' = c_deadline c \<Longrightarrow> c_deadline_extended c' = c_deadline_extended c \<Longrightarrow>
   edited now start c c'"
  by (simp add: edited_def)

lemma editI:
  assumes "get_campaign s cid = Some c" "edited now (get_campaign_start_time s cid) c c'"
    "core s' = put cid c' (core s)"
  shows "core_step now (core s) (core s')"
  unfolding assms(3) by (rule core_step.edit) (use assms in \<open>simp_all add: core_fields\<close>)

lemma fold_core: "(\<And>x t. core (f x t) = core t) \<Longrightarrow> core (fold f xs s) = core s"
  by (induction xs arbitrary: s) simp_all

lemma transfer_core: "transfer e tok frm to amt s = Inr s' \<Longrightarrow> core s' = core s"
  by (auto simp: res_simps core_frame)

section \<open>What the escrow operations do not touch\<close>

text \<open>
  A view \<open>obs\<close> of the state that none of the writes of the funding operations
  changes: the locale's lemmas, one group per component, say that no funding
  operation changes it either. \<open>catalogue_observer\<close> adds the writes of a transfer and those a
  creation makes about its own campaign, \<open>escrow_observer\<close> the rest of what a creation writes.
\<close>

locale fund_observer =
  fixes obs :: "'w state \<Rightarrow> 'a"
  assumes obs_host: "obs (publish tp v s) = obs s" "obs (s\<lparr>st_world := w\<rparr>) = obs s"
    and obs_campaign: "obs (set_campaign cid c s) = obs s"
      "obs (set_campaign_fee_recipient cid a s) = obs s"
      "obs (set_campaign_reserve cid r s) = obs s" "obs (set_campaign_milestones cid ms s) = obs s"
      "obs (set_milestone_claimed cid n s) = obs s"
    and obs_counters: "obs (set_active_campaign_count n s) = obs s"
      "obs (set_verified_campaign_count n s) = obs s" "obs (set_cancelled_campaign_count n s) = obs s"
      "obs (set_total_raised_global i s) = obs s"
    and obs_contribution: "obs (set_contribution cid a i s) = obs s"
      "obs (set_lifetime_contribution cid a i s) = obs s" "obs (remove_contribution cid a s) = obs s"
      "obs (set_contributor_count cid n s) = obs s" "obs (set_top_contributor cid a s) = obs s"
      "obs (set_last_contribution_time cid n s) = obs s" "obs (set_personal_cap cid a i s) = obs s"
      "obs (remove_personal_cap cid a s) = obs s"
      "obs (set_campaign_block_contribution_count cid n m s) = obs s"
    and obs_revenue: "obs (set_revenue_pool cid i s) = obs s" "obs (set_revenue_claimed cid a i s) = obs s"
      "obs (remove_revenue_claimed cid a s) = obs s" "obs (set_creator_revenue_claimed cid i s) = obs s"
      "obs (set_contributor_revenue_distributed cid i s) = obs s"
      "obs (set_contributor_revenue_claimants cid n s) = obs s"
begin

lemma obs_decrements:
  "obs (decrement_active_campaign_count s) = obs s"
  "obs (decrement_verified_campaign_count s) = obs s"
  "obs (decrement_contributor_count cid s) = obs s"
  by (simp_all add: decrement_active_campaign_count_def decrement_verified_campaign_count_def
      decrement_contributor_count_def obs_counters obs_contribution Let_def)

lemmas obs_simps =
  obs_host obs_campaign obs_counters obs_contribution obs_revenue obs_decrements

end

locale catalogue_observer = fund_observer +
  assumes obs_creator: "obs (set_creator_campaign_count a n s) = obs s"
      "obs (set_creator_campaign_bucket a n xs s) = obs s"
      "obs (set_creator_campaign_position a n m j s) = obs s"
      "obs (remove_creator_campaign_position a n s) = obs s"
      "obs (set_campaign_creator_index cid a s) = obs s" "obs (set_creator_title_index a h n s) = obs s"
      "obs (set_campaign_start_time cid t s) = obs s" "obs (set_campaign_vesting cid d p s) = obs s"
      "obs (set_campaign_token cid a s) = obs s"

locale escrow_observer = catalogue_observer +
  assumes obs_catalogue: "obs (set_campaign_count n s) = obs s"
    "obs (set_category_campaign_count cat n s) = obs s"
    "obs (set_category_campaign_bucket cat n xs s) = obs s"

end
