(* ===== verification/Purse.thy ===== *)
theory Purse
  imports Escrow
begin

text \<open>
  The token side of the state: the token contracts, the admin, the platform's running total, the
  currency of each campaign, its held reserve, its milestones and its fee recipient, and
  the books of its revenue pool. \<open>purse_frame\<close> says what each write does to them, so that
  what an operation pays and records is computed by rewriting.
\<close>

record 'w purse =
  p_world :: 'w
  p_admin :: "address option"
  p_total :: i128
  p_token :: "u32 \<Rightarrow> address option"
  p_reserve :: "u32 \<Rightarrow> campaign_reserve option"
  p_fee_to :: "u32 \<Rightarrow> address option"
  p_milestones :: "u32 \<Rightarrow> milestone list"
  p_milestone_paid :: "u32 \<Rightarrow> u32 \<Rightarrow> bool"
  p_pool :: "u32 \<Rightarrow> i128"
  p_claimed :: "u32 \<Rightarrow> address \<Rightarrow> i128"
  p_creator_claimed :: "u32 \<Rightarrow> i128"
  p_distributed :: "u32 \<Rightarrow> i128"
  p_claimants :: "u32 \<Rightarrow> u32"

definition purse :: "'w state \<Rightarrow> 'w purse" where
  "purse s =
    \<lparr>p_world = st_world s, p_admin = get_admin s, p_total = get_total_raised_global s,
     p_token = (\<lambda>cid. combine_options (\<lambda>t _. t) (ck_campaign_token (st_campaign s) cid) (get_token s)),
     p_reserve = get_campaign_reserve s, p_fee_to = get_campaign_fee_recipient s,
     p_milestones = get_campaign_milestones s, p_milestone_paid = is_milestone_claimed s,
     p_pool = get_revenue_pool s, p_claimed = get_revenue_claimed s,
     p_creator_claimed = get_creator_revenue_claimed s,
     p_distributed = get_contributor_revenue_distributed s,
     p_claimants = get_contributor_revenue_claimants s\<rparr>"

lemma purse_fields:
  "p_world (purse s) = st_world s" "p_admin (purse s) = get_admin s" "p_total (purse s) = get_total_raised_global s"
  "p_token (purse s) = get_campaign_token s" "p_reserve (purse s) = get_campaign_reserve s"
  "p_fee_to (purse s) = get_campaign_fee_recipient s"
  "p_milestones (purse s) = get_campaign_milestones s"
  "p_milestone_paid (purse s) = is_milestone_claimed s" "p_pool (purse s) = get_revenue_pool s"
  "p_claimed (purse s) = get_revenue_claimed s"
  "p_creator_claimed (purse s) = get_creator_revenue_claimed s"
  "p_distributed (purse s) = get_contributor_revenue_distributed s"
  "p_claimants (purse s) = get_contributor_revenue_claimants s"
  by (auto simp: purse_def get_campaign_token_def fun_eq_iff combine_options_def split: option.split)

text \<open>Reading through equal purses.\<close>

lemma purse_eqD:
  assumes "purse s' = purse s"
  shows "st_world s' = st_world s" "get_admin s' = get_admin s" "get_total_raised_global s' = get_total_raised_global s"
    "get_campaign_token s' = get_campaign_token s" "get_campaign_reserve s' = get_campaign_reserve s"
    "get_campaign_fee_recipient s' = get_campaign_fee_recipient s"
    "get_campaign_milestones s' = get_campaign_milestones s"
    "is_milestone_claimed s' = is_milestone_claimed s" "get_revenue_pool s' = get_revenue_pool s"
    "get_revenue_claimed s' = get_revenue_claimed s"
    "get_creator_revenue_claimed s' = get_creator_revenue_claimed s"
    "get_contributor_revenue_distributed s' = get_contributor_revenue_distributed s"
    "get_contributor_revenue_claimants s' = get_contributor_revenue_claimants s"
  using assms by (simp_all add: purse_fields [symmetric])

named_theorems purse_frame "effect of every write on the purse"

lemma purse_world [purse_frame]: "purse (s\<lparr>st_world := w\<rparr>) = (purse s)\<lparr>p_world := w\<rparr>"
  by (simp add: purse_def store_defs fun_eq_iff)

lemma purse_unchanged_1 [purse_frame]:
  "purse (publish topics0 vals0 s) = purse s" "purse (set_campaign cid1 c1 s) = purse s"
  "purse (set_campaign_start_time cid2 t2 s) = purse s"
  "purse (set_campaign_count x3 s) = purse s" "purse (set_paused x4 s) = purse s"
  "purse (set_auto_paused x5 s) = purse s" "purse (set_initialized s) = purse s"
  "purse (set_pending_admin x7 s) = purse s" "purse (remove_pending_admin s) = purse s"
  "purse (set_platform_fee x9 s) = purse s"
  "purse (set_max_contribution_per_transaction_value x10 s) = purse s"
  "purse (set_min_campaign_funding_goal x11 s) = purse s"
  "purse (set_max_campaign_funding_goal x12 s) = purse s"
  "purse (set_contribution cid13 a13 x13 s) = purse s"
  "purse (set_lifetime_contribution cid14 a14 x14 s) = purse s"
  "purse (remove_contribution cid15 a15 s) = purse s"
  by (simp_all add: purse_def store_defs fun_eq_iff)

lemma purse_unchanged_2 [purse_frame]:
  "purse (remove_lifetime_contribution cid0 a0 s) = purse s"
  "purse (set_contributor_count cid1 x1 s) = purse s"
  "purse (set_top_contributor cid2 x2 s) = purse s"
  "purse (set_last_contribution_time cid3 x3 s) = purse s"
  "purse (set_approve_votes cid4 x4 s) = purse s" "purse (set_reject_votes cid5 x5 s) = purse s"
  "purse (set_approve_weight cid6 x6 s) = purse s" "purse (set_reject_weight cid7 x7 s) = purse s"
  "purse (set_has_voted cid8 a8 s) = purse s" "purse (remove_has_voted cid9 a9 s) = purse s"
  "purse (remove_voting_state cid10 s) = purse s" "purse (set_min_votes_quorum x11 s) = purse s"
  "purse (set_approval_threshold_bps x12 s) = purse s"
  "purse (set_min_voting_balance x13 s) = purse s"
  "purse (set_category_voting_threshold_bps cat14 x14 s) = purse s"
  "purse (remove_category_voting_threshold_bps cat15 s) = purse s"
  by (simp_all add: purse_def store_defs fun_eq_iff)

lemma purse_unchanged_3 [purse_frame]:
  "purse (set_category_campaigns cat0 x0 s) = purse s"
  "purse (set_category_campaign_count cat1 x1 s) = purse s"
  "purse (set_category_campaign_bucket cat2 b2 x2 s) = purse s"
  "purse (set_version x3 s) = purse s" "purse (set_creator_campaign_count a4 x4 s) = purse s"
  "purse (set_creator_campaign_bucket a5 b5 x5 s) = purse s"
  "purse (set_creator_campaign_position a6 cid6 b6 i6 s) = purse s"
  "purse (remove_creator_campaign_position a7 cid7 s) = purse s"
  "purse (set_personal_cap cid8 a8 x8 s) = purse s"
  "purse (remove_personal_cap cid9 a9 s) = purse s"
  "purse (set_campaign_block_contribution_count cid10 sq10 n10 s) = purse s"
  "purse (set_withdraw_release_delay_days x11 s) = purse s"
  "purse (set_withdraw_reserve_percentage x12 s) = purse s"
  "purse (set_campaign_vesting cid13 days13 bps13 s) = purse s"
  "purse (remove_campaign_vesting cid14 s) = purse s"
  "purse (set_creation_disabled x15 s) = purse s"
  by (simp_all add: purse_def store_defs fun_eq_iff)

lemma purse_unchanged_4 [purse_frame]:
  "purse (set_category_duration_cap cat0 x0 s) = purse s"
  "purse (remove_category_duration_cap cat1 s) = purse s"
  "purse (set_pending_token x2 s) = purse s" "purse (remove_pending_token s) = purse s"
  "purse (set_pending_token_release x4 s) = purse s"
  "purse (set_token_update_delay_secs x5 s) = purse s"
  "purse (set_active_campaign_count x6 s) = purse s"
  "purse (set_verified_campaign_count x7 s) = purse s"
  "purse (set_cancelled_campaign_count x8 s) = purse s"
  "purse (set_saved_campaigns a9 ids9 s) = purse s"
  "purse (set_campaign_creator_index cid10 a10 s) = purse s"
  "purse (set_emergency_pause_signers x11 s) = purse s"
  "purse (set_comment_censure cid12 h12 r12 s) = purse s"
  "purse (remove_comment_censure cid13 h13 s) = purse s"
  "purse (set_campaign_censured_count cid14 x14 s) = purse s"
  "purse (set_token_allowed t15 allowed15 s) = purse s"
  by (simp_all add: purse_def store_defs fun_eq_iff)

lemma purse_unchanged_5 [purse_frame]:
  "purse (set_creator_title_index a0 h0 cid0 s) = purse s"
  "purse (remove_creator_title_index a1 h1 s) = purse s"
  "purse (set_campaign_tags cid2 tags2 s) = purse s"
  "purse (set_tag_campaign_count h3 x3 s) = purse s"
  "purse (set_tag_campaigns_bucket h4 b4 x4 s) = purse s"
  by (simp_all add: purse_def store_defs fun_eq_iff)

lemma purse_decrements [purse_frame]:
  "purse (decrement_active_campaign_count s) = purse s"
  "purse (decrement_verified_campaign_count s) = purse s"
  "purse (decrement_contributor_count cid s) = purse s"
  by (simp_all add: decrement_active_campaign_count_def decrement_verified_campaign_count_def
      decrement_contributor_count_def purse_frame Let_def)

lemma purse_increments:
  "increment_contributor_count cid s = Inr s' \<Longrightarrow> purse s' = purse s"
  "increment_active_campaign_count s = Inr s' \<Longrightarrow> purse s' = purse s"
  "increment_verified_campaign_count s = Inr s' \<Longrightarrow> purse s' = purse s"
  "increment_cancelled_campaign_count s = Inr s' \<Longrightarrow> purse s' = purse s"
  by (auto simp: increment_contributor_count_def increment_active_campaign_count_def
      increment_verified_campaign_count_def increment_cancelled_campaign_count_def res_simps purse_frame Let_def)

lemma purse_changed [purse_frame]:
  "purse (set_admin a s) = (purse s)\<lparr>p_admin := Some a\<rparr>"
  "purse (set_total_raised_global i s) = (purse s)\<lparr>p_total := i\<rparr>"
  "purse (set_campaign_reserve cid r s) = (purse s)\<lparr>p_reserve := (p_reserve (purse s))(cid \<mapsto> r)\<rparr>"
  "purse (set_campaign_fee_recipient cid a s) =
     (purse s)\<lparr>p_fee_to := (p_fee_to (purse s))(cid \<mapsto> a)\<rparr>"
  "purse (set_campaign_milestones cid ms s) =
     (purse s)\<lparr>p_milestones := (p_milestones (purse s))(cid := ms)\<rparr>"
  "purse (set_milestone_claimed cid n s) =
     (purse s)\<lparr>p_milestone_paid := (p_milestone_paid (purse s))(cid := (p_milestone_paid (purse s) cid)(n := True))\<rparr>"
  "purse (set_revenue_pool cid i s) = (purse s)\<lparr>p_pool := (p_pool (purse s))(cid := i)\<rparr>"
  "purse (set_revenue_claimed cid a i s) =
     (purse s)\<lparr>p_claimed := (p_claimed (purse s))(cid := (p_claimed (purse s) cid)(a := i))\<rparr>"
  "purse (remove_revenue_claimed cid a s) =
     (purse s)\<lparr>p_claimed := (p_claimed (purse s))(cid := (p_claimed (purse s) cid)(a := 0))\<rparr>"
  "purse (set_creator_revenue_claimed cid i s) =
     (purse s)\<lparr>p_creator_claimed := (p_creator_claimed (purse s))(cid := i)\<rparr>"
  "purse (set_contributor_revenue_distributed cid i s) =
     (purse s)\<lparr>p_distributed := (p_distributed (purse s))(cid := i)\<rparr>"
  "purse (set_contributor_revenue_claimants cid n s) =
     (purse s)\<lparr>p_claimants := (p_claimants (purse s))(cid := n)\<rparr>"
  by (simp_all add: purse_def store_defs fun_eq_iff)

text \<open>The readers of the purse, as fields, so that rewriting goes through \<open>purse_frame\<close>.\<close>

lemmas purse_reads = purse_fields [symmetric]

lemma purse_token [purse_frame]:
  "admin_or_trap s = Inr a \<longleftrightarrow> p_admin (purse s) = Some a"
  "token_client s = Inr a \<longleftrightarrow> get_token s = Some a"
  "campaign_token_client s cid = Inr a \<longleftrightarrow> p_token (purse s) cid = Some a"
  by (simp_all add: res_simps purse_fields)

text \<open>A transfer only moves tokens.\<close>

lemma transfer_purse:
  "transfer e tok frm to amt s = Inr s' \<longleftrightarrow>
     (\<exists>w. h_transfer e tok frm to amt (p_world (purse s)) = Some w \<and> s' = s\<lparr>st_world := w\<rparr>)"
  by (simp add: transfer_eq_Ok purse_fields)

end
