(* ===== verification/Contributions.thy ===== *)
theory Contributions
  imports Purse Example
begin

text \<open>
  \<^verbatim>\<open>src/contributions.rs\<close>: contributions, refunds and personal caps. The operations,
  then what a successful call did (inversion lemmas) and the error branches.
\<close>

section \<open>Operations\<close>

definition check_contribution_caps :: "campaign \<Rightarrow> i128 \<Rightarrow> i128 \<Rightarrow> (error, unit) res" where
  "check_contribution_caps c lifetime amt =
    (if 0 < c_max_contribution_per_user c
     then (and_then (ok_or (i128_checked_add lifetime amt) Overflow) (\<lambda>n.
           if c_max_contribution_per_user c < n then Err ContributionCapExceeded else Ok ()))
     else Ok ())"

definition check_transaction_contribution_cap :: "'w state \<Rightarrow> i128 \<Rightarrow> (error, unit) res" where
  "check_transaction_contribution_cap s amt =
    (let cap = get_max_contribution_per_transaction s in
     if 0 < cap \<and> cap < amt then Err ValidationFailed else Ok ())"

definition check_personal_cap :: "'w state \<Rightarrow> u32 \<Rightarrow> address \<Rightarrow> i128 \<Rightarrow> i128 \<Rightarrow> (error, unit) res" where
  "check_personal_cap s cid who current amt =
    (case get_personal_cap s cid who of
       None \<Rightarrow> Ok ()
     | Some cap \<Rightarrow>
         (and_then (ok_or (i128_checked_add current amt) Overflow) (\<lambda>n.
          if cap < n then Err ContributionCapExceeded else Ok ())))"

text \<open>
  The guard writes the auto-pause flag and then fails, so its result keeps the
  state it leaves behind next to the outcome; the caller's failure discards it.
\<close>

definition check_burst_guard ::
  "('w, 'm) env_scheme \<Rightarrow> u32 \<Rightarrow> campaign \<Rightarrow> i128 \<Rightarrow> 'w state \<Rightarrow> (error, unit) res \<times> 'w state" where
  "check_burst_guard e cid c amt s =
    (case i128_checked_mul amt (int BPS_DENOMINATOR) of None \<Rightarrow> (Err Overflow, s) | Some amount_bps \<Rightarrow>
     case i128_checked_mul (c_funding_goal c) AUTO_PAUSE_SINGLE_CONTRIBUTION_BPS_THRESHOLD of
       None \<Rightarrow> (Err Overflow, s) | Some threshold \<Rightarrow>
     if threshold < amount_bps
     then (Err ContractPaused,
           publish [Sym ''auto_paused''] [Sym ''huge_contribution'', I128 amt]
             (set_auto_paused True s))
     else
     case i128_checked_mul (c_amount_raised c) (int BPS_DENOMINATOR) of
       None \<Rightarrow> (Err Overflow, s) | Some raised_bps \<Rightarrow>
     case i128_checked_mul (c_funding_goal c) AUTO_PAUSE_BURST_CHECK_MIN_RAISED_BPS of
       None \<Rightarrow> (Err Overflow, s) | Some burst_check_threshold \<Rightarrow>
     if raised_bps \<le> burst_check_threshold then (Ok (), s)
     else
     (let current_ledger = e_sequence e;
          (last_ledger, block_count) = get_campaign_block_contribution_count s cid in
      case (if current_ledger = last_ledger then u32_checked_add block_count 1 else Some 1) of
        None \<Rightarrow> (Trap, s) | Some block_count' \<Rightarrow>
      let s1 = set_campaign_block_contribution_count cid current_ledger block_count' s in
      if AUTO_PAUSE_BURST_THRESHOLD < block_count'
      then (Err ContractPaused,
            publish [Sym ''auto_paused''] [Sym ''burst'', U32 block_count']
              (set_auto_paused True s1))
      else (Ok (), s1)))"

definition update_contribution_accounting ::
  "u32 \<Rightarrow> address \<Rightarrow> campaign \<Rightarrow> i128 \<Rightarrow> i128 \<Rightarrow> i128 \<Rightarrow> 'w state \<Rightarrow> (error, 'w state) res" where
  "update_contribution_accounting cid who c current lifetime amt s =
    (and_then (if c_amount_raised c = 0
           then (and_then (admin_or_trap s) (\<lambda>admin. Ok (set_campaign_fee_recipient cid admin s)))
           else Ok s) (\<lambda>s1.
     and_then (ok_or (i128_checked_add (c_amount_raised c) amt) Overflow) (\<lambda>raised.
     and_then (ok_or (i128_checked_add (c_effective_amount_raised c) amt) Overflow) (\<lambda>eff.
     let s2 = set_campaign cid
                (c\<lparr>c_amount_raised := raised, c_effective_amount_raised := eff\<rparr>) s1 in
     and_then (ok_or (i128_checked_add current amt) Overflow) (\<lambda>current'.
     let s3 = set_contribution cid who current' s2 in
     and_then (ok_or (i128_checked_add lifetime amt) Overflow) (\<lambda>lifetime'.
     let s4 = set_lifetime_contribution cid who lifetime' s3 in
     and_then (if lifetime = 0 then increment_contributor_count cid s4 else Ok s4) (\<lambda>s5.
     and_then (ok_or (i128_checked_add (get_total_raised_global s5) amt) Overflow) (\<lambda>tot'.
     Ok (set_total_raised_global tot' s5)))))))))"

text \<open>
  The validation and accounting of one contribution, shared by \<open>contribute\<close> and by
  each item of \<open>batch_contribute\<close>, which repeat it line by line.
\<close>

definition apply_contribution ::
  "('w, 'm) env_scheme \<Rightarrow> u32 \<Rightarrow> address \<Rightarrow> i128 \<Rightarrow> 'w state \<Rightarrow> (error, 'w state) res" where
  "apply_contribution e cid who amt s =
    (if amt \<le> 0 then Err ContributionMustBePositive else
     and_then (get_campaign_or_error s cid) (\<lambda>c.
     if \<not> c_is_verified c then Err CampaignNotVerified else
     and_then (require_active_campaign c) (\<lambda>_.
     if who = c_creator c then Err NotAuthorized else
     if c_deadline c < e_timestamp e then Err DeadlinePassed else
     let current = get_contribution s cid who;
         lifetime = get_lifetime_contribution s cid who in
     and_then (check_transaction_contribution_cap s amt) (\<lambda>_.
     and_then (check_contribution_caps c lifetime amt) (\<lambda>_.
     and_then (check_personal_cap s cid who current amt) (\<lambda>_.
     case check_burst_guard e cid c amt s of (r, s1) \<Rightarrow>
     and_then r (\<lambda>_.
     update_contribution_accounting cid who c current lifetime amt s1)))))))"

definition update_top_contributor :: "u32 \<Rightarrow> address \<Rightarrow> i128 \<Rightarrow> 'w state \<Rightarrow> 'w state" where
  "update_top_contributor cid who new_total s =
    (let is_new_top =
       (case get_top_contributor s cid of
          Some best \<Rightarrow> if best \<noteq> who then get_contribution s cid best < new_total else True
        | None \<Rightarrow> True) in
     if is_new_top then set_top_contributor cid who s else s)"

definition contribute ::
  "('w, 'm) env_scheme \<Rightarrow> u32 \<Rightarrow> address \<Rightarrow> i128 \<Rightarrow> 'w state \<Rightarrow> (error, 'w state) res" where
  "contribute e cid who amt s =
    (and_then (require_auth e who) (\<lambda>_.
     and_then (require_not_paused s) (\<lambda>_.
     let current = get_contribution s cid who in
     and_then (apply_contribution e cid who amt s) (\<lambda>s1.
     and_then (ok_or (i128_checked_add current amt) Overflow) (\<lambda>new_total.
     let s2 = update_top_contributor cid who new_total s1;
         s3 = set_last_contribution_time cid (e_timestamp e) s2 in
     and_then (campaign_token_client s3 cid) (\<lambda>tok.
     and_then (transfer e tok who (h_self e) amt s3) (\<lambda>s4.
     Ok (publish [Sym ''contribution_made'', U32 cid, Addr who] [I128 amt] s4))))))))"

text \<open>
  The loop of \<open>batch_contribute\<close>: each item's accounting at once, the amount owed
  per token in a host \<open>Map\<close>.
\<close>

primrec batch_contribute_items ::
  "('w, 'm) env_scheme \<Rightarrow> address \<Rightarrow> (u32 \<times> i128) list \<Rightarrow> (address \<times> i128) list \<Rightarrow> i128 \<Rightarrow> 'w state
   \<Rightarrow> (error, (address \<times> i128) list \<times> i128 \<times> 'w state) res" where
  "batch_contribute_items e who [] owed tot s = Ok (owed, tot, s)"
| "batch_contribute_items e who (it # its) owed tot s =
    (and_then (apply_contribution e (fst it) who (snd it) s) (\<lambda>s1.
     and_then (ok_or (i128_checked_add tot (snd it)) Overflow) (\<lambda>tot'.
     and_then (campaign_token_client s1 (fst it)) (\<lambda>tok.
     and_then (ok_or (i128_checked_add (case omap_get owed tok of None \<Rightarrow> 0 | Some x \<Rightarrow> x) (snd it)) Overflow) (\<lambda>running.
     batch_contribute_items e who its (omap_set tok running owed) tot'
       (publish [Sym ''contribution_made'', U32 (fst it), Addr who] [I128 (snd it)] s1))))))"

primrec transfer_owed ::
  "('w, 'm) env_scheme \<Rightarrow> address \<Rightarrow> (address \<times> i128) list \<Rightarrow> 'w state \<Rightarrow> (error, 'w state) res" where
  "transfer_owed e who [] s = Ok s"
| "transfer_owed e who (p # ps) s =
    (and_then (transfer e (fst p) who (h_self e) (snd p) s) (\<lambda>s1.
     transfer_owed e who ps s1))"

definition batch_contribute ::
  "('w, 'm) env_scheme \<Rightarrow> address \<Rightarrow> (u32 \<times> i128) list \<Rightarrow> 'w state \<Rightarrow> (error, 'w state) res" where
  "batch_contribute e who items s =
    (and_then (require_auth e who) (\<lambda>_.
     and_then (require_not_paused s) (\<lambda>_.
     if items = [] \<or> MAX_BATCH_CONTRIBUTE_SIZE < length items then Err ValidationFailed else
     and_then (batch_contribute_items e who items [] 0 s) (\<lambda>(owed, tot, s1).
     and_then (transfer_owed e who owed s1) (\<lambda>s2.
     Ok (publish [Sym ''batch_contribution_made'', Addr who] [U32 (length items), I128 tot] s2))))))"

definition claim_refund ::
  "('w, 'm) env_scheme \<Rightarrow> u32 \<Rightarrow> address \<Rightarrow> 'w state \<Rightarrow> (error, 'w state) res" where
  "claim_refund e cid who s =
    (and_then (require_auth e who) (\<lambda>_.
     and_then (require_not_paused s) (\<lambda>_.
     and_then (get_campaign_or_error s cid) (\<lambda>c.
     let failed_due_to_goal =
       c_deadline c < e_timestamp e \<and> c_amount_raised c < c_funding_goal c in
     if \<not> (c_is_cancelled c \<or> failed_due_to_goal) then Err ValidationFailed else
     let amt = get_contribution s cid who in
     if amt = 0 then Err NoFundsToWithdraw else
     let s1 = remove_contribution cid who s;
         s2 = remove_revenue_claimed cid who s1;
         s3 = remove_personal_cap cid who s2;
         s4 = decrement_contributor_count cid s3 in
     and_then (ok_or (i128_checked_sub (c_effective_amount_raised c) amt) Overflow) (\<lambda>eff.
     let s5 = set_campaign cid (c\<lparr>c_effective_amount_raised := eff\<rparr>) s4 in
     and_then (if \<not> c_is_cancelled c
           then (and_then (ok_or (i128_checked_sub (get_total_raised_global s5) amt) Overflow) (\<lambda>tot'. Ok (set_total_raised_global tot' s5)))
           else Ok s5) (\<lambda>s6.
     and_then (campaign_token_client s6 cid) (\<lambda>tok.
     and_then (transfer e tok (h_self e) who amt s6) (\<lambda>s7.
     Ok (publish [Sym ''refund_claimed'', U32 cid, Addr who] [I128 amt] s7)))))))))"

definition set_personal_cap_fn ::
  "('w, 'm) env_scheme \<Rightarrow> u32 \<Rightarrow> address \<Rightarrow> i128 \<Rightarrow> 'w state \<Rightarrow> (error, 'w state) res" where
  "set_personal_cap_fn e cid who amt s =
    (and_then (require_auth e who) (\<lambda>_.
     if amt < 0 then Err ValidationFailed else
     let lifetime = get_lifetime_contribution s cid who in
     if amt < lifetime then Err ValidationFailed else
     and_then (get_campaign_or_error s cid) (\<lambda>c.
     and_then (require_active_campaign c) (\<lambda>_.
     if 0 < c_max_contribution_per_user c \<and> c_max_contribution_per_user c < amt
     then Err ValidationFailed else
     Ok (publish [Sym ''personal_cap_set'', U32 cid, Addr who] [I128 amt]
           (set_personal_cap cid who amt s))))))"

definition remove_personal_cap_fn ::
  "('w, 'm) env_scheme \<Rightarrow> u32 \<Rightarrow> address \<Rightarrow> 'w state \<Rightarrow> (error, 'w state) res" where
  "remove_personal_cap_fn e cid who s =
    (and_then (require_auth e who) (\<lambda>_.
     and_then (get_campaign_or_error s cid) (\<lambda>c.
     and_then (require_active_campaign c) (\<lambda>_.
     and_then (ok_or (get_personal_cap s cid who) PersonalCapNotFound) (\<lambda>_.
     Ok (publish [Sym ''personal_cap_removed'', U32 cid, Addr who] []
           (remove_personal_cap cid who s)))))))"

section \<open>The caps\<close>

lemma check_caps_eq_Ok [res_simps]:
  "check_contribution_caps c lifetime amt = Inr u \<longleftrightarrow>
     c_max_contribution_per_user c \<le> 0 \<or>
     in_i128 (lifetime + amt) \<and> lifetime + amt \<le> c_max_contribution_per_user c"
  "check_transaction_contribution_cap s amt = Inr u \<longleftrightarrow>
     get_max_contribution_per_transaction s \<le> 0 \<or> amt \<le> get_max_contribution_per_transaction s"
  "check_personal_cap s cid who current amt = Inr u \<longleftrightarrow>
     (\<forall>cap. get_personal_cap s cid who = Some cap \<longrightarrow> in_i128 (current + amt) \<and> current + amt \<le> cap)"
  by (auto simp: check_contribution_caps_def check_transaction_contribution_cap_def
      check_personal_cap_def Let_def res_simps split: option.splits)

section \<open>Refinement of the escrow\<close>

lemma check_burst_guard_core:
  "check_burst_guard e cid c amt s = (Inr u, s1) \<Longrightarrow> core s1 = core s"
  by (auto simp: check_burst_guard_def Let_def core_frame split: option.splits if_splits prod.splits)

lemma update_contribution_accounting_core:
  assumes "update_contribution_accounting cid who c (get_contribution s cid who)
             (get_lifetime_contribution s cid who) amt s = Inr s'"
  shows "core s' = k_contribute cid c who amt (core s)"
  using assms
  by (simp only: update_contribution_accounting_def res_simps Let_def, safe)
    (simp_all add: core_frame k_contribute_def)

lemma update_contribution_accounting_room:
  "update_contribution_accounting cid who c ct lf amt s = Inr s' \<Longrightarrow> c_amount_raised c + amt \<le> i128_max"
  by (simp only: update_contribution_accounting_def res_simps Let_def, safe) (simp_all add: in_i128_def)

text \<open>An admissible contribution is one move of the escrow.\<close>

lemma apply_contribution_core:
  assumes "apply_contribution e cid who amt s = Inr s'"
  obtains c where "get_campaign s cid = Some c"
    "open_for (e_timestamp e) (core s) cid c who amt"
    "core s' = k_contribute cid c who amt (core s)"
proof -
  from assms obtain c s1 u where c: "get_campaign s cid = Some c" "0 < amt" "c_is_verified c"
      "c_is_active c" "\<not> c_is_cancelled c" "who \<noteq> c_creator c" "e_timestamp e \<le> c_deadline c"
      "c_max_contribution_per_user c \<le> 0 \<or>
       get_lifetime_contribution s cid who + amt \<le> c_max_contribution_per_user c"
    and guard: "check_burst_guard e cid c amt s = (Inr u, s1)"
    and acc: "update_contribution_accounting cid who c (get_contribution s cid who)
      (get_lifetime_contribution s cid who) amt s1 = Inr s'"
    by (auto simp: apply_contribution_def Let_def res_simps)
  have core1: "core s1 = core s" using check_burst_guard_core [OF guard] .
  have "core s' = k_contribute cid c who amt (core s1)"
    by (rule update_contribution_accounting_core) (use acc core1 in \<open>simp add: core_reads\<close>)
  with core1 c update_contribution_accounting_room [OF acc] that show thesis by (simp add: open_for_def core_fields)
qed

lemma apply_contribution_step:
  "apply_contribution e cid who amt s = Inr s' \<Longrightarrow> core_step (e_timestamp e) (core s) (core s')"
  by (erule apply_contribution_core) (auto intro: core_step.contributed simp: core_fields)

lemma contribute_step:
  assumes "contribute e cid who amt s = Inr s'"
  shows "core_step (e_timestamp e) (core s) (core s')"
proof -
  from assms obtain s1 where "apply_contribution e cid who amt s = Inr s1" "core s' = core s1"
    by (auto simp: contribute_def Let_def res_simps update_top_contributor_def core_frame split: if_splits)
  then show ?thesis by (auto dest: apply_contribution_step)
qed

lemma batch_contribute_items_steps:
  "batch_contribute_items e who items owed tot s = Inr (owed', tot', s') \<Longrightarrow>
   core_steps (e_timestamp e) (core s) (core s')"
proof (induction items arbitrary: owed tot s)
  case (Cons it its)
  from Cons.prems obtain s1 owed1 tot1 where
    "apply_contribution e (fst it) who (snd it) s = Inr s1"
    and rest: "batch_contribute_items e who its owed1 tot1
      (publish [Sym ''contribution_made'', U32 (fst it), Addr who] [I128 (snd it)] s1)
      = Inr (owed', tot', s')"
    by (simp only: batch_contribute_items.simps res_simps, blast)
  then show ?case
    using Cons.IH [OF rest] by (auto dest: apply_contribution_step simp: core_frame
        intro: converse_rtranclp_into_rtranclp)
qed simp

lemma transfer_owed_core: "transfer_owed e who ps s = Inr s' \<Longrightarrow> core s' = core s"
  by (induction ps arbitrary: s) (auto simp: res_simps core_frame)

lemma batch_contribute_steps:
  assumes "batch_contribute e who items s = Inr s'"
  shows "core_steps (e_timestamp e) (core s) (core s')"
  using assms
  by (auto simp: batch_contribute_def res_simps core_frame dest!: batch_contribute_items_steps transfer_owed_core)

lemma claim_refund_step:
  assumes "claim_refund e cid who s = Inr s'"
  shows "core_step (e_timestamp e) (core s) (core s')"
proof -
  from assms obtain c where c: "get_campaign s cid = Some c" "refundable (e_timestamp e) c"
      "get_contribution s cid who \<noteq> 0"
    and eq: "core s' = k_refund cid c who (core s)"
    by (simp only: claim_refund_def Let_def res_simps, safe)
       (simp_all add: core_frame k_refund_def refundable_def)
  show ?thesis unfolding eq by (rule core_step.refunded) (use c in \<open>simp_all add: core_fields\<close>)
qed

lemma personal_cap_core:
  "set_personal_cap_fn e cid who amt s = Inr s' \<Longrightarrow> core s' = core s"
  "remove_personal_cap_fn e cid who s = Inr s' \<Longrightarrow> core s' = core s"
  by (auto simp: set_personal_cap_fn_def remove_personal_cap_fn_def Let_def res_simps core_frame)

section \<open>Frame\<close>

context fund_observer
begin

lemma burst_obs: "check_burst_guard e cid c amt s = (Inr u, s1) \<Longrightarrow> obs s1 = obs s"
  by (auto simp: check_burst_guard_def Let_def obs_simps split: option.splits if_splits prod.splits)

lemma accounting_obs:
  "update_contribution_accounting cid who c ct lf amt s = Inr s' \<Longrightarrow> obs s' = obs s"
  by (simp only: update_contribution_accounting_def Let_def res_simps, safe)
    (simp_all add: obs_simps)

lemma apply_contribution_obs: "apply_contribution e cid who amt s = Inr s' \<Longrightarrow> obs s' = obs s"
  by (auto simp: apply_contribution_def Let_def res_simps dest!: burst_obs accounting_obs)

lemma batch_items_obs:
  "batch_contribute_items e who items owed tot s = Inr (owed', tot', s') \<Longrightarrow> obs s' = obs s"
proof (induction items arbitrary: owed tot s)
  case (Cons it its)
  from Cons.prems obtain s1 owed1 tot1 where
    "apply_contribution e (fst it) who (snd it) s = Inr s1"
    and rest: "batch_contribute_items e who its owed1 tot1
      (publish [Sym ''contribution_made'', U32 (fst it), Addr who] [I128 (snd it)] s1)
      = Inr (owed', tot', s')"
    by (simp only: batch_contribute_items.simps res_simps, blast)
  then show ?case
    using Cons.IH [OF rest] by (simp add: apply_contribution_obs obs_simps)
qed simp

lemma transfer_owed_obs: "transfer_owed e who ps s = Inr s' \<Longrightarrow> obs s' = obs s"
  by (induction ps arbitrary: s) (auto simp: res_simps obs_simps)

lemma top_obs: "obs (update_top_contributor cid who i s) = obs s"
  by (simp add: update_top_contributor_def obs_simps Let_def)

lemma contributions_obs:
  "contribute e cid who amt s = Inr s' \<Longrightarrow> obs s' = obs s"
  "batch_contribute e who items s = Inr s' \<Longrightarrow> obs s' = obs s"
  "claim_refund e cid who s = Inr s' \<Longrightarrow> obs s' = obs s"
  "set_personal_cap_fn e cid who amt s = Inr s' \<Longrightarrow> obs s' = obs s"
  "remove_personal_cap_fn e cid who s = Inr s' \<Longrightarrow> obs s' = obs s"
  subgoal by (auto simp: contribute_def Let_def res_simps obs_simps top_obs dest!: apply_contribution_obs)
  subgoal by (auto simp: batch_contribute_def res_simps obs_simps dest!: batch_items_obs transfer_owed_obs)
  subgoal by (simp only: claim_refund_def Let_def res_simps, safe) (simp_all add: obs_simps)
  by (auto simp: set_personal_cap_fn_def remove_personal_cap_fn_def Let_def res_simps obs_simps)

end

section \<open>The token side\<close>

lemma check_burst_guard_purse:
  "check_burst_guard e cid c amt s = (Inr u, s1) \<Longrightarrow> purse s1 = purse s"
  by (auto simp: check_burst_guard_def Let_def purse_frame split: option.splits if_splits prod.splits)

lemma update_contribution_accounting_purse:
  assumes "update_contribution_accounting cid who c ct lf amt s = Inr s'"
  shows "purse s' = (purse s)\<lparr>p_total := get_total_raised_global s + amt, p_fee_to := p_fee_to (purse s')\<rparr>"
  using assms
  by (simp only: update_contribution_accounting_def Let_def res_simps purse_reads, safe)
    (auto simp: purse_frame dest!: purse_increments intro!: purse.equality)

text \<open>One contribution adds to the running total and may fix the fee recipient.\<close>

lemma apply_contribution_purse:
  assumes "apply_contribution e cid who amt s = Inr s'"
  obtains fee where "purse s' = (purse s)\<lparr>p_total := get_total_raised_global s + amt, p_fee_to := fee\<rparr>"
    "0 < amt"
proof -
  from assms obtain c s1 u where "0 < amt" and g: "check_burst_guard e cid c amt s = (Inr u, s1)"
    and acc: "update_contribution_accounting cid who c (get_contribution s cid who)
      (get_lifetime_contribution s cid who) amt s1 = Inr s'"
    by (auto simp: apply_contribution_def Let_def res_simps)
  have "purse s1 = purse s" using check_burst_guard_purse [OF g] .
  with update_contribution_accounting_purse [OF acc] that \<open>0 < amt\<close> show thesis
    unfolding purse_reads by metis
qed

lemma update_top_contributor_frame:
  "core (update_top_contributor cid who i s) = core s"
  "purse (update_top_contributor cid who i s) = purse s"
  by (simp_all add: update_top_contributor_def Let_def core_frame purse_frame)

lemma contribute_purse:
  assumes "contribute e cid who amt s = Inr s'"
  obtains s1 tok w fee where "apply_contribution e cid who amt s = Inr s1" "e_auth e who" "0 < amt"
    "\<not> paused_flag s" "\<not> auto_paused_flag s" "get_campaign_token s cid = Some tok"
    "h_transfer e tok who (h_self e) amt (st_world s) = Some w" "core s' = core s1"
    "purse s' = (purse s)\<lparr>p_world := w, p_total := get_total_raised_global s + amt, p_fee_to := fee\<rparr>"
proof -
  from assms obtain s1 n tok w where s1: "apply_contribution e cid who amt s = Inr s1"
    and ok: "e_auth e who" "\<not> paused_flag s" "\<not> auto_paused_flag s"
    and tok: "p_token (purse s1) cid = Some tok"
    and w: "h_transfer e tok who (h_self e) amt (p_world (purse s1)) = Some w"
    and s': "s' = publish [Sym ''contribution_made'', U32 cid, Addr who] [I128 amt]
       (set_last_contribution_time cid (e_timestamp e) (update_top_contributor cid who n s1)\<lparr>st_world := w\<rparr>)"
    by (simp only: contribute_def Let_def res_simps purse_reads purse_frame update_top_contributor_frame) blast
  from apply_contribution_purse [OF s1] obtain fee where p: "0 < amt"
    "purse s1 = (purse s)\<lparr>p_total := get_total_raised_global s + amt, p_fee_to := fee\<rparr>" by blast
  show thesis
    by (rule that [OF s1 ok(1) p(1) ok(2,3), of tok w fee])
      (use tok w p(2) in \<open>simp_all add: s' core_frame purse_frame update_top_contributor_frame purse_fields\<close>)
qed

lemma claim_refund_purse:
  assumes "claim_refund e cid who s = Inr s'"
  obtains c tok w where "get_campaign s cid = Some c" "e_auth e who" "refundable (e_timestamp e) c"
    "\<not> paused_flag s" "\<not> auto_paused_flag s" "get_contribution s cid who \<noteq> 0"
    "get_campaign_token s cid = Some tok"
    "h_transfer e tok (h_self e) who (get_contribution s cid who) (st_world s) = Some w"
    "core s' = k_refund cid c who (core s)" "st_world s' = w"
    "purse s' = (purse s)\<lparr>p_world := w,
       p_total := (if c_is_cancelled c then get_total_raised_global s
                   else get_total_raised_global s - get_contribution s cid who),
       p_claimed := (get_revenue_claimed s)(cid := (get_revenue_claimed s cid)(who := 0))\<rparr>"
proof -
  have "\<exists>c tok w. get_campaign s cid = Some c \<and> e_auth e who \<and> refundable (e_timestamp e) c \<and>
    \<not> paused_flag s \<and> \<not> auto_paused_flag s \<and> get_contribution s cid who \<noteq> 0 \<and>
    p_token (purse s) cid = Some tok \<and>
    h_transfer e tok (h_self e) who (get_contribution s cid who) (p_world (purse s)) = Some w \<and>
    core s' = k_refund cid c who (core s) \<and>
    purse s' = (purse s)\<lparr>p_world := w,
       p_total := (if c_is_cancelled c then p_total (purse s)
                   else p_total (purse s) - get_contribution s cid who),
       p_claimed := (p_claimed (purse s))(cid := (p_claimed (purse s) cid)(who := 0))\<rparr>"
    using assms
    by (simp only: claim_refund_def Let_def res_simps purse_reads, safe)
      (simp_all add: core_frame purse_frame k_refund_def refundable_def purse.equality)
  then obtain c tok w where *: "get_campaign s cid = Some c" "e_auth e who"
    "refundable (e_timestamp e) c" "\<not> paused_flag s" "\<not> auto_paused_flag s"
    "get_contribution s cid who \<noteq> 0" "p_token (purse s) cid = Some tok"
    "h_transfer e tok (h_self e) who (get_contribution s cid who) (p_world (purse s)) = Some w"
    "core s' = k_refund cid c who (core s)"
    "purse s' = (purse s)\<lparr>p_world := w,
       p_total := (if c_is_cancelled c then p_total (purse s)
                   else p_total (purse s) - get_contribution s cid who),
       p_claimed := (p_claimed (purse s))(cid := (p_claimed (purse s) cid)(who := 0))\<rparr>" by blast
  have "st_world s' = w" by (simp add: purse_fields(1) [symmetric] *(10))
  note ** = * [unfolded purse_fields]
  show thesis by (rule that [OF **(1-9) \<open>st_world s' = w\<close> **(10)])
qed

lemma k_contribute_fields:
  "k_camp (k_contribute cid c who amt k) = (k_camp k)(cid \<mapsto> c\<lparr>c_amount_raised := c_amount_raised c + amt,
     c_effective_amount_raised := c_effective_amount_raised c + amt\<rparr>)"
  "k_contrib (k_contribute cid c who amt k) =
     (k_contrib k)(cid := (k_contrib k cid)(who := k_contrib k cid who + amt))"
  "k_life (k_contribute cid c who amt k) = (k_life k)(cid := (k_life k cid)(who := k_life k cid who + amt))"
  "k_backers (k_contribute cid c who amt k) cid =
     k_backers k cid + (if k_life k cid who = 0 then 1 else 0)"
  by (simp_all add: k_contribute_def)

section \<open>Properties\<close>

declare One_nat_def [simp del]

text \<open>
  C4: What a contribution does. A successful \<open>contribute\<close> was signed by the contributor, who
  is not the creator, for a verified campaign before its deadline; it moves exactly the amount from
  the contributor to the contract in the campaign's currency and adds it to the campaign's two
  totals, to the contributor's current and lifetime contribution and to the global total, counting a
  new contributor once, and changes no other campaign or contribution.
\<close>

theorem contribute_effect:
  assumes "contribute e cid who amt s = Inr s'"
  shows "\<exists>c tok. get_campaign s cid = Some c \<and> get_campaign_token s cid = Some tok \<and>
    e_auth e who \<and> who \<noteq> c_creator c \<and> c_is_verified c \<and> e_timestamp e \<le> c_deadline c \<and> 0 < amt \<and>
    h_transfer e tok who (h_self e) amt (st_world s) = Some (st_world s') \<and>
    get_campaign s' = (get_campaign s)(cid \<mapsto> c\<lparr>c_amount_raised := c_amount_raised c + amt,
      c_effective_amount_raised := c_effective_amount_raised c + amt\<rparr>) \<and>
    get_contribution s' =
      (get_contribution s)(cid := (get_contribution s cid)(who := get_contribution s cid who + amt)) \<and>
    get_lifetime_contribution s' =
      (get_lifetime_contribution s)
        (cid := (get_lifetime_contribution s cid)(who := get_lifetime_contribution s cid who + amt)) \<and>
    get_contributor_count s' cid =
      get_contributor_count s cid + (if get_lifetime_contribution s cid who = 0 then 1 else 0) \<and>
    get_total_raised_global s' = get_total_raised_global s + amt"
proof -
  from contribute_purse [OF assms] obtain s1 tok w fee where
    s1: "apply_contribution e cid who amt s = Inr s1" and p: "e_auth e who" "0 < amt"
    "get_campaign_token s cid = Some tok" "h_transfer e tok who (h_self e) amt (st_world s) = Some w"
    and eq: "core s' = core s1"
    "purse s' = (purse s)\<lparr>p_world := w, p_total := get_total_raised_global s + amt, p_fee_to := fee\<rparr>"
    by metis
  from apply_contribution_core [OF s1] obtain c where c: "get_campaign s cid = Some c"
    "open_for (e_timestamp e) (core s) cid c who amt" "core s1 = k_contribute cid c who amt (core s)" .
  have "st_world s' = w" "get_total_raised_global s' = get_total_raised_global s + amt"
    by (simp_all add: purse_fields(1,3) [symmetric] eq)
  with c p show ?thesis
    by (simp add: core_fields [symmetric] eq k_contribute_fields open_for_def)
qed

theorem contribute_effect_witness:
  "\<exists>s'. contribute (demo_env 3000) 1 (Address 3) 5000 demo_state = Inr s' \<and>
    get_contribution s' 1 (Address 3) = 65000 \<and> get_total_raised_global s' = 105001"
proof -
  let ?r = "contribute (demo_env 3000) 1 (Address 3) 5000 demo_state"
  have "is_ok ?r"
    by (simp add: contribute_def apply_contribution_def check_transaction_contribution_cap_def
        check_contribution_caps_def check_personal_cap_def check_burst_guard_def
        update_contribution_accounting_def update_top_contributor_def eval_simps)
  then obtain s' where s': "?r = Inr s'" by (cases ?r) simp_all
  from contribute_effect [OF s'] show ?thesis by (auto simp: s' demo_facts)
qed

text \<open>
  C7: A refund pays once. A successful \<open>claim_refund\<close> was signed by the contributor of a campaign
  that was cancelled or has failed; it pays back exactly the recorded contribution, clears it, keeps
  the lifetime record, and any later claim by the same contributor on that state fails with
  \<open>NoFundsToWithdraw\<close>.
\<close>

theorem refund_pays_once:
  assumes "claim_refund e cid who s = Inr s'"
  shows "(\<exists>c tok. get_campaign s cid = Some c \<and> get_campaign_token s cid = Some tok \<and> e_auth e who \<and>
      (c_is_cancelled c \<or> c_deadline c < e_timestamp e \<and> c_amount_raised c < c_funding_goal c) \<and>
      h_transfer e tok (h_self e) who (get_contribution s cid who) (st_world s) = Some (st_world s') \<and>
      get_campaign s' = (get_campaign s)(cid \<mapsto> c\<lparr>c_effective_amount_raised :=
        c_effective_amount_raised c - get_contribution s cid who\<rparr>)) \<and>
    get_contribution s' = (get_contribution s)(cid := (get_contribution s cid)(who := 0)) \<and>
    get_lifetime_contribution s' = get_lifetime_contribution s \<and>
    (\<forall>e'. e_auth e' who \<and> e_timestamp e \<le> e_timestamp e' \<and> \<not> paused_flag s' \<and> \<not> auto_paused_flag s' \<longrightarrow>
       claim_refund e' cid who s' = Err NoFundsToWithdraw)"
proof -
  from claim_refund_purse [OF assms] obtain c tok w where
    c: "get_campaign s cid = Some c" "e_auth e who" "refundable (e_timestamp e) c"
    "get_campaign_token s cid = Some tok"
    "h_transfer e tok (h_self e) who (get_contribution s cid who) (st_world s) = Some w"
    and k: "core s' = k_refund cid c who (core s)" and w: "st_world s' = w"
    by metis
  have again: "claim_refund e' cid who s' = Err NoFundsToWithdraw"
    if "e_auth e' who" "e_timestamp e \<le> e_timestamp e'" "\<not> paused_flag s'" "\<not> auto_paused_flag s'" for e'
  proof -
    have "k_camp (core s') cid = Some (c\<lparr>c_effective_amount_raised :=
        c_effective_amount_raised c - get_contribution s cid who\<rparr>)" "k_contrib (core s') cid who = 0"
      by (simp_all add: k k_refund_def core_fields)
    then show ?thesis
      using c(3) that by (auto simp: claim_refund_def require_auth_def require_not_paused_def
          get_campaign_or_error_def refundable_def core_fields)
  qed
  have "get_campaign s' = (get_campaign s)(cid \<mapsto> c\<lparr>c_effective_amount_raised :=
        c_effective_amount_raised c - get_contribution s cid who\<rparr>)"
    "get_contribution s' = (get_contribution s)(cid := (get_contribution s cid)(who := 0))"
    "get_lifetime_contribution s' = get_lifetime_contribution s"
    by (simp_all add: core_fields [symmetric] k k_refund_def)
  with c w again show ?thesis unfolding refundable_def by blast
qed

theorem refund_pays_once_witness:
  "\<exists>s'. claim_refund (demo_env 3000) 1 (Address 3) (set_campaign 1 (demo_campaign\<lparr>c_is_cancelled := True\<rparr>) demo_state)
     = Inr s' \<and> get_contribution s' 1 (Address 3) = 0"
proof -
  let ?r = "claim_refund (demo_env 3000) 1 (Address 3)
    (set_campaign 1 (demo_campaign\<lparr>c_is_cancelled := True\<rparr>) demo_state)"
  have "is_ok ?r" by (simp add: claim_refund_def eval_simps)
  then obtain s' where s': "?r = Inr s'" by (cases ?r) simp_all
  from refund_pays_once [OF s', THEN conjunct2, THEN conjunct1]
  have "get_contribution s' 1 (Address 3) = 0" by simp
  with s' show ?thesis by blast
qed

section \<open>Batches\<close>

text \<open>The amount a list of items owes in one token, and its entry in the map the loop builds.\<close>

definition owed_in :: "'w state \<Rightarrow> address \<Rightarrow> (u32 \<times> i128) list \<Rightarrow> i128" where
  "owed_in s tok items =
    sum_list (map snd (filter (\<lambda>it. get_campaign_token s (fst it) = Some tok) items))"

definition owed_entry :: "(address \<times> i128) list \<Rightarrow> address \<Rightarrow> i128" where
  "owed_entry m tok = (case omap_get m tok of None \<Rightarrow> 0 | Some x \<Rightarrow> x)"

lemma batch_items_purse:
  assumes "batch_contribute_items e who items owed tot s = Inr (owed', tot', s')"
    and "sorted_wrt (<) (map fst owed)"
  shows "sorted_wrt (<) (map fst owed') \<and> tot' = tot + sum_list (map snd items) \<and>
    sum_list (map snd owed') = sum_list (map snd owed) + sum_list (map snd items) \<and>
    (\<forall>tok. owed_entry owed' tok = owed_entry owed tok + owed_in s tok items) \<and>
    st_world s' = st_world s \<and> get_campaign_token s' = get_campaign_token s \<and>
    get_total_raised_global s' = get_total_raised_global s + sum_list (map snd items)"
  using assms
proof (induction items arbitrary: owed tot s)
  case Nil
  then show ?case by (simp add: owed_in_def)
next
  case (Cons it its)
  let ?pub = "publish [Sym ''contribution_made'', U32 (fst it), Addr who] [I128 (snd it)]"
  from Cons.prems(1) obtain s1 tok where
    s1: "apply_contribution e (fst it) who (snd it) s = Inr s1"
    and tok: "get_campaign_token s1 (fst it) = Some tok"
    and rest: "batch_contribute_items e who its (omap_set tok (owed_entry owed tok + snd it) owed)
      (tot + snd it) (?pub s1) = Inr (owed', tot', s')"
    by (simp only: batch_contribute_items.simps res_simps owed_entry_def [symmetric]) blast
  let ?owed = "omap_set tok (owed_entry owed tok + snd it) owed"
  from apply_contribution_purse [OF s1] obtain fee where
    p: "purse s1 = (purse s)\<lparr>p_total := get_total_raised_global s + snd it, p_fee_to := fee\<rparr>" by blast
  have same: "get_campaign_token (?pub s1) = get_campaign_token s" "st_world (?pub s1) = st_world s"
    "get_campaign_token s1 = get_campaign_token s"
    "get_total_raised_global (?pub s1) = get_total_raised_global s + snd it"
    by (simp_all add: purse_fields [symmetric] purse_frame p)
  have entry: "owed_entry ?owed k = owed_entry owed k + (if k = tok then snd it else 0)" for k
    by (simp add: owed_entry_def omap_get_set)
  have sum: "sum_list (map snd ?owed) = sum_list (map snd owed) + snd it"
    using omap_set_sum [OF Cons.prems(2), of tok "owed_entry owed tok + snd it"]
    by (simp add: owed_entry_def)
  have cons: "owed_in s k (it # its) = (if k = tok then snd it else 0) + owed_in s k its" for k
    using tok same by (auto simp: owed_in_def)
  have "owed_in (?pub s1) k its = owed_in s k its" for k using same by (simp add: owed_in_def)
  with Cons.IH [OF rest omap_set_sorted [OF Cons.prems(2)]] same show ?case
    by (simp add: entry sum cons)
qed

text \<open>
  A batch owes the sum of its items. A successful \<open>batch_contribute\<close> makes one transfer per
  distinct currency, from a map with increasing keys whose entry for a token is the sum of the items
  of the campaigns in that token; together they are the sum of all items, which is also what the
  global total grows by.
\<close>

lemma batch_owes_the_sum:
  assumes "batch_contribute e who items s = Inr s'"
  shows "\<exists>owed s1 s2. sorted_wrt (<) (map fst owed) \<and>
    (\<forall>tok. owed_entry owed tok = owed_in s tok items) \<and>
    sum_list (map snd owed) = sum_list (map snd items) \<and>
    st_world s1 = st_world s \<and> transfer_owed e who owed s1 = Inr s2 \<and> st_world s' = st_world s2 \<and>
    get_total_raised_global s1 = get_total_raised_global s + sum_list (map snd items) \<and>
    length items \<le> MAX_BATCH_CONTRIBUTE_SIZE"
proof -
  from assms obtain owed tot s1 s2 where
    items: "batch_contribute_items e who items [] 0 s = Inr (owed, tot, s1)"
    and tr: "transfer_owed e who owed s1 = Inr s2" "length items \<le> MAX_BATCH_CONTRIBUTE_SIZE"
    and s': "s' = publish [Sym ''batch_contribution_made'', Addr who] [U32 (length items), I128 tot] s2"
    by (auto simp: batch_contribute_def res_simps)
  from batch_items_purse [OF items] tr show ?thesis
    by (intro exI [of _ owed] exI [of _ s1] exI [of _ s2])
      (simp add: s' owed_entry_def store_defs)
qed

end
