(* ===== verification/Create.thy ===== *)
theory Create
  imports Purse Example
begin

text \<open>
  \<^verbatim>\<open>src/campaigns/create.rs\<close>: the validation of a new campaign and the entries its
  creation writes, with the updates of the category and creator indexes as
  operations of their own.
\<close>

section \<open>Operations\<close>

text \<open>The appends to the two bucketed indexes at the end of \<open>create_campaign_inner\<close>.\<close>

definition append_category_index :: "category \<Rightarrow> u32 \<Rightarrow> 'w state \<Rightarrow> (error, 'w state) res" where
  "append_category_index cat cid s =
    (let category_count = get_category_campaign_count s cat;
         bucket_idx = category_count div CATEGORY_CAMPAIGNS_BUCKET_SIZE;
         bucket = get_category_campaign_bucket s cat bucket_idx @ [cid];
         s1 = set_category_campaign_bucket cat bucket_idx bucket s in
     and_then (unwrap (u32_checked_add category_count 1)) (\<lambda>n.
     Ok (set_category_campaign_count cat n s1)))"

definition append_creator_index :: "address \<Rightarrow> u32 \<Rightarrow> 'w state \<Rightarrow> (error, 'w state) res" where
  "append_creator_index a cid s =
    (let creator_count = get_creator_campaign_count s a;
         bucket_idx = creator_count div CREATOR_CAMPAIGNS_BUCKET_SIZE;
         bucket = get_creator_campaign_bucket s a bucket_idx @ [cid];
         s1 = set_creator_campaign_bucket a bucket_idx bucket s;
         s2 = set_creator_campaign_position a cid bucket_idx (length bucket - 1) s1 in
     and_then (unwrap (u32_checked_add creator_count 1)) (\<lambda>n.
     Ok (set_creator_campaign_count a n s2)))"

text \<open>The checks that precede the first write, in the source's order.\<close>

definition validate_campaign ::
  "('w, 'm) env_scheme \<Rightarrow> create_campaign_params \<Rightarrow> 'w state \<Rightarrow> (error, u32 \<times> bytes32) res" where
  "validate_campaign e p s =
    (and_then (require_auth e (p_creator p)) (\<lambda>_.
     and_then (require_not_paused s) (\<lambda>_.
     if get_creation_disabled s then Err CreationDisabled else
     if p_funding_goal p \<le> 0 then Err FundingGoalMustBePositive else
     if p_funding_goal p < get_min_campaign_funding_goal s CAMPAIGN_FUNDING_GOAL_MIN
     then Err FundingGoalTooLow else
     if get_max_campaign_funding_goal s CAMPAIGN_FUNDING_GOAL_MAX < p_funding_goal p
     then Err FundingGoalTooHigh else
     let duration_max = (case get_category_duration_cap s (p_category p) of
                           None \<Rightarrow> CAMPAIGN_DURATION_MAX_DAYS | Some d \<Rightarrow> d) in
     if \<not> (CAMPAIGN_DURATION_MIN_DAYS \<le> p_duration_days p \<and> p_duration_days p \<le> duration_max)
     then Err InvalidDuration else
     if length (p_title p) < CAMPAIGN_TITLE_MIN_LEN \<or> CAMPAIGN_TITLE_MAX_LEN < length (p_title p)
     then Err ValidationFailed else
     and_then (hash_text e (p_title p)) (\<lambda>title_hash.
     if creator_has_title s (p_creator p) title_hash then Err ValidationFailed else
     if length (p_description p) < CAMPAIGN_DESCRIPTION_MIN_LEN
        \<or> CAMPAIGN_DESCRIPTION_MAX_LEN < length (p_description p)
     then Err ValidationFailed else
     if p_category p \<noteq> EducationalStartup \<and> p_has_revenue_sharing p
     then Err RevenueShareOnlyForStartup else
     let share = (if \<not> p_has_revenue_sharing p then 0 else p_revenue_share_percentage p) in
     if REVENUE_SHARE_MAX_BPS < share then Err InvalidRevenueShare else
     if p_has_revenue_sharing p \<and> share = 0 then Err InvalidRevenueShare else
     if p_max_contribution_per_user p < 0 then Err ValidationFailed else
     Ok (share, title_hash)))))"

definition pinned_token ::
  "address option \<Rightarrow> 'w state \<Rightarrow> (error, address option) res" where
  "pinned_token tok s =
    (case tok of
       None \<Rightarrow> Ok None
     | Some t \<Rightarrow>
         (and_then (token_or_trap s) (\<lambda>platform.
          if t \<noteq> platform
          then (if \<not> is_token_explicitly_allowed s t then Err ValidationFailed else Ok (Some t))
          else Ok None)))"

definition new_campaign :: "create_campaign_params \<Rightarrow> u32 \<Rightarrow> u32 \<Rightarrow> u64 \<Rightarrow> campaign" where
  "new_campaign p cid share deadline =
    \<lparr>c_id = cid, c_creator = p_creator p, c_first_creator = p_creator p,
     c_pending_creator = NoPending, c_title = p_title p, c_description = p_description p,
     c_funding_goal = p_funding_goal p, c_deadline = deadline, c_amount_raised = 0,
     c_is_active = True, c_funds_withdrawn = False, c_is_cancelled = False,
     c_is_verified = False, c_category = p_category p,
     c_has_revenue_sharing = p_has_revenue_sharing p,
     c_revenue_share_percentage = share,
     c_max_contribution_per_user = p_max_contribution_per_user p,
     c_fee_override = None, c_deadline_extended = False, c_effective_amount_raised = 0\<rparr>"

definition create_campaign_inner ::
  "('w, 'm) env_scheme \<Rightarrow> create_campaign_params \<Rightarrow> address option \<Rightarrow> 'w state
   \<Rightarrow> (error, u32 \<times> 'w state) res" where
  "create_campaign_inner e p tok s =
    (and_then (validate_campaign e p s) (\<lambda>(share, title_hash).
     and_then (pinned_token tok s) (\<lambda>pinned.
     and_then (ok_or (u32_checked_add (get_campaign_count s) 1) Overflow) (\<lambda>count.
     and_then (calculate_deadline (e_timestamp e) (p_duration_days p)) (\<lambda>deadline.
     let c = new_campaign p count share deadline;
         s1 = set_campaign_vesting count (get_withdraw_release_delay_days s)
                (get_withdraw_reserve_percentage s) s;
         s2 = (case pinned of
                 None \<Rightarrow> s1
               | Some t \<Rightarrow> publish [Sym ''campaign_token_set'', U32 count] [Addr t]
                             (set_campaign_token count t s1));
         s3 = set_campaign count c s2;
         s4 = set_campaign_start_time count (e_timestamp e) s3;
         s5 = set_campaign_count count s4;
         s6 = set_revenue_pool count 0 s5 in
     and_then (append_category_index (p_category p) count s6) (\<lambda>s7.
     and_then (append_creator_index (p_creator p) count s7) (\<lambda>s8.
     let s9 = set_campaign_creator_index count (p_creator p) s8;
         s10 = set_creator_title_index (p_creator p) title_hash count s9 in
     Ok (count, publish [Sym ''campaign_created'', U32 count, Addr (p_creator p)]
                  [Str (p_title p), U32 (category_code (p_category p))] s10))))))))"

definition create_campaign ::
  "('w, 'm) env_scheme \<Rightarrow> create_campaign_params \<Rightarrow> 'w state \<Rightarrow> (error, u32 \<times> 'w state) res" where
  "create_campaign e p s = create_campaign_inner e p None s"

definition create_campaign_with_token ::
  "('w, 'm) env_scheme \<Rightarrow> create_campaign_params \<Rightarrow> address \<Rightarrow> 'w state
   \<Rightarrow> (error, u32 \<times> 'w state) res" where
  "create_campaign_with_token e p t s = create_campaign_inner e p (Some t) s"

section \<open>Refinement of the escrow\<close>

lemma append_indexes_core:
  "append_category_index cat cid s = Inr s' \<Longrightarrow> core s' = core s"
  "append_creator_index a cid s = Inr s' \<Longrightarrow> core s' = core s"
  by (auto simp: append_category_index_def append_creator_index_def Let_def res_simps core_frame)

lemma validate_campaign_ok:
  assumes "validate_campaign e p s = Inr (share, h)"
  shows "0 < p_funding_goal p" "1 \<le> p_duration_days p"
    "p_duration_days p \<le> (case get_category_duration_cap s (p_category p) of None \<Rightarrow> CAMPAIGN_DURATION_MAX_DAYS | Some d \<Rightarrow> d)"
    "if p_has_revenue_sharing p
     then p_category p = EducationalStartup \<and> share = p_revenue_share_percentage p \<and> 0 < share
     else share = 0"
    "share \<le> 5000" "0 \<le> p_max_contribution_per_user p" "\<not> get_creation_disabled s"
    "e_auth e (p_creator p)" "hash_text e (p_title p) = Inr h"
    "\<not> creator_has_title s (p_creator p) h" "\<not> paused_flag s"
  using assms
  unfolding validate_campaign_def
  by (simp_all only: Let_def res_simps) (auto simp: BPS_DENOMINATOR_def REVENUE_SHARE_MAX_BPS_def
      CAMPAIGN_DURATION_MIN_DAYS_def split: if_splits)

lemma new_campaign_fresh:
  assumes "validate_campaign e p s = Inr (share, h)"
    and caps: "\<forall>d. get_category_duration_cap s (p_category p) = Some d \<longrightarrow> d \<le> 365"
  shows "fresh_campaign (e_timestamp e)
    (new_campaign p n share (e_timestamp e + p_duration_days p * SECONDS_PER_DAY))"
proof -
  note facts = validate_campaign_ok [OF assms(1)]
  have "p_duration_days p \<le> 365" using facts(3) caps by (auto simp: CAMPAIGN_DURATION_MAX_DAYS_def split: option.splits)
  then show ?thesis
    using facts by (auto simp: fresh_campaign_def new_campaign_def SECONDS_PER_DAY_def split: if_splits)
qed

lemma create_campaign_inner_core:
  assumes "create_campaign_inner e p tok s = Inr (n, s')"
    and caps: "\<forall>d. get_category_duration_cap s (p_category p) = Some d \<longrightarrow> d \<le> 365"
  obtains share where "n = get_campaign_count s + 1"
    "fresh_campaign (e_timestamp e)
       (new_campaign p n share (e_timestamp e + p_duration_days p * SECONDS_PER_DAY))"
    "core s' = (core s)\<lparr>k_count := n,
       k_camp := (get_campaign s)(n \<mapsto>
         new_campaign p n share (e_timestamp e + p_duration_days p * SECONDS_PER_DAY)),
       k_start := (get_campaign_start_time s)(n \<mapsto> e_timestamp e)\<rparr>"
proof -
  from assms(1) have "\<exists>share h. validate_campaign e p s = Inr (share, h) \<and>
      n = get_campaign_count s + 1 \<and>
      core s' = (core s)\<lparr>k_count := n,
        k_camp := (get_campaign s)(n \<mapsto>
          new_campaign p n share (e_timestamp e + p_duration_days p * SECONDS_PER_DAY)),
        k_start := (get_campaign_start_time s)(n \<mapsto> e_timestamp e)\<rparr>"
    apply (simp only: create_campaign_inner_def Let_def res_simps prod.inject)
    apply clarify
    apply (drule append_indexes_core)+
    apply (rule exI, rule exI, intro conjI, assumption)
     apply (simp_all add: core_frame split: option.splits)
    done
  then obtain share h where "validate_campaign e p s = Inr (share, h)"
    and eq: "n = get_campaign_count s + 1"
      "core s' = (core s)\<lparr>k_count := n,
       k_camp := (get_campaign s)(n \<mapsto>
         new_campaign p n share (e_timestamp e + p_duration_days p * SECONDS_PER_DAY)),
       k_start := (get_campaign_start_time s)(n \<mapsto> e_timestamp e)\<rparr>"
    by blast
  from that [OF eq(1) new_campaign_fresh [OF this(1) caps] eq(2)] show thesis .
qed

section \<open>Frame\<close>

context escrow_observer
begin

lemma append_indexes_obs:
  "append_category_index cat cid s = Inr s' \<Longrightarrow> obs s' = obs s"
  "append_creator_index a cid s = Inr s' \<Longrightarrow> obs s' = obs s"
  by (auto simp: append_category_index_def append_creator_index_def Let_def res_simps obs_simps obs_creator obs_catalogue)

lemma create_campaign_inner_obs:
  "create_campaign_inner e p tok s = Inr (n, s') \<Longrightarrow> obs s' = obs s"
  apply (simp only: create_campaign_inner_def Let_def res_simps prod.inject)
  apply clarify
  apply (drule append_indexes_obs)+
  apply (simp add: obs_simps obs_creator obs_catalogue split: option.splits)
  done

end

section \<open>What a creation writes\<close>

lemma append_category_index_ok:
  "append_category_index cat cid s = Inr s' \<longleftrightarrow>
     get_category_campaign_count s cat + 1 \<le> u32_max \<and>
     s' = set_category_campaign_count cat (get_category_campaign_count s cat + 1)
       (set_category_campaign_bucket cat (get_category_campaign_count s cat div CATEGORY_CAMPAIGNS_BUCKET_SIZE)
         (get_category_campaign_bucket s cat (get_category_campaign_count s cat div CATEGORY_CAMPAIGNS_BUCKET_SIZE) @ [cid]) s)"
  by (auto simp: append_category_index_def Let_def res_simps)

lemma append_creator_index_ok:
  "append_creator_index a cid s = Inr s' \<longleftrightarrow>
     get_creator_campaign_count s a + 1 \<le> u32_max \<and>
     s' = set_creator_campaign_count a (get_creator_campaign_count s a + 1)
       (set_creator_campaign_position a cid (get_creator_campaign_count s a div CREATOR_CAMPAIGNS_BUCKET_SIZE)
         (length (get_creator_campaign_bucket s a (get_creator_campaign_count s a div CREATOR_CAMPAIGNS_BUCKET_SIZE)))
       (set_creator_campaign_bucket a (get_creator_campaign_count s a div CREATOR_CAMPAIGNS_BUCKET_SIZE)
         (get_creator_campaign_bucket s a (get_creator_campaign_count s a div CREATOR_CAMPAIGNS_BUCKET_SIZE) @ [cid]) s))"
  by (auto simp: append_creator_index_def Let_def res_simps)

text \<open>The writes before the indexes.\<close>

definition opened :: "('w, 'm) env_scheme \<Rightarrow> u32 \<Rightarrow> campaign \<Rightarrow> address option \<Rightarrow> 'w state \<Rightarrow> 'w state" where
  "opened e n c pinned s =
    (let s1 = set_campaign_vesting n (get_withdraw_release_delay_days s) (get_withdraw_reserve_percentage s) s;
         s2 = (case pinned of None \<Rightarrow> s1
               | Some t \<Rightarrow> publish [Sym ''campaign_token_set'', U32 n] [Addr t] (set_campaign_token n t s1)) in
     set_revenue_pool n 0 (set_campaign_count n (set_campaign_start_time n (e_timestamp e) (set_campaign n c s2))))"

lemma create_campaign_inner_writes:
  assumes "create_campaign_inner e p tok s = Inr (n, s')"
  obtains share h pinned s1 s2 where "validate_campaign e p s = Inr (share, h)"
    "pinned_token tok s = Inr pinned" "n = get_campaign_count s + 1"
    "append_category_index (p_category p) n
       (opened e n (new_campaign p n share (e_timestamp e + p_duration_days p * SECONDS_PER_DAY)) pinned s) = Inr s1"
    "append_creator_index (p_creator p) n s1 = Inr s2"
    "s' = publish [Sym ''campaign_created'', U32 n, Addr (p_creator p)]
        [Str (p_title p), U32 (category_code (p_category p))]
        (set_creator_title_index (p_creator p) h n (set_campaign_creator_index n (p_creator p) s2))"
  using assms unfolding create_campaign_inner_def opened_def Let_def
  by (simp only: res_simps prod.inject) blast

section \<open>Properties\<close>

declare One_nat_def [simp del]

lemma opened_reads:
  "get_campaign (opened e n c pinned s) = (get_campaign s)(n \<mapsto> c)"
  "get_campaign_count (opened e n c pinned s) = n"
  "get_campaign_start_time (opened e n c pinned s) n = Some (e_timestamp e)"
  "get_campaign_vesting (opened e n c pinned s) n =
     Some (get_withdraw_release_delay_days s, get_withdraw_reserve_percentage s)"
  "get_category_campaign_count (opened e n c pinned s) = get_category_campaign_count s"
  "get_category_campaign_bucket (opened e n c pinned s) = get_category_campaign_bucket s"
  "get_creator_campaign_count (opened e n c pinned s) = get_creator_campaign_count s"
  "get_creator_campaign_bucket (opened e n c pinned s) = get_creator_campaign_bucket s"
  "st_world (opened e n c pinned s) = st_world s"
  "get_total_raised_global (opened e n c pinned s) = get_total_raised_global s"
  by (simp_all add: opened_def Let_def store_defs fun_eq_iff split: option.split)

lemma append_indexes_reads:
  assumes "append_category_index cat cid s = Inr s1" "append_creator_index a cid s1 = Inr s2"
    "b = get_creator_campaign_count s a div CREATOR_CAMPAIGNS_BUCKET_SIZE"
    "k = get_category_campaign_count s cat div CATEGORY_CAMPAIGNS_BUCKET_SIZE"
  shows "get_campaign s2 = get_campaign s" "get_campaign_count s2 = get_campaign_count s"
    "get_campaign_start_time s2 = get_campaign_start_time s" "get_campaign_vesting s2 = get_campaign_vesting s"
    "get_category_campaign_count s2 = (get_category_campaign_count s)(cat := get_category_campaign_count s cat + 1)"
    "get_category_campaign_bucket s2 cat = (get_category_campaign_bucket s cat)
       (k := get_category_campaign_bucket s cat k @ [cid])"
    "get_creator_campaign_count s2 = (get_creator_campaign_count s)(a := get_creator_campaign_count s a + 1)"
    "get_creator_campaign_bucket s2 a = (get_creator_campaign_bucket s a)
       (b := get_creator_campaign_bucket s a b @ [cid])"
    "get_creator_campaign_position s2 a cid = Some (b, length (get_creator_campaign_bucket s a b))"
    "st_world s2 = st_world s" "get_total_raised_global s2 = get_total_raised_global s"
proof -
  define bucket where "bucket = get_category_campaign_bucket s cat k"
  have s1: "s1 = set_category_campaign_count cat (get_category_campaign_count s cat + 1)
      (set_category_campaign_bucket cat k (bucket @ [cid]) s)"
    using assms(1) by (simp add: append_category_index_ok assms(4) bucket_def)
  have same: "get_creator_campaign_count s1 = get_creator_campaign_count s"
    "get_creator_campaign_bucket s1 = get_creator_campaign_bucket s"
    unfolding s1 by (simp_all add: store_defs fun_eq_iff)
  define mine where "mine = get_creator_campaign_bucket s a b"
  have s2: "s2 = set_creator_campaign_count a (get_creator_campaign_count s a + 1)
      (set_creator_campaign_position a cid b (length mine) (set_creator_campaign_bucket a b (mine @ [cid]) s1))"
    using assms(2) by (simp add: append_creator_index_ok same assms(3) mine_def)
  show "get_campaign s2 = get_campaign s" "get_campaign_count s2 = get_campaign_count s"
    "get_campaign_start_time s2 = get_campaign_start_time s" "get_campaign_vesting s2 = get_campaign_vesting s"
    "get_category_campaign_count s2 = (get_category_campaign_count s)(cat := get_category_campaign_count s cat + 1)"
    "get_category_campaign_bucket s2 cat = (get_category_campaign_bucket s cat)
       (k := get_category_campaign_bucket s cat k @ [cid])"
    "get_creator_campaign_count s2 = (get_creator_campaign_count s)(a := get_creator_campaign_count s a + 1)"
    "get_creator_campaign_bucket s2 a = (get_creator_campaign_bucket s a)
       (b := get_creator_campaign_bucket s a b @ [cid])"
    "get_creator_campaign_position s2 a cid = Some (b, length (get_creator_campaign_bucket s a b))"
    "st_world s2 = st_world s" "get_total_raised_global s2 = get_total_raised_global s"
    unfolding s2 s1 bucket_def mine_def by (simp_all add: store_defs category_code_inj fun_eq_iff)
qed


definition second_params :: create_campaign_params where
  "second_params = \<lparr>p_creator = Address 2, p_title = ''Second'', p_description = ''D'',
     p_funding_goal = 200000, p_duration_days = 30, p_category = Learner, p_has_revenue_sharing = False,
     p_revenue_share_percentage = 0, p_max_contribution_per_user = 0\<rparr>"

lemma second_created: "is_ok (create_campaign_inner (demo_env 3000) second_params None demo_state)"
  by (simp only: create_campaign_inner_def validate_campaign_def)
    (simp add: second_params_def pinned_token_def append_category_index_def append_creator_index_def
      hash_text_def new_campaign_def eval_simps)


end
