(* ===== verification/Withdraw.thy ===== *)
theory Withdraw
  imports Purse Example
begin

text \<open>
  \<^verbatim>\<open>src/campaigns/withdraw.rs\<close>: withdrawal of raised funds with the platform fee and
  the vesting reserve, release of the reserve, and the vesting parameters.
\<close>

section \<open>Operations\<close>

text \<open>
  Ceiling of a basis-point share, with the checked arithmetic of the source; the
  fee and the reserve of \<open>withdraw_funds\<close> are both computed by this expression.
\<close>

definition ceil_bps :: "i128 \<Rightarrow> u32 \<Rightarrow> (error, i128) res" where
  "ceil_bps amt bps =
    (and_then (ok_or (i128_checked_mul amt (int bps)) Overflow) (\<lambda>n.
     and_then (ok_or (i128_checked_add n BPS_CEIL_OFFSET) Overflow) (\<lambda>m.
     Ok (m sdiv int BPS_DENOMINATOR))))"

definition effective_platform_fee :: "campaign \<Rightarrow> 'w state \<Rightarrow> u32" where
  "effective_platform_fee c s =
    (case c_fee_override c of None \<Rightarrow> get_platform_fee s | Some fee \<Rightarrow> fee)"

definition vesting_params :: "u32 \<Rightarrow> 'w state \<Rightarrow> u64 \<times> u32" where
  "vesting_params cid s =
    (case get_campaign_vesting s cid of
       None \<Rightarrow> (get_withdraw_release_delay_days s, get_withdraw_reserve_percentage s)
     | Some v \<Rightarrow> v)"

text \<open>
  The subtractions \<open>effective - fee\<close> and \<open>total_after_fee - reserve\<close> are unchecked in the
  source: they trap out of range.
\<close>

definition sub_or_trap :: "i128 \<Rightarrow> i128 \<Rightarrow> (error, i128) res" where
  "sub_or_trap a b = (and_then (unwrap (i128_checked_sub a b)) (\<lambda>x. Ok x))"

text \<open>The reserve entry of a withdrawal at time \<open>now\<close>; \<open>delay_days * SECONDS_PER_DAY\<close> is unchecked.\<close>

definition hold_reserve ::
  "u32 \<Rightarrow> u64 \<Rightarrow> u64 \<Rightarrow> i128 \<Rightarrow> 'w state \<Rightarrow> (error, 'w state) res" where
  "hold_reserve cid now delay_days reserve_amount s =
    (if 0 < reserve_amount
     then (and_then (unwrap (u64_checked_mul delay_days SECONDS_PER_DAY)) (\<lambda>secs.
           and_then (ok_or (u64_checked_add now secs) Overflow) (\<lambda>release.
           Ok (set_campaign_reserve cid
                 \<lparr>r_amount = reserve_amount, r_release_timestamp = release, r_released = False\<rparr> s))))
     else Ok s)"

definition fee_recipient_or_admin :: "u32 \<Rightarrow> 'w state \<Rightarrow> (error, address) res" where
  "fee_recipient_or_admin cid s =
    (case get_campaign_fee_recipient s cid of None \<Rightarrow> admin_or_trap s | Some a \<Rightarrow> Ok a)"

definition withdraw_funds ::
  "('w, 'm) env_scheme \<Rightarrow> u32 \<Rightarrow> 'w state \<Rightarrow> (error, 'w state) res" where
  "withdraw_funds e cid s =
    (and_then (get_creator_campaign e s cid) (\<lambda>c.
     and_then (require_not_paused s) (\<lambda>_.
     if get_campaign_milestones s cid \<noteq> [] then Err ValidationFailed else
     if \<not> c_is_verified c then Err CampaignNotVerified else
     if c_is_cancelled c then Err CampaignNotActive else
     if c_funds_withdrawn c then Err FundsAlreadyWithdrawn else
     if c_amount_raised c = 0 then Err NoFundsToWithdraw else
     if c_amount_raised c < c_funding_goal c then Err FundingGoalNotReached else
     and_then (transition (campaign_state_of c) Withdrawn) (\<lambda>_.
     let platform_fee = effective_platform_fee c s in
     and_then (ceil_bps (c_effective_amount_raised c) platform_fee) (\<lambda>fee_amount.
     and_then (sub_or_trap (c_effective_amount_raised c) fee_amount) (\<lambda>total_after_fee.
     let (delay_days, reserve_bps) = vesting_params cid s in
     and_then (ceil_bps total_after_fee reserve_bps) (\<lambda>reserve_amount.
     and_then (sub_or_trap total_after_fee reserve_amount) (\<lambda>creator_amount.
     let s1 = set_campaign cid (c\<lparr>c_funds_withdrawn := True, c_is_active := False\<rparr>) s;
         s2 = decrement_active_campaign_count s1 in
     and_then (hold_reserve cid (e_timestamp e) delay_days reserve_amount s2) (\<lambda>s3.
     and_then (sub_or_trap (c_effective_amount_raised c) reserve_amount) (\<lambda>paid_out.
     and_then (ok_or (i128_checked_sub (get_total_raised_global s3) paid_out) Overflow) (\<lambda>tot.
     let s4 = set_total_raised_global tot s3 in
     and_then (fee_recipient_or_admin cid s4) (\<lambda>fee_recipient.
     and_then (campaign_token_client s4 cid) (\<lambda>tok.
     and_then (transfer e tok (h_self e) fee_recipient fee_amount s4) (\<lambda>s5.
     and_then (transfer e tok (h_self e) (c_creator c) creator_amount s5) (\<lambda>s6.
     let s7 = publish [Sym ''withdrawal'', U32 cid, Addr (c_creator c)]
                [U32 platform_fee, I128 creator_amount, I128 reserve_amount] s6;
         s8 = publish [Sym ''withdrawal_fee_paid'', U32 cid] [Addr fee_recipient, I128 fee_amount] s7 in
     Ok (if 0 < reserve_amount
         then publish [Sym ''reserve_withheld'', U32 cid] [I128 reserve_amount] s8
         else s8))))))))))))))))"

definition withdraw_reserve ::
  "('w, 'm) env_scheme \<Rightarrow> u32 \<Rightarrow> 'w state \<Rightarrow> (error, 'w state) res" where
  "withdraw_reserve e cid s =
    (and_then (ok_or (get_campaign_reserve s cid) NoFundsToWithdraw) (\<lambda>r.
     and_then (require_not_paused s) (\<lambda>_.
     if r_released r then Err FundsAlreadyWithdrawn else
     if e_timestamp e < r_release_timestamp r then Err ValidationFailed else
     and_then (get_campaign_or_error s cid) (\<lambda>c.
     if \<not> c_funds_withdrawn c then Err ValidationFailed else
     and_then (require_auth e (c_creator c)) (\<lambda>_.
     let s1 = set_campaign_reserve cid (r\<lparr>r_released := True\<rparr>) s in
     and_then (ok_or (i128_checked_sub (get_total_raised_global s1) (r_amount r)) Overflow) (\<lambda>tot.
     let s2 = set_total_raised_global tot s1 in
     and_then (campaign_token_client s2 cid) (\<lambda>tok.
     and_then (transfer e tok (h_self e) (c_creator c) (r_amount r) s2) (\<lambda>s3.
     Ok (publish [Sym ''reserve_released'', U32 cid, Addr (c_creator c)] [I128 (r_amount r)] s3)))))))))"

definition set_vesting_params ::
  "('w, 'm) env_scheme \<Rightarrow> address \<Rightarrow> u64 \<Rightarrow> u32 \<Rightarrow> 'w state \<Rightarrow> (error, 'w state) res" where
  "set_vesting_params e admin delay_days reserve_bps s =
    (and_then (assert_admin e admin s) (\<lambda>_.
     and_then (require_not_paused s) (\<lambda>_.
     if BPS_DENOMINATOR < reserve_bps \<or> 365 < delay_days then Err ValidationFailed else
     if delay_days = 0 \<and> 0 < reserve_bps then Err InvalidVestingDelay else
     let s1 = set_withdraw_release_delay_days delay_days s;
         s2 = set_withdraw_reserve_percentage reserve_bps s1 in
     Ok (if delay_days = 0 \<and> reserve_bps = 0
         then publish [Sym ''vesting_disabled'', Addr admin] [] s2
         else publish [Sym ''vesting_params_updated'', Addr admin]
                [U64 delay_days, U32 reserve_bps] s2))))"

section \<open>Refinement of the escrow\<close>

lemma hold_reserve_core: "hold_reserve cid now days amt s = Inr s' \<Longrightarrow> core s' = core s"
  by (auto simp: hold_reserve_def res_simps core_frame split: if_splits)

lemma withdraw_funds_core:
  assumes "withdraw_funds e cid s = Inr s'"
  obtains c where "get_campaign s cid = Some c" "e_auth e (c_creator c)"
    "c_is_verified c" "\<not> c_is_cancelled c" "\<not> c_funds_withdrawn c" "c_amount_raised c \<noteq> 0"
    "c_funding_goal c \<le> c_amount_raised c" "core s' = k_withdraw cid c (core s)"
proof -
  have "\<exists>c. get_campaign s cid = Some c \<and> e_auth e (c_creator c) \<and>
    c_is_verified c \<and> \<not> c_is_cancelled c \<and> \<not> c_funds_withdrawn c \<and> c_amount_raised c \<noteq> 0 \<and>
    c_funding_goal c \<le> c_amount_raised c \<and> core s' = k_withdraw cid c (core s)"
    using assms
    apply (simp only: withdraw_funds_def Let_def res_simps not_not de_Morgan_disj)
    apply clarify
    apply (drule hold_reserve_core)+
    apply (rule exI, intro conjI, assumption)
    apply (simp_all add: core_frame k_withdraw_def not_less split: if_splits)
    done
  then show thesis using that by blast
qed

lemma withdraw_funds_step:
  "withdraw_funds e cid s = Inr s' \<Longrightarrow> core_step (e_timestamp e) (core s) (core s')"
  by (erule withdraw_funds_core) (auto intro: core_step.withdrawn simp: core_fields)

lemma withdraw_reserve_core: "withdraw_reserve e cid s = Inr s' \<Longrightarrow> core s' = core s"
  by (simp only: withdraw_reserve_def Let_def res_simps, safe) (simp_all add: core_frame)

lemma set_vesting_params_core: "set_vesting_params e a days bps s = Inr s' \<Longrightarrow> core s' = core s"
  by (auto simp: set_vesting_params_def Let_def res_simps core_frame split: if_splits)

section \<open>Frame\<close>

context fund_observer
begin

lemma hold_reserve_obs: "hold_reserve cid now days amt s = Inr s' \<Longrightarrow> obs s' = obs s"
  by (auto simp: hold_reserve_def res_simps obs_simps split: if_splits)

lemma withdraw_obs:
  "withdraw_funds e cid s = Inr s' \<Longrightarrow> obs s' = obs s"
  "withdraw_reserve e cid s = Inr s' \<Longrightarrow> obs s' = obs s"
  subgoal
    by (simp only: withdraw_funds_def Let_def res_simps not_not, clarify, drule hold_reserve_obs)
       (simp add: obs_simps)
  by (simp only: withdraw_reserve_def Let_def res_simps, safe) (simp add: obs_simps)

end

section \<open>Rounding\<close>

lemma ceil_bps_eq:
  assumes "ceil_bps amt bps = Inr n" "0 \<le> amt"
  shows "n = (amt * int bps + 9999) div 10000"
  using assms by (auto simp: ceil_bps_def res_simps const_defs)

lemma ceil_bps_bounds:
  assumes "ceil_bps amt bps = Inr n" "0 \<le> amt" "bps \<le> BPS_DENOMINATOR"
  shows "0 \<le> n" "n \<le> amt" "amt * int bps \<le> n * 10000" "n * 10000 < amt * int bps + 10000"
proof -
  have n: "n = (amt * int bps + 9999) div 10000" by (rule ceil_bps_eq [OF assms(1, 2)])
  have "0 \<le> amt * int bps" using assms(2) by simp
  moreover have "amt * int bps \<le> amt * 10000"
    using assms(2, 3) by (intro mult_left_mono) (simp_all add: BPS_DENOMINATOR_def)
  ultimately show "0 \<le> n" "n \<le> amt" "amt * int bps \<le> n * 10000" "n * 10000 < amt * int bps + 10000"
    unfolding n by linarith+
qed

lemma sub_or_trap_eq [res_simps]: "sub_or_trap a b = Inr c \<longleftrightarrow> c = a - b \<and> in_i128 (a - b)"
  by (auto simp: sub_or_trap_def res_simps)

section \<open>The token side\<close>

lemma hold_reserve_eq:
  assumes "hold_reserve cid now days amt s = Inr s'"
  shows "s' = (if 0 < amt then set_campaign_reserve cid
      \<lparr>r_amount = amt, r_release_timestamp = now + days * SECONDS_PER_DAY, r_released = False\<rparr> s else s)"
  using assms by (auto simp: hold_reserve_def res_simps split: if_splits)

lemma fee_recipient_eq:
  "fee_recipient_or_admin cid s = Inr a \<longleftrightarrow>
     p_fee_to (purse s) cid = Some a \<or> p_fee_to (purse s) cid = None \<and> p_admin (purse s) = Some a"
  by (auto simp: fee_recipient_or_admin_def purse_token purse_fields res_simps split: option.splits)

lemma withdraw_funds_purse:
  assumes "withdraw_funds e cid s = Inr s'" "get_campaign s cid = Some c"
  obtains fee reserve tok to w where
    "ceil_bps (c_effective_amount_raised c) (effective_platform_fee c s) = Inr fee"
    "ceil_bps (c_effective_amount_raised c - fee) (snd (vesting_params cid s)) = Inr reserve"
    "fee_recipient_or_admin cid s = Inr to" "get_campaign_token s cid = Some tok"
    "h_transfer e tok (h_self e) to fee (st_world s) = Some w"
    "h_transfer e tok (h_self e) (c_creator c)
       (c_effective_amount_raised c - fee - reserve) w = Some (st_world s')"
    "get_total_raised_global s' =
       get_total_raised_global s - (c_effective_amount_raised c - reserve)"
    "get_campaign_reserve s' = (if 0 < reserve then (get_campaign_reserve s)(cid \<mapsto>
       \<lparr>r_amount = reserve, r_release_timestamp = e_timestamp e + fst (vesting_params cid s) * SECONDS_PER_DAY,
        r_released = False\<rparr>) else get_campaign_reserve s)"
proof -
  have "\<exists>fee reserve tok to w.
    ceil_bps (c_effective_amount_raised c) (effective_platform_fee c s) = Inr fee \<and>
    ceil_bps (c_effective_amount_raised c - fee) (snd (vesting_params cid s)) = Inr reserve \<and>
    fee_recipient_or_admin cid s = Inr to \<and> p_token (purse s) cid = Some tok \<and>
    h_transfer e tok (h_self e) to fee (p_world (purse s)) = Some w \<and>
    h_transfer e tok (h_self e) (c_creator c)
       (c_effective_amount_raised c - fee - reserve) w = Some (p_world (purse s')) \<and>
    p_total (purse s') = p_total (purse s) - (c_effective_amount_raised c - reserve) \<and>
    p_reserve (purse s') = (if 0 < reserve then (p_reserve (purse s))(cid \<mapsto>
       \<lparr>r_amount = reserve, r_release_timestamp = e_timestamp e + fst (vesting_params cid s) * SECONDS_PER_DAY,
        r_released = False\<rparr>) else p_reserve (purse s))"
    using assms
    apply (simp only: withdraw_funds_def Let_def res_simps not_not fee_recipient_eq purse_reads)
    apply clarify
    apply (drule hold_reserve_eq)
    apply (simp_all add: purse_frame fee_recipient_eq split: if_splits)
     apply blast+
    done
  then show thesis using that unfolding purse_fields by blast
qed

lemma withdraw_reserve_purse:
  assumes "withdraw_reserve e cid s = Inr s'"
  obtains c r tok where "get_campaign s cid = Some c" "get_campaign_reserve s cid = Some r"
    "\<not> r_released r" "r_release_timestamp r \<le> e_timestamp e" "c_funds_withdrawn c" "e_auth e (c_creator c)"
    "get_campaign_token s cid = Some tok"
    "h_transfer e tok (h_self e) (c_creator c) (r_amount r) (st_world s) = Some (st_world s')"
    "get_total_raised_global s' = get_total_raised_global s - r_amount r"
    "get_campaign_reserve s' = (get_campaign_reserve s)(cid \<mapsto> r\<lparr>r_released := True\<rparr>)"
proof -
  have "\<exists>c r tok. get_campaign s cid = Some c \<and> p_reserve (purse s) cid = Some r \<and>
    \<not> r_released r \<and> r_release_timestamp r \<le> e_timestamp e \<and> c_funds_withdrawn c \<and> e_auth e (c_creator c) \<and>
    p_token (purse s) cid = Some tok \<and>
    h_transfer e tok (h_self e) (c_creator c) (r_amount r) (p_world (purse s)) = Some (p_world (purse s')) \<and>
    p_total (purse s') = p_total (purse s) - r_amount r \<and>
    p_reserve (purse s') = (p_reserve (purse s))(cid \<mapsto> r\<lparr>r_released := True\<rparr>)"
    using assms
    by (simp only: withdraw_reserve_def Let_def res_simps not_not not_less purse_reads, clarify)
      (simp add: purse_frame core_frame)
  then show thesis using that unfolding purse_fields by blast
qed

section \<open>Properties\<close>

declare One_nat_def [simp del]

text \<open>
  C9: A withdrawal splits the escrow exactly. A successful \<open>withdraw_funds\<close> computes the fee as the
  ceiling of the fee rate on the effective amount and the reserve as the ceiling of the reserve
  rate on the rest; fee, reserve and payout are non-negative and add up to the effective amount; it
  pays the fee, then the payout to the creator, from the contract in the campaign's currency,
  takes both off the global total, and records the reserve with its release time. The effective amount
  is non-negative and both rates are at most all of it, as in every reachable state.
\<close>

theorem withdrawal_splits:
  assumes "withdraw_funds e cid s = Inr s'" "get_campaign s cid = Some c"
    "0 \<le> c_effective_amount_raised c" "effective_platform_fee c s \<le> BPS_DENOMINATOR"
    "vesting_params cid s = (days, bps)" "bps \<le> BPS_DENOMINATOR"
  shows "\<exists>fee reserve payout tok to w.
    fee + reserve + payout = c_effective_amount_raised c \<and> 0 \<le> fee \<and> 0 \<le> reserve \<and> 0 \<le> payout \<and>
    fee = (c_effective_amount_raised c * int (effective_platform_fee c s) + 9999) div 10000 \<and>
    reserve = ((c_effective_amount_raised c - fee) * int bps + 9999) div 10000 \<and>
    get_campaign_token s cid = Some tok \<and> fee_recipient_or_admin cid s = Inr to \<and>
    h_transfer e tok (h_self e) to fee (st_world s) = Some w \<and>
    h_transfer e tok (h_self e) (c_creator c) payout w = Some (st_world s') \<and>
    get_total_raised_global s' = get_total_raised_global s - fee - payout \<and>
    (0 < reserve \<longrightarrow> get_campaign_reserve s' cid = Some \<lparr>r_amount = reserve,
       r_release_timestamp = e_timestamp e + days * SECONDS_PER_DAY, r_released = False\<rparr>)"
proof -
  from withdraw_funds_purse [OF assms(1, 2)] assms(5) obtain fee reserve tok to w where
    fee: "ceil_bps (c_effective_amount_raised c) (effective_platform_fee c s) = Inr fee"
    and res: "ceil_bps (c_effective_amount_raised c - fee) bps = Inr reserve"
    and rest: "fee_recipient_or_admin cid s = Inr to" "get_campaign_token s cid = Some tok"
    "h_transfer e tok (h_self e) to fee (st_world s) = Some w"
    "h_transfer e tok (h_self e) (c_creator c)
       (c_effective_amount_raised c - fee - reserve) w = Some (st_world s')"
    "get_total_raised_global s' = get_total_raised_global s - (c_effective_amount_raised c - reserve)"
    "get_campaign_reserve s' = (if 0 < reserve then (get_campaign_reserve s)(cid \<mapsto>
       \<lparr>r_amount = reserve, r_release_timestamp = e_timestamp e + days * SECONDS_PER_DAY,
        r_released = False\<rparr>) else get_campaign_reserve s)"
    by (metis fst_conv snd_conv)
  have f: "0 \<le> fee" "fee \<le> c_effective_amount_raised c"
    using ceil_bps_bounds [OF fee assms(3, 4)] by simp_all
  have r: "0 \<le> reserve" "reserve \<le> c_effective_amount_raised c - fee"
    using ceil_bps_bounds [OF res _ assms(6)] f by simp_all
  let ?pay = "c_effective_amount_raised c - fee - reserve"
  have sum: "fee + reserve + ?pay = c_effective_amount_raised c" by simp
  have pay: "0 \<le> ?pay" using r by simp
  have eqs: "fee = (c_effective_amount_raised c * int (effective_platform_fee c s) + 9999) div 10000"
    "reserve = ((c_effective_amount_raised c - fee) * int bps + 9999) div 10000"
    using ceil_bps_eq [OF fee assms(3)] ceil_bps_eq [OF res] f by simp_all
  have tot: "get_total_raised_global s' = get_total_raised_global s - fee - ?pay"
    using rest(5) by simp
  have held: "0 < reserve \<longrightarrow> get_campaign_reserve s' cid = Some \<lparr>r_amount = reserve,
       r_release_timestamp = e_timestamp e + days * SECONDS_PER_DAY, r_released = False\<rparr>"
    using rest(6) by simp
  show ?thesis
    by (intro exI conjI) (fact sum f(1) r(1) pay eqs rest(2) rest(1) rest(3) rest(4) tot held)+
qed

theorem withdrawal_splits_witness:
  "\<exists>s'. withdraw_funds (demo_env 900000) 1 demo_state = Inr s' \<and> get_total_raised_global s' = 19400"
proof -
  let ?r = "withdraw_funds (demo_env 900000) 1 demo_state"
  have "is_ok ?r"
    by (simp only: withdraw_funds_def)
      (simp add: ceil_bps_def effective_platform_fee_def sub_or_trap_def vesting_params_def
        hold_reserve_def fee_recipient_or_admin_def eval_simps)
  then obtain s' where s': "?r = Inr s'" by (rule is_okE)
  have "vesting_params 1 demo_state = (30, 2000)" "effective_platform_fee demo_campaign demo_state = 300"
    by (simp_all add: vesting_params_def effective_platform_fee_def eval_simps)
  with withdrawal_splits [OF s' demo_facts(1)] s' show ?thesis
    by (auto simp: demo_facts demo_campaign_def BPS_DENOMINATOR_def)
qed

text \<open>
  The reserve is released once, to the creator, not before its time. A successful
  \<open>withdraw_reserve\<close> on a withdrawn campaign pays exactly the recorded reserve, takes it off the
  global total and marks it released; after it every \<open>withdraw_reserve\<close> on that state fails with
  \<open>FundsAlreadyWithdrawn\<close>, or \<open>ContractPaused\<close> while paused.
\<close>

lemma reserve_released_once:
  assumes "withdraw_reserve e cid s = Inr s'"
  shows "(\<exists>c r tok. get_campaign s cid = Some c \<and> get_campaign_reserve s cid = Some r \<and>
      \<not> r_released r \<and> r_release_timestamp r \<le> e_timestamp e \<and> c_funds_withdrawn c \<and> e_auth e (c_creator c) \<and>
      get_campaign_token s cid = Some tok \<and>
      h_transfer e tok (h_self e) (c_creator c) (r_amount r) (st_world s) = Some (st_world s') \<and>
      get_total_raised_global s' = get_total_raised_global s - r_amount r) \<and>
    withdraw_reserve e' cid s' =
      (if paused_flag s' \<or> auto_paused_flag s' then Err ContractPaused else Err FundsAlreadyWithdrawn)"
proof -
  from withdraw_reserve_purse [OF assms] obtain c r tok where
    *: "get_campaign s cid = Some c" "get_campaign_reserve s cid = Some r"
    "\<not> r_released r" "r_release_timestamp r \<le> e_timestamp e" "c_funds_withdrawn c" "e_auth e (c_creator c)"
    "get_campaign_token s cid = Some tok"
    "h_transfer e tok (h_self e) (c_creator c) (r_amount r) (st_world s) = Some (st_world s')"
    "get_total_raised_global s' = get_total_raised_global s - r_amount r"
    and r: "get_campaign_reserve s' = (get_campaign_reserve s)(cid \<mapsto> r\<lparr>r_released := True\<rparr>)" by metis
  have "withdraw_reserve e' cid s' =
      (if paused_flag s' \<or> auto_paused_flag s' then Err ContractPaused else Err FundsAlreadyWithdrawn)"
    by (simp add: withdraw_reserve_def r require_not_paused_def)
  with * show ?thesis by blast
qed

end
