(* ===== verification/Milestones.thy ===== *)
theory Milestones
  imports Withdraw
begin

text \<open>
  \<^verbatim>\<open>src/milestones.rs\<close>: a campaign's payouts split over milestones that the admin
  verifies and the creator claims one by one.
\<close>

section \<open>Operations\<close>

definition MAX_MILESTONES :: u32 where [const_defs]: "MAX_MILESTONES = 10"

text \<open>The validation loop of \<open>set_milestones\<close>: the ids seen and the basis points so far.\<close>

primrec check_milestones :: "milestone list \<Rightarrow> u32 list \<Rightarrow> u32 \<Rightarrow> (error, u32) res" where
  "check_milestones [] seen_ids total_bps = Ok total_bps"
| "check_milestones (m # ms) seen_ids total_bps =
    (if m_payout_bps m = 0 \<or> BPS_DENOMINATOR < m_payout_bps m then Err ValidationFailed else
     if length (m_description m) = 0 then Err ValidationFailed else
     if m_id m \<in> set seen_ids then Err ValidationFailed else
     and_then (ok_or (u32_checked_add total_bps (m_payout_bps m)) Overflow) (\<lambda>total'.
     check_milestones ms (seen_ids @ [m_id m]) total'))"

definition set_milestones ::
  "('w, 'm) env_scheme \<Rightarrow> u32 \<Rightarrow> milestone list \<Rightarrow> 'w state \<Rightarrow> (error, 'w state) res" where
  "set_milestones e cid ms s =
    and_then (get_campaign_or_error s cid) (\<lambda>c.
    and_then (require_auth e (c_creator c)) (\<lambda>_.
    and_then (require_not_paused s) (\<lambda>_.
    if c_is_cancelled c \<or> c_funds_withdrawn c then Err CampaignNotActive else
    if ms = [] \<or> MAX_MILESTONES < length ms then Err ValidationFailed else
    if get_campaign_milestones s cid \<noteq> [] then Err ValidationFailed else
    and_then (check_milestones ms [] 0) (\<lambda>total_bps.
    if total_bps \<noteq> BPS_DENOMINATOR then Err ValidationFailed else
    let normalized = map (\<lambda>m. m\<lparr>m_verified := False\<rparr>) ms in
    Ok (publish [Sym ''milestones_set'', U32 cid] [U32 (length normalized)]
          (set_campaign_milestones cid normalized s))))))"

text \<open>The rebuilding loop of \<open>verify_milestone\<close>: the new list and whether the id was found.\<close>

primrec mark_milestone ::
  "u32 \<Rightarrow> milestone list \<Rightarrow> bool \<Rightarrow> milestone list \<Rightarrow> (error, bool \<times> milestone list) res" where
  "mark_milestone mid [] found updated = Ok (found, updated)"
| "mark_milestone mid (m # ms) found updated =
    (if m_id m = mid
     then (if m_verified m then Err ValidationFailed
           else mark_milestone mid ms True (updated @ [m\<lparr>m_verified := True\<rparr>]))
     else mark_milestone mid ms found (updated @ [m]))"

definition verify_milestone ::
  "('w, 'm) env_scheme \<Rightarrow> address \<Rightarrow> u32 \<Rightarrow> u32 \<Rightarrow> 'w state \<Rightarrow> (error, 'w state) res" where
  "verify_milestone e admin cid mid s =
    and_then (assert_admin e admin s) (\<lambda>_.
    and_then (require_not_paused s) (\<lambda>_.
    and_then (get_campaign_or_error s cid) (\<lambda>c.
    if c_is_cancelled c then Err CampaignNotActive else
    let milestones = get_campaign_milestones s cid in
    if milestones = [] then Err MilestoneNotFound else
    and_then (mark_milestone mid milestones False []) (\<lambda>(found, updated).
    if \<not> found then Err MilestoneNotFound else
    Ok (publish [Sym ''milestone_verified'', U32 cid, U32 mid] []
          (set_campaign_milestones cid updated s))))))"

text \<open>\<open>amount * bps / 10000\<close>, the product checked.\<close>

definition floor_bps :: "i128 \<Rightarrow> u32 \<Rightarrow> (error, i128) res" where
  "floor_bps amt bps =
    and_then (ok_or (i128_checked_mul amt (int bps)) Overflow) (\<lambda>n.
    Ok (n sdiv int BPS_DENOMINATOR))"

text \<open>
  The two summing loops of \<open>claim_milestone\<close>: basis points and amounts of the
  milestones already claimed, and the fee slices paid with them.
\<close>

primrec claimed_so_far ::
  "'w state \<Rightarrow> u32 \<Rightarrow> i128 \<Rightarrow> milestone list \<Rightarrow> u32 \<Rightarrow> i128 \<Rightarrow> (error, u32 \<times> i128) res" where
  "claimed_so_far s cid after_fee [] claimed_bps claimed_amount = Ok (claimed_bps, claimed_amount)"
| "claimed_so_far s cid after_fee (m # ms) claimed_bps claimed_amount =
    (if is_milestone_claimed s cid (m_id m)
     then and_then (ok_or (u32_checked_add claimed_bps (m_payout_bps m)) Overflow) (\<lambda>bps'.
          and_then (floor_bps after_fee (m_payout_bps m)) (\<lambda>amt.
          and_then (ok_or (i128_checked_add claimed_amount amt) Overflow) (\<lambda>amount'.
          claimed_so_far s cid after_fee ms bps' amount')))
     else claimed_so_far s cid after_fee ms claimed_bps claimed_amount)"

primrec fee_claimed_so_far ::
  "'w state \<Rightarrow> u32 \<Rightarrow> i128 \<Rightarrow> milestone list \<Rightarrow> i128 \<Rightarrow> (error, i128) res" where
  "fee_claimed_so_far s cid fee_total [] acc = Ok acc"
| "fee_claimed_so_far s cid fee_total (m # ms) acc =
    (if is_milestone_claimed s cid (m_id m)
     then and_then (floor_bps fee_total (m_payout_bps m)) (\<lambda>f.
          and_then (ok_or (i128_checked_add acc f) Overflow) (\<lambda>acc'.
          fee_claimed_so_far s cid fee_total ms acc'))
     else fee_claimed_so_far s cid fee_total ms acc)"

text \<open>
  What a claim of milestone \<open>m\<close> pays: \<open>(claimable, fee_claim)\<close>. The last unclaimed
  milestone takes what is left of both totals.
\<close>

definition milestone_payout ::
  "'w state \<Rightarrow> u32 \<Rightarrow> campaign \<Rightarrow> milestone list \<Rightarrow> milestone \<Rightarrow> (error, i128 \<times> i128) res" where
  "milestone_payout s cid c milestones m =
    and_then (ceil_bps (c_amount_raised c) (effective_platform_fee c s)) (\<lambda>fee_total.
    and_then (sub_or_trap (c_amount_raised c) fee_total) (\<lambda>total_after_fee.
    and_then (claimed_so_far s cid total_after_fee milestones 0 0) (\<lambda>(claimed_bps, claimed_amount).
    and_then (floor_bps total_after_fee (m_payout_bps m)) (\<lambda>claimable0.
    and_then (ok_or (u32_checked_sub BPS_DENOMINATOR claimed_bps) Overflow) (\<lambda>remaining_bps.
    let is_last = (remaining_bps = m_payout_bps m) in
    and_then (if is_last
              then and_then (ok_or (i128_checked_sub total_after_fee claimed_amount) Overflow)
                     (\<lambda>remaining. Ok (if claimable0 < remaining then remaining else claimable0))
              else Ok claimable0) (\<lambda>claimable1.
    and_then (floor_bps fee_total (m_payout_bps m)) (\<lambda>fee_slice.
    if is_last
    then and_then (fee_claimed_so_far s cid fee_total milestones 0) (\<lambda>fee_claimed.
         and_then (ok_or (i128_checked_sub fee_total fee_claimed) Overflow) (\<lambda>fee_remaining.
         let fee_claim = (if fee_slice < fee_remaining then fee_remaining else fee_slice) in
         and_then (ok_or (i128_checked_sub total_after_fee claimed_amount) Overflow)
           (\<lambda>total_remaining. Ok (total_remaining, fee_claim))))
    else Ok (claimable1, fee_slice))))))))"

definition all_others_claimed :: "'w state \<Rightarrow> u32 \<Rightarrow> u32 \<Rightarrow> milestone list \<Rightarrow> bool" where
  "all_others_claimed s cid mid milestones =
    list_all (\<lambda>m. m_id m = mid \<or> is_milestone_claimed s cid (m_id m)) milestones"

definition claim_milestone ::
  "('w, 'm) env_scheme \<Rightarrow> u32 \<Rightarrow> u32 \<Rightarrow> 'w state \<Rightarrow> (error, 'w state) res" where
  "claim_milestone e cid mid s =
    and_then (get_campaign_or_error s cid) (\<lambda>c.
    and_then (require_auth e (c_creator c)) (\<lambda>_.
    and_then (require_not_paused s) (\<lambda>_.
    if c_is_cancelled c then Err CampaignNotActive else
    if \<not> c_is_verified c then Err CampaignNotVerified else
    if c_funds_withdrawn c then Err FundsAlreadyWithdrawn else
    if c_amount_raised c = 0 then Err NoFundsToWithdraw else
    if c_amount_raised c < c_funding_goal c then Err FundingGoalNotReached else
    let milestones = get_campaign_milestones s cid in
    if milestones = [] then Err MilestoneNotFound else
    and_then (ok_or (List.find (\<lambda>m. m_id m = mid) milestones) MilestoneNotFound) (\<lambda>m.
    if \<not> m_verified m then Err MilestoneNotVerified else
    if is_milestone_claimed s cid mid then Err MilestoneAlreadyClaimed else
    and_then (milestone_payout s cid c milestones m) (\<lambda>(claimable, fee_claim).
    if claimable \<le> 0 then Err NoFundsToWithdraw else
    let s1 = set_milestone_claimed cid mid s in
    and_then (ok_or (i128_checked_add fee_claim claimable) Overflow) (\<lambda>to_deduct.
    and_then (ok_or (i128_checked_sub (get_total_raised_global s1) to_deduct) Overflow) (\<lambda>tot.
    let s2 = set_total_raised_global tot s1;
        s3 = (if all_others_claimed s2 cid mid milestones
              then decrement_active_campaign_count
                     (set_campaign cid (c\<lparr>c_funds_withdrawn := True, c_is_active := False\<rparr>) s2)
              else s2) in
    and_then (admin_or_trap s3) (\<lambda>admin_addr.
    and_then (campaign_token_client s3 cid) (\<lambda>tok.
    and_then (if 0 < fee_claim then transfer e tok (h_self e) admin_addr fee_claim s3 else Ok s3) (\<lambda>s4.
    and_then (transfer e tok (h_self e) (c_creator c) claimable s4) (\<lambda>s5.
    Ok (publish [Sym ''milestone_claimed'', U32 cid, U32 mid]
          [I128 claimable, I128 fee_claim] s5))))))))))))"

section \<open>Refinement of the escrow\<close>

lemma set_milestones_core: "set_milestones e cid ms s = Inr s' \<Longrightarrow> core s' = core s"
  by (auto simp: set_milestones_def Let_def res_simps core_frame)

lemma verify_milestone_core: "verify_milestone e a cid mid s = Inr s' \<Longrightarrow> core s' = core s"
  by (auto simp: verify_milestone_def Let_def res_simps core_frame)

lemma claim_milestone_core:
  assumes "claim_milestone e cid mid s = Inr s'"
  obtains c where "get_campaign s cid = Some c" "e_auth e (c_creator c)"
    "c_is_verified c" "\<not> c_is_cancelled c" "\<not> c_funds_withdrawn c" "c_amount_raised c \<noteq> 0"
    "c_funding_goal c \<le> c_amount_raised c"
    "core s' = core s \<or> core s' = k_withdraw cid c (core s)"
proof -
  have "\<exists>c. get_campaign s cid = Some c \<and> e_auth e (c_creator c) \<and>
    c_is_verified c \<and> \<not> c_is_cancelled c \<and> \<not> c_funds_withdrawn c \<and> c_amount_raised c \<noteq> 0 \<and>
    c_funding_goal c \<le> c_amount_raised c \<and> (core s' = core s \<or> core s' = k_withdraw cid c (core s))"
    using assms
    apply (simp only: claim_milestone_def Let_def res_simps not_not de_Morgan_disj)
    apply clarify
    apply (rule exI, intro conjI, assumption)
    apply (auto simp: core_frame k_withdraw_def not_less split: if_splits)
    done
  then show thesis using that by blast
qed

lemma claim_milestone_steps:
  "claim_milestone e cid mid s = Inr s' \<Longrightarrow> core_steps (e_timestamp e) (core s) (core s')"
  by (erule claim_milestone_core, erule disjE)
     (auto intro!: r_into_rtranclp [of "core_step n" for n] core_step.withdrawn simp: core_fields)

section \<open>Frame\<close>

context fund_observer
begin

lemma milestones_obs:
  "set_milestones e cid ms s = Inr s' \<Longrightarrow> obs s' = obs s"
  "verify_milestone e a cid mid s = Inr s' \<Longrightarrow> obs s' = obs s"
  "claim_milestone e cid mid s = Inr s' \<Longrightarrow> obs s' = obs s"
  subgoal by (auto simp: set_milestones_def Let_def res_simps obs_simps)
  subgoal by (auto simp: verify_milestone_def Let_def res_simps obs_simps)
  by (simp only: claim_milestone_def Let_def res_simps not_not, clarify) (auto simp: obs_simps split: if_splits)

end

section \<open>The loops\<close>

lemma check_milestones_ok:
  "check_milestones ms seen_ids t = Inr t' \<Longrightarrow>
   (\<forall>m \<in> set ms. 0 < m_payout_bps m \<and> m_payout_bps m \<le> BPS_DENOMINATOR \<and> m_description m \<noteq> []) \<and>
   distinct (map m_id ms) \<and> m_id ` set ms \<inter> set seen_ids = {} \<and>
   t' = t + sum_list (map m_payout_bps ms)"
proof (induction ms arbitrary: seen_ids t)
  case (Cons m ms)
  then have "check_milestones ms (seen_ids @ [m_id m]) (t + m_payout_bps m) = Inr t'"
    "0 < m_payout_bps m" "m_payout_bps m \<le> BPS_DENOMINATOR" "m_description m \<noteq> []" "m_id m \<notin> set seen_ids"
    by (auto simp: res_simps split: if_splits)
  with Cons.IH [OF this(1)] show ?case by auto
qed simp

text \<open>What the summing loops compute: sums over the claimed milestones.\<close>

abbreviation claimed_of :: "'w state \<Rightarrow> u32 \<Rightarrow> milestone list \<Rightarrow> milestone list" where
  "claimed_of s cid ms \<equiv> filter (\<lambda>m. is_milestone_claimed s cid (m_id m)) ms"

definition floor_share :: "i128 \<Rightarrow> milestone \<Rightarrow> i128" where
  "floor_share amt m = amt * int (m_payout_bps m) div 10000"

lemma floor_bps_eq: "floor_bps amt (m_payout_bps m) = Inr n \<Longrightarrow> 0 \<le> amt \<Longrightarrow> n = floor_share amt m"
  by (auto simp: floor_bps_def res_simps const_defs floor_share_def)

lemma claimed_so_far_eq:
  assumes "claimed_so_far s cid amt ms b a = Inr (b', a')" "0 \<le> amt"
  shows "b' = b + sum_list (map m_payout_bps (claimed_of s cid ms)) \<and>
         a' = a + sum_list (map (floor_share amt) (claimed_of s cid ms))"
  using assms(1)
proof (induction ms arbitrary: b a)
  case (Cons m ms)
  show ?case
  proof (cases "is_milestone_claimed s cid (m_id m)")
    case True
    with Cons.prems have "claimed_so_far s cid amt ms (b + m_payout_bps m) (a + floor_share amt m) = Inr (b', a')"
      using floor_bps_eq [OF _ assms(2)] by (auto simp: res_simps)
    from Cons.IH [OF this] True show ?thesis by simp
  qed (use Cons in auto)
qed simp

lemma fee_claimed_so_far_eq:
  assumes "fee_claimed_so_far s cid amt ms a = Inr a'" "0 \<le> amt"
  shows "a' = a + sum_list (map (floor_share amt) (claimed_of s cid ms))"
  using assms(1)
proof (induction ms arbitrary: a)
  case (Cons m ms)
  show ?case
  proof (cases "is_milestone_claimed s cid (m_id m)")
    case True
    with Cons.prems have "fee_claimed_so_far s cid amt ms (a + floor_share amt m) = Inr a'"
      using floor_bps_eq [OF _ assms(2)] by (auto simp: res_simps)
    from Cons.IH [OF this] True show ?thesis by simp
  qed (use Cons in auto)
qed simp

lemma sum_filter_split:
  fixes f :: "'a \<Rightarrow> 'b :: comm_monoid_add"
  shows "sum_list (map f (filter P xs)) + sum_list (map f (filter (\<lambda>x. \<not> P x) xs)) = sum_list (map f xs)"
  by (induction xs) (simp_all add: ac_simps)

lemma sum_floor_le:
  "0 \<le> amt \<Longrightarrow> sum_list (map (floor_share amt) ms) * 10000 \<le> amt * int (sum_list (map m_payout_bps ms))"
proof (induction ms)
  case (Cons m ms)
  have "amt * int (m_payout_bps m) div 10000 * 10000 \<le> amt * int (m_payout_bps m)" by linarith
  with Cons show ?case by (simp add: floor_share_def algebra_simps)
qed simp

text \<open>
  Among milestones with distinct ids and positive shares, the unclaimed ones weigh as much
  as \<open>m\<close> alone exactly when all the others are claimed.
\<close>

lemma last_iff_others_claimed:
  assumes "distinct (map m_id ms)" "m \<in> set ms" "\<not> is_milestone_claimed s cid (m_id m)"
    and pos: "\<forall>x \<in> set ms. 0 < m_payout_bps x"
    and sum: "sum_list (map m_payout_bps ms) = BPS_DENOMINATOR"
  shows "BPS_DENOMINATOR - sum_list (map m_payout_bps (claimed_of s cid ms)) = m_payout_bps m \<longleftrightarrow>
    all_others_claimed s cid (m_id m) ms"
proof -
  let ?open = "filter (\<lambda>x. \<not> is_milestone_claimed s cid (m_id x)) ms"
  have m: "m \<in> set ?open" using assms(2, 3) by simp
  have dist: "distinct ?open" using assms(1) by (simp add: distinct_map)
  have "sum_list (map m_payout_bps (claimed_of s cid ms)) + sum_list (map m_payout_bps ?open) = BPS_DENOMINATOR"
    using sum_filter_split [of m_payout_bps _ ms] sum by metis
  moreover have "sum_list (map m_payout_bps ?open) = m_payout_bps m + sum_list (map m_payout_bps (remove1 m ?open))"
    by (rule sum_list_map_remove1 [OF m])
  ultimately have "BPS_DENOMINATOR - sum_list (map m_payout_bps (claimed_of s cid ms)) = m_payout_bps m \<longleftrightarrow>
      sum_list (map m_payout_bps (remove1 m ?open)) = 0" by linarith
  also have "\<dots> \<longleftrightarrow> set (remove1 m ?open) = {}"
  proof -
    have "\<forall>x \<in> set (remove1 m ?open). 0 < m_payout_bps x"
      using pos set_remove1_subset [of m ?open] by fastforce
    then show ?thesis by (cases "remove1 m ?open") auto
  qed
  also have "\<dots> \<longleftrightarrow> (\<forall>x \<in> set ?open. x = m)"
    unfolding set_remove1_eq [OF dist] by auto
  also have "\<dots> \<longleftrightarrow> all_others_claimed s cid (m_id m) ms"
    unfolding all_others_claimed_def list_all_iff using assms(1,2)
    by (auto dest: distinct_map [THEN iffD1] inj_onD)
  finally show ?thesis .
qed

lemma milestone_payout_ok:
  assumes "milestone_payout s cid c ms m = Inr (pay, fee)" "0 \<le> c_amount_raised c"
    "effective_platform_fee c s \<le> BPS_DENOMINATOR"
    "distinct (map m_id ms)" "m \<in> set ms" "\<not> is_milestone_claimed s cid (m_id m)"
    "\<forall>x \<in> set ms. 0 < m_payout_bps x" "sum_list (map m_payout_bps ms) = BPS_DENOMINATOR"
  obtains fees net where
    "ceil_bps (c_amount_raised c) (effective_platform_fee c s) = Inr fees"
    "net = c_amount_raised c - fees" "0 \<le> fees" "0 \<le> net"
    "\<not> all_others_claimed s cid (m_id m) ms \<Longrightarrow> pay = floor_share net m \<and> fee = floor_share fees m"
    "all_others_claimed s cid (m_id m) ms \<Longrightarrow>
       pay + sum_list (map (floor_share net) (claimed_of s cid ms)) = net \<and>
       fee + sum_list (map (floor_share fees) (claimed_of s cid ms)) = fees"
proof -
  let ?bps = "sum_list (map m_payout_bps (claimed_of s cid ms))"
  from assms(1) obtain fees net b a r pay1 slice where
    fees: "ceil_bps (c_amount_raised c) (effective_platform_fee c s) = Inr fees"
    and net: "net = c_amount_raised c - fees"
    and so_far: "claimed_so_far s cid net ms 0 0 = Inr (b, a)"
    and own: "floor_bps net (m_payout_bps m) = Inr r"
    and slice: "floor_bps fees (m_payout_bps m) = Inr slice"
    and res: "if BPS_DENOMINATOR - b = m_payout_bps m
      then \<exists>fc. fee_claimed_so_far s cid fees ms 0 = Inr fc \<and> pay = net - a \<and>
        fee = (if slice < fees - fc then fees - fc else slice)
      else pay = r \<and> fee = slice"
    by (auto simp: milestone_payout_def Let_def res_simps split: if_splits)
  have f: "0 \<le> fees" "0 \<le> net"
    using ceil_bps_bounds [OF fees assms(2, 3)] net by simp_all
  have b: "b = ?bps" "a = sum_list (map (floor_share net) (claimed_of s cid ms))"
    using claimed_so_far_eq [OF so_far f(2)] by simp_all
  have last: "BPS_DENOMINATOR - b = m_payout_bps m \<longleftrightarrow> all_others_claimed s cid (m_id m) ms"
    unfolding b(1) by (rule last_iff_others_claimed [OF assms(4-8)])
  show thesis
  proof (rule that [OF fees net f])
    assume "\<not> all_others_claimed s cid (m_id m) ms"
    then show "pay = floor_share net m \<and> fee = floor_share fees m"
      using res last floor_bps_eq [OF own f(2)] floor_bps_eq [OF slice f(1)] by simp
  next
    assume "all_others_claimed s cid (m_id m) ms"
    with res last obtain fc where fc: "fee_claimed_so_far s cid fees ms 0 = Inr fc"
      "pay = net - a" "fee = (if slice < fees - fc then fees - fc else slice)"
      and bps: "BPS_DENOMINATOR - b = m_payout_bps m" by auto
    have taken: "fc = sum_list (map (floor_share fees) (claimed_of s cid ms))"
      using fee_claimed_so_far_eq [OF fc(1) f(1)] by simp
    have own: "slice = floor_share fees m" using floor_bps_eq [OF slice f(1)] .
    have "sum_list (map m_payout_bps (m # claimed_of s cid ms)) = 10000"
      using bps b(1) assms(5, 7) by (auto simp: BPS_DENOMINATOR_def)
    with sum_floor_le [OF f(1), of "m # claimed_of s cid ms"]
    have "sum_list (map (floor_share fees) (m # claimed_of s cid ms)) * 10000 \<le> fees * 10000"
      by (simp only: of_nat_numeral)
    then have "slice + fc \<le> fees" by (simp add: own taken)
    with fc b taken show "pay + sum_list (map (floor_share net) (claimed_of s cid ms)) = net \<and>
       fee + sum_list (map (floor_share fees) (claimed_of s cid ms)) = fees" by auto
  qed
qed

lemma claim_milestone_purse:
  assumes "claim_milestone e cid mid s = Inr s'"
  obtains c m pay fee admin tok w where "get_campaign s cid = Some c"
    "List.find (\<lambda>m. m_id m = mid) (get_campaign_milestones s cid) = Some m" "m_verified m"
    "\<not> is_milestone_claimed s cid mid" "c_is_verified c" "\<not> c_is_cancelled c" "\<not> c_funds_withdrawn c"
    "e_auth e (c_creator c)" "c_funding_goal c \<le> c_amount_raised c"
    "milestone_payout s cid c (get_campaign_milestones s cid) m = Inr (pay, fee)" "0 < pay"
    "get_admin s = Some admin" "get_campaign_token s cid = Some tok"
    "if 0 < fee then h_transfer e tok (h_self e) admin fee (st_world s) = Some w else w = st_world s"
    "h_transfer e tok (h_self e) (c_creator c) pay w = Some (st_world s')"
    "get_total_raised_global s' = get_total_raised_global s - (fee + pay)"
    "is_milestone_claimed s' = (is_milestone_claimed s)(cid := (is_milestone_claimed s cid)(mid := True))"
    "get_campaign_milestones s' = get_campaign_milestones s"
proof -
  have "\<exists>c m pay fee admin tok w. get_campaign s cid = Some c \<and>
    List.find (\<lambda>m. m_id m = mid) (p_milestones (purse s) cid) = Some m \<and> m_verified m \<and>
    \<not> p_milestone_paid (purse s) cid mid \<and> c_is_verified c \<and> \<not> c_is_cancelled c \<and> \<not> c_funds_withdrawn c \<and>
    e_auth e (c_creator c) \<and> c_funding_goal c \<le> c_amount_raised c \<and>
    milestone_payout s cid c (p_milestones (purse s) cid) m = Inr (pay, fee) \<and> 0 < pay \<and>
    p_admin (purse s) = Some admin \<and> p_token (purse s) cid = Some tok \<and>
    (if 0 < fee then h_transfer e tok (h_self e) admin fee (p_world (purse s)) = Some w else w = p_world (purse s)) \<and>
    h_transfer e tok (h_self e) (c_creator c) pay w = Some (p_world (purse s')) \<and>
    p_total (purse s') = p_total (purse s) - (fee + pay) \<and>
    p_milestone_paid (purse s') = (p_milestone_paid (purse s))(cid := (p_milestone_paid (purse s) cid)(mid := True)) \<and>
    p_milestones (purse s') = p_milestones (purse s)"
    using assms
    apply (simp only: claim_milestone_def Let_def res_simps not_not not_le not_less purse_reads)
    apply clarify
    apply (auto simp: purse_frame not_less split: if_splits)
    done
  then show thesis using that unfolding purse_fields by blast
qed

section \<open>Properties\<close>

declare One_nat_def [simp del]

text \<open>
  Milestones partition the payout, once. A successful \<open>set_milestones\<close> stores at most ten
  milestones with distinct ids, each with a positive share and a description and none verified,
  whose shares add up to exactly 10000 basis points, on a campaign that had none; every later
  \<open>set_milestones\<close> on that state fails.
\<close>

lemma milestones_partition:
  assumes "set_milestones e cid ms s = Inr s'"
  shows "get_campaign_milestones s cid = [] \<and>
    get_campaign_milestones s' cid = map (\<lambda>m. m\<lparr>m_verified := False\<rparr>) ms \<and>
    ms \<noteq> [] \<and> length ms \<le> 10 \<and> distinct (map m_id ms) \<and>
    (\<forall>m \<in> set ms. 0 < m_payout_bps m \<and> m_description m \<noteq> []) \<and>
    sum_list (map m_payout_bps ms) = BPS_DENOMINATOR \<and>
    set_milestones e' cid ms' s' \<noteq> Inr s''"
proof -
  from assms have *: "check_milestones ms [] 0 = Inr BPS_DENOMINATOR" "ms \<noteq> []" "length ms \<le> 10"
    "get_campaign_milestones s cid = []"
    "get_campaign_milestones s' = (get_campaign_milestones s)(cid := map (\<lambda>m. m\<lparr>m_verified := False\<rparr>) ms)"
    by (auto simp: set_milestones_def Let_def res_simps purse_fields [symmetric] purse_frame MAX_MILESTONES_def)
  have "set_milestones e' cid ms' s' \<noteq> Inr s''"
    using *(2, 5) by (auto simp: set_milestones_def Let_def res_simps)
  with * check_milestones_ok [OF *(1)] show ?thesis by auto
qed

text \<open>
  For milestones as \<open>set_milestones\<close> stores them, a claim pays the floor of its share of the net amount
  and of the fee, until the last one, which pays what is left of both when the claimed milestones are counted by their
  floor shares of the present amount. Over a run without contributions in between these are what was paid (theory
  \<^verbatim>\<open>Payouts\<close>).
\<close>

lemma milestone_payout_shares:
  assumes "milestone_payout s cid c ms m = Inr (pay, fee)" "0 \<le> c_amount_raised c"
    "effective_platform_fee c s \<le> BPS_DENOMINATOR"
    "distinct (map m_id ms)" "m \<in> set ms" "\<not> is_milestone_claimed s cid (m_id m)"
    "\<forall>x \<in> set ms. 0 < m_payout_bps x" "sum_list (map m_payout_bps ms) = BPS_DENOMINATOR"
  shows "\<exists>fees net. fees + net = c_amount_raised c \<and> 0 \<le> fees \<and> 0 \<le> net \<and>
    fees = (c_amount_raised c * int (effective_platform_fee c s) + 9999) div 10000 \<and>
    (if all_others_claimed s cid (m_id m) ms
     then pay + sum_list (map (floor_share net) (claimed_of s cid ms)) = net \<and>
          fee + sum_list (map (floor_share fees) (claimed_of s cid ms)) = fees
     else pay = net * int (m_payout_bps m) div 10000 \<and> fee = fees * int (m_payout_bps m) div 10000)"
proof -
  from milestone_payout_ok [OF assms] obtain fees net where
    *: "ceil_bps (c_amount_raised c) (effective_platform_fee c s) = Inr fees"
    "net = c_amount_raised c - fees" "0 \<le> fees" "0 \<le> net"
    and pays: "\<not> all_others_claimed s cid (m_id m) ms \<Longrightarrow> pay = floor_share net m \<and> fee = floor_share fees m"
    "all_others_claimed s cid (m_id m) ms \<Longrightarrow>
       pay + sum_list (map (floor_share net) (claimed_of s cid ms)) = net \<and>
       fee + sum_list (map (floor_share fees) (claimed_of s cid ms)) = fees" by metis
  show ?thesis
    by (rule exI [of _ fees], rule exI [of _ net])
      (use * ceil_bps_eq [OF *(1) assms(2)] pays in \<open>simp add: floor_share_def [of _ m]\<close>)
qed

text \<open>
  A milestone is claimed once. A successful \<open>claim_milestone\<close> was signed by the creator of a
  verified campaign that met its goal, for a verified milestone not claimed before; it transfers
  the fee slice to the admin and the payout to the creator, takes both off the global total, marks
  the milestone, and no later claim of it on that state succeeds.
\<close>

lemma milestone_claimed_once:
  assumes "claim_milestone e cid mid s = Inr s'"
  shows "(\<exists>c m pay fee admin tok w. get_campaign s cid = Some c \<and> e_auth e (c_creator c) \<and>
      c_is_verified c \<and> c_funding_goal c \<le> c_amount_raised c \<and>
      m \<in> set (get_campaign_milestones s cid) \<and> m_id m = mid \<and> m_verified m \<and> 0 < pay \<and>
      milestone_payout s cid c (get_campaign_milestones s cid) m = Inr (pay, fee) \<and>
      get_admin s = Some admin \<and> get_campaign_token s cid = Some tok \<and>
      (if 0 < fee then h_transfer e tok (h_self e) admin fee (st_world s) = Some w else w = st_world s) \<and>
      h_transfer e tok (h_self e) (c_creator c) pay w = Some (st_world s') \<and>
      get_total_raised_global s' = get_total_raised_global s - (fee + pay)) \<and>
    \<not> is_milestone_claimed s cid mid \<and> is_milestone_claimed s' cid mid \<and>
    claim_milestone e' cid mid s' \<noteq> Inr s''"
proof -
  from claim_milestone_purse [OF assms] obtain c m pay fee admin tok w where
    *: "get_campaign s cid = Some c"
    "List.find (\<lambda>m. m_id m = mid) (get_campaign_milestones s cid) = Some m" "m_verified m"
    "\<not> is_milestone_claimed s cid mid" "c_is_verified c" "e_auth e (c_creator c)"
    "c_funding_goal c \<le> c_amount_raised c"
    "milestone_payout s cid c (get_campaign_milestones s cid) m = Inr (pay, fee)" "0 < pay"
    "get_admin s = Some admin" "get_campaign_token s cid = Some tok"
    "if 0 < fee then h_transfer e tok (h_self e) admin fee (st_world s) = Some w else w = st_world s"
    "h_transfer e tok (h_self e) (c_creator c) pay w = Some (st_world s')"
    "get_total_raised_global s' = get_total_raised_global s - (fee + pay)"
    and paid: "is_milestone_claimed s' = (is_milestone_claimed s)(cid := (is_milestone_claimed s cid)(mid := True))"
    by metis
  have m: "m \<in> set (get_campaign_milestones s cid)" "m_id m = mid"
    using *(2) by (auto simp: find_Some_iff)
  have marked: "is_milestone_claimed s' cid mid" by (simp add: paid)
  then have "claim_milestone e' cid mid s' \<noteq> Inr s''"
    by (auto elim: claim_milestone_purse)
  with * m marked show ?thesis by blast
qed

text \<open>
  Contributions made between two milestone claims are stranded. The campaign stays open for
  contributions after its first milestone is claimed, and the last claim takes as already paid what
  the first would pay from the larger amount. With two milestones and the fee rate unchanged, the two claims
  together leave at least the first milestone's share of the contributions made in between, less two
  units of rounding, in the contract; the last claim closes the campaign, so nobody can take it out.
\<close>

lemma late_contributions_stranded:
  assumes first: "milestone_payout s1 cid c1 [m1, m2] m1 = Inr (pay1, fee1)"
      "\<not> is_milestone_claimed s1 cid (m_id m1)" "\<not> is_milestone_claimed s1 cid (m_id m2)"
    and last: "milestone_payout s2 cid c2 [m1, m2] m2 = Inr (pay2, fee2)"
      "is_milestone_claimed s2 cid (m_id m1)" "\<not> is_milestone_claimed s2 cid (m_id m2)"
    and plan: "m_id m1 \<noteq> m_id m2" "0 < m_payout_bps m1" "0 < m_payout_bps m2"
      "m_payout_bps m1 + m_payout_bps m2 = BPS_DENOMINATOR"
    and fee: "effective_platform_fee c1 s1 \<le> BPS_DENOMINATOR"
      "effective_platform_fee c2 s2 \<le> BPS_DENOMINATOR"
    and raised: "0 \<le> c_amount_raised c1" "c_amount_raised c2 = c_amount_raised c1 + extra" "0 \<le> extra"
  shows "extra * int (m_payout_bps m1) < (c_amount_raised c2 - (pay1 + fee1 + pay2 + fee2) + 2) * 10000"
proof -
  let ?b = "int (m_payout_bps m1)"
  obtain fees1 net1 where one: "net1 = c_amount_raised c1 - fees1" "pay1 = floor_share net1 m1" "fee1 = floor_share fees1 m1"
    by (rule milestone_payout_ok [OF first(1) raised(1) fee(1)])
      (use first plan in \<open>auto simp: all_others_claimed_def\<close>)
  have r2: "0 \<le> c_amount_raised c2" using raised by simp
  obtain fees2 net2 where two: "net2 = c_amount_raised c2 - fees2" "pay2 + floor_share net2 m1 = net2" "fee2 + floor_share fees2 m1 = fees2"
    by (rule milestone_payout_ok [OF last(1) r2 fee(2)])
      (use last plan in \<open>auto simp: all_others_claimed_def\<close>)
  have "floor_share net1 m1 * 10000 \<le> net1 * ?b" "floor_share fees1 m1 * 10000 \<le> fees1 * ?b"
    "net2 * ?b < (floor_share net2 m1 + 1) * 10000" "fees2 * ?b < (floor_share fees2 m1 + 1) * 10000"
    by (simp_all add: floor_share_def distrib_right minus_mod_eq_div_mult [symmetric])
  moreover have "net1 * ?b + fees1 * ?b = c_amount_raised c1 * ?b" "net2 * ?b + fees2 * ?b = c_amount_raised c1 * ?b + extra * ?b"
    unfolding one(1) two(1) raised(2) by (simp_all add: algebra_simps)
  moreover have "c_amount_raised c2 - (pay1 + fee1 + pay2 + fee2) =
      floor_share net2 m1 + floor_share fees2 m1 - floor_share net1 m1 - floor_share fees1 m1"
    using one(2, 3) two by linarith
  ultimately show ?thesis by (simp only: distrib_right left_diff_distrib)
qed

end
