(* ===== verification/Bookmarks.thy ===== *)
theory Bookmarks
  imports Purse Example
begin

text \<open>
  \<^verbatim>\<open>src/bookmarks.rs\<close>: a wallet's saved campaigns, a list without duplicates kept in the
  order of saving.
\<close>

section \<open>Operations\<close>

definition MAX_BOOKMARKS_PER_WALLET :: u32 where
  [const_defs]: "MAX_BOOKMARKS_PER_WALLET = 50"

definition save_campaign ::
  "('w, 'm) env_scheme \<Rightarrow> address \<Rightarrow> u32 \<Rightarrow> 'w state \<Rightarrow> (error, 'w state) res" where
  "save_campaign e user cid s =
    (and_then (require_auth e user) (\<lambda>_.
     and_then (get_campaign_or_error s cid) (\<lambda>_.
     let saved = get_saved_campaigns s user in
     if cid \<in> set saved then Err CampaignAlreadyBookmarked else
     if MAX_BOOKMARKS_PER_WALLET \<le> length saved then Err BookmarkLimitReached else
     Ok (publish [Sym ''campaign_bookmarked'', Addr user] [U32 cid]
           (set_saved_campaigns user (saved @ [cid]) s)))))"

text \<open>\<open>iter().position\<close> and \<open>Vec::remove\<close>: the first index of an element, and removal at an index.\<close>

fun vec_position :: "'a list \<Rightarrow> 'a \<Rightarrow> nat option" where
  "vec_position [] x = None"
| "vec_position (y # ys) x = (if y = x then Some 0 else map_option Suc (vec_position ys x))"

definition vec_remove :: "nat \<Rightarrow> 'a list \<Rightarrow> 'a list" where
  "vec_remove i xs = take i xs @ drop (Suc i) xs"

definition remove_saved_campaign ::
  "('w, 'm) env_scheme \<Rightarrow> address \<Rightarrow> u32 \<Rightarrow> 'w state \<Rightarrow> (error, 'w state) res" where
  "remove_saved_campaign e user cid s =
    (and_then (require_auth e user) (\<lambda>_.
     let saved = get_saved_campaigns s user in
     and_then (ok_or (vec_position saved cid) CampaignNotBookmarked) (\<lambda>idx.
         Ok (publish [Sym ''campaign_unbookmarked'', Addr user] [U32 cid]
               (set_saved_campaigns user (vec_remove idx saved) s)))))"

primrec batch_save_items ::
  "'w state \<Rightarrow> u32 list \<Rightarrow> u32 list \<Rightarrow> (error, u32 list) res" where
  "batch_save_items s [] saved = Ok saved"
| "batch_save_items s (cid # cids) saved =
    (and_then (get_campaign_or_error s cid) (\<lambda>_.
     if cid \<in> set saved then Err CampaignAlreadyBookmarked else
     batch_save_items s cids (saved @ [cid])))"

definition batch_save_campaigns ::
  "('w, 'm) env_scheme \<Rightarrow> address \<Rightarrow> u32 list \<Rightarrow> 'w state \<Rightarrow> (error, 'w state) res" where
  "batch_save_campaigns e user cids s =
    (and_then (require_auth e user) (\<lambda>_.
     and_then (batch_save_items s cids (get_saved_campaigns s user)) (\<lambda>saved.
     Ok (fold (\<lambda>cid. publish [Sym ''campaign_bookmarked'', Addr user] [U32 cid]) cids
           (set_saved_campaigns user saved s)))))"

definition get_saved :: "'w state \<Rightarrow> address \<Rightarrow> u32 list" where
  "get_saved s user =
    [cid \<leftarrow> get_saved_campaigns s user.
       case get_campaign s cid of None \<Rightarrow> False | Some c \<Rightarrow> \<not> c_is_cancelled c]"

definition get_saved_count :: "'w state \<Rightarrow> address \<Rightarrow> u32" where
  "get_saved_count s user = length (get_saved s user)"

definition clear_saved_campaigns ::
  "('w, 'm) env_scheme \<Rightarrow> address \<Rightarrow> 'w state \<Rightarrow> (error, 'w state) res" where
  "clear_saved_campaigns e user s =
    (and_then (require_auth e user) (\<lambda>_.
     let cleared = length (get_saved_campaigns s user) in
     Ok (publish [Sym ''campaign_bookmarks_cleared'', Addr user] [U32 cleared]
           (set_saved_campaigns user [] s))))"

text \<open>The pruning hook documents a gap in the source and does nothing: \<open>let _ = (env, campaign_id)\<close>.\<close>

definition prune_bookmarks_for_campaign :: "u32 \<Rightarrow> 'w state \<Rightarrow> 'w state" where
  [store_defs]: "prune_bookmarks_for_campaign cid s = s"

section \<open>Refinement of the escrow\<close>

lemma bookmarks_core:
  "save_campaign e a cid s = Inr s' \<Longrightarrow> core s' = core s"
  "batch_save_campaigns e a cids s = Inr s' \<Longrightarrow> core s' = core s"
  "remove_saved_campaign e a cid s = Inr s' \<Longrightarrow> core s' = core s"
  "clear_saved_campaigns e a s = Inr s' \<Longrightarrow> core s' = core s"
  by (auto simp: save_campaign_def batch_save_campaigns_def remove_saved_campaign_def
      clear_saved_campaigns_def Let_def res_simps core_frame fold_core)

section \<open>Positions\<close>

lemma vec_position_append: "x \<notin> set xs \<Longrightarrow> vec_position (xs @ x # ys) x = Some (length xs)"
  by (induction xs) auto

lemma vec_position_None: "vec_position xs x = None \<longleftrightarrow> x \<notin> set xs"
  by (induction xs) auto

lemma vec_position_Some:
  "vec_position xs x = Some i \<Longrightarrow> i < length xs \<and> xs ! i = x \<and> x \<notin> set (take i xs)"
proof (induction xs arbitrary: i)
  case (Cons y ys)
  then show ?case by (cases "y = x") auto
qed simp

lemma vec_remove_middle: "vec_remove (length xs) (xs @ x # ys) = xs @ ys"
  by (simp add: vec_remove_def)

lemma vec_remove_position:
  assumes "distinct xs" "vec_position xs x = Some i"
  shows "vec_remove i xs = filter (\<lambda>y. y \<noteq> x) xs"
proof -
  from vec_position_Some [OF assms(2)] have i: "i < length xs" "xs ! i = x" by simp_all
  have split: "xs = take i xs @ x # drop (Suc i) xs" using id_take_nth_drop [OF i(1)] i(2) by simp
  have out: "x \<notin> set (take i xs)" "x \<notin> set (drop (Suc i) xs)"
    using assms(1) split by (metis disjoint_insert(1) distinct_append list.simps(15) distinct.simps(2))+
  have "filter (\<lambda>y. y \<noteq> x) xs = filter (\<lambda>y. y \<noteq> x) (take i xs) @ filter (\<lambda>y. y \<noteq> x) (drop (Suc i) xs)"
    by (subst split) simp
  also have "\<dots> = take i xs @ drop (Suc i) xs"
    using out by (metis (mono_tags, lifting) filter_True)
  finally show ?thesis by (simp add: vec_remove_def)
qed

lemma saved_reads [simp]:
  "get_saved_campaigns (publish tp v s) = get_saved_campaigns s"
  "get_saved_campaigns (set_saved_campaigns a xs s) = (get_saved_campaigns s)(a := xs)"
  "get_campaign (set_saved_campaigns a xs s) = get_campaign s"
  "get_campaign (publish tp v s) = get_campaign s"
  by (simp_all add: store_defs fun_eq_iff)

section \<open>Properties\<close>

declare One_nat_def [simp del]

text \<open>A signed save and a signed removal, every outcome.\<close>

lemma save_step:
  assumes "e_auth e user"
  shows "save_campaign e user cid s =
    (if get_campaign s cid = None then Err CampaignNotFound
     else if cid \<in> set (get_saved_campaigns s user) then Err CampaignAlreadyBookmarked
     else if 50 \<le> length (get_saved_campaigns s user) then Err BookmarkLimitReached
     else Inr (publish [Sym ''campaign_bookmarked'', Addr user] [U32 cid]
       (set_saved_campaigns user (get_saved_campaigns s user @ [cid]) s)))"
  using assms by (auto simp: save_campaign_def require_auth_def get_campaign_or_error_def Let_def
      MAX_BOOKMARKS_PER_WALLET_def split: option.split)

lemma remove_step:
  assumes "e_auth e user"
  shows "cid \<notin> set (get_saved_campaigns s user) \<Longrightarrow>
      remove_saved_campaign e user cid s = Err CampaignNotBookmarked"
    "get_saved_campaigns s user = xs @ cid # ys \<Longrightarrow> cid \<notin> set xs \<Longrightarrow>
      \<exists>s2. remove_saved_campaign e user cid s = Inr s2 \<and>
        get_saved_campaigns s2 = (get_saved_campaigns s)(user := xs @ ys)"
  using assms vec_position_None [of "get_saved_campaigns s user" cid]
  by (auto simp: remove_saved_campaign_def require_auth_def Let_def vec_position_append vec_remove_middle)

text \<open>
  C40: Saving and removing a bookmark, for a user who signs. A save succeeds exactly when the campaign
  exists, is not saved yet, and the list is shorter than 50; it then appends the campaign to that
  user's list and changes no other list. An unknown campaign is refused with \<open>CampaignNotFound\<close>, one
  already saved with \<open>CampaignAlreadyBookmarked\<close> (so saving twice is refused), and a full list with
  \<open>BookmarkLimitReached\<close>. A removal takes the first occurrence of the campaign out of the list, wherever
  it stands, and keeps the others in their order; a campaign that is not in the list is refused with
  \<open>CampaignNotBookmarked\<close>. Removing what was just saved restores the lists.
\<close>

theorem bookmark_roundtrip:
  assumes "e_auth e user"
  shows "(is_ok (save_campaign e user cid s) \<longleftrightarrow> get_campaign s cid \<noteq> None \<and>
        cid \<notin> set (get_saved_campaigns s user) \<and> length (get_saved_campaigns s user) < 50) \<and>
      (get_campaign s cid = None \<longrightarrow> save_campaign e user cid s = Err CampaignNotFound) \<and>
      (get_campaign s cid \<noteq> None \<longrightarrow> cid \<in> set (get_saved_campaigns s user) \<longrightarrow>
        save_campaign e user cid s = Err CampaignAlreadyBookmarked) \<and>
      (get_campaign s cid \<noteq> None \<longrightarrow> cid \<notin> set (get_saved_campaigns s user) \<longrightarrow>
        50 \<le> length (get_saved_campaigns s user) \<longrightarrow> save_campaign e user cid s = Err BookmarkLimitReached) \<and>
      (\<forall>s1. save_campaign e user cid s = Inr s1 \<longrightarrow>
        get_saved_campaigns s1 = (get_saved_campaigns s)(user := get_saved_campaigns s user @ [cid]) \<and>
        save_campaign e user cid s1 = Err CampaignAlreadyBookmarked \<and>
        (\<exists>s2. remove_saved_campaign e user cid s1 = Inr s2 \<and> get_saved_campaigns s2 = get_saved_campaigns s)) \<and>
      (cid \<notin> set (get_saved_campaigns s user) \<longrightarrow>
        remove_saved_campaign e user cid s = Err CampaignNotBookmarked) \<and>
      (\<forall>xs ys. get_saved_campaigns s user = xs @ cid # ys \<longrightarrow> cid \<notin> set xs \<longrightarrow>
        (\<exists>s2. remove_saved_campaign e user cid s = Inr s2 \<and>
          get_saved_campaigns s2 = (get_saved_campaigns s)(user := xs @ ys)))"
proof (intro conjI allI impI)
  note save = save_step [OF assms, of cid s]
  show "is_ok (save_campaign e user cid s) \<longleftrightarrow> get_campaign s cid \<noteq> None \<and>
      cid \<notin> set (get_saved_campaigns s user) \<and> length (get_saved_campaigns s user) < 50"
    by (auto simp: save)
  fix s1 assume ok: "save_campaign e user cid s = Inr s1"
  then have out: "cid \<notin> set (get_saved_campaigns s user)"
    and saved: "get_saved_campaigns s1 = (get_saved_campaigns s)(user := get_saved_campaigns s user @ [cid])"
    and camp: "get_campaign s1 cid \<noteq> None"
    by (auto simp: save split: if_splits)
  show "get_saved_campaigns s1 = (get_saved_campaigns s)(user := get_saved_campaigns s user @ [cid])" by (fact saved)
  show "save_campaign e user cid s1 = Err CampaignAlreadyBookmarked"
    using camp by (simp add: save_step [OF assms] saved)
  show "\<exists>s2. remove_saved_campaign e user cid s1 = Inr s2 \<and> get_saved_campaigns s2 = get_saved_campaigns s"
    using remove_step(2) [OF assms, of s1 "get_saved_campaigns s user" cid "[]"] out by (auto simp: saved)
qed (use remove_step [OF assms] in \<open>auto simp: save_step [OF assms]\<close>)

theorem bookmark_roundtrip_witness:
  "\<exists>s1 s2. save_campaign (demo_env 3000) (Address 3) 1 demo_state = Inr s1 \<and>
    get_saved_campaigns s1 (Address 3) = [1] \<and>
    remove_saved_campaign (demo_env 3000) (Address 3) 1 s1 = Inr s2 \<and> get_saved_campaigns s2 (Address 3) = []"
proof -
  have saved: "get_saved_campaigns demo_state (Address 3) = []" by (simp add: demo_state_def base_eval)
  note trip = bookmark_roundtrip [of "demo_env 3000" "Address 3" 1 demo_state]
  have "is_ok (save_campaign (demo_env 3000) (Address 3) 1 demo_state)"
    using trip by (simp add: saved demo_facts)
  then obtain s1 where "save_campaign (demo_env 3000) (Address 3) 1 demo_state = Inr s1" by (rule is_okE)
  with trip show ?thesis by (auto simp: saved demo_facts)
qed

text \<open>
  A batch of bookmarks is not limited. \<open>batch_save_campaigns\<close> appends all the given ids, each once and
  none saved before, and never checks \<open>MAX_BOOKMARKS_PER_WALLET\<close>: whatever the length of the list, it
  succeeds exactly when the user signed, every id is a campaign, and no id repeats.
\<close>

lemma batch_bookmarks_unbounded:
  "(\<exists>s'. batch_save_campaigns e user cids s = Inr s') \<longleftrightarrow>
     e_auth e user \<and> (\<forall>cid \<in> set cids. get_campaign s cid \<noteq> None) \<and> distinct cids \<and>
     set cids \<inter> set (get_saved_campaigns s user) = {}"
proof -
  have items: "batch_save_items s cids saved = Inr r \<longleftrightarrow>
      r = saved @ cids \<and> (\<forall>cid \<in> set cids. get_campaign s cid \<noteq> None) \<and> distinct cids \<and>
      set cids \<inter> set saved = {}" for saved r
    by (induction cids arbitrary: saved) (auto simp: res_simps)
  show ?thesis
    by (auto simp: batch_save_campaigns_def res_simps items)
qed

end
