(* ===== verification/Cancel.thy ===== *)
theory Cancel
  imports Bookmarks
begin

text \<open>
  \<^verbatim>\<open>src/campaigns/cancel.rs\<close>: cancellation by the creator and by the admin.
\<close>

section \<open>Operations\<close>

text \<open>The writes the two cancellations share, from the global counter to the statistics.\<close>

definition deduct_raised :: "campaign \<Rightarrow> 'w state \<Rightarrow> (error, 'w state) res" where
  "deduct_raised c s =
    (if 0 < c_amount_raised c
     then (and_then (ok_or (i128_checked_sub (get_total_raised_global s) (c_amount_raised c)) Overflow) (\<lambda>tot. Ok (set_total_raised_global tot s)))
     else Ok s)"

definition close_cancelled :: "u32 \<Rightarrow> campaign \<Rightarrow> 'w state \<Rightarrow> (error, 'w state) res" where
  "close_cancelled cid c s =
    (let s1 = set_campaign cid (c\<lparr>c_is_cancelled := True, c_is_active := False\<rparr>) s;
         s2 = remove_voting_state cid s1;
         s3 = prune_bookmarks_for_campaign cid s2;
         s4 = decrement_active_campaign_count s3 in
     increment_cancelled_campaign_count s4)"

definition cancel_campaign ::
  "('w, 'm) env_scheme \<Rightarrow> u32 \<Rightarrow> 'w state \<Rightarrow> (error, 'w state) res" where
  "cancel_campaign e cid s =
    (and_then (get_creator_campaign e s cid) (\<lambda>c.
     and_then (require_not_paused s) (\<lambda>_.
     and_then (require_active_campaign c) (\<lambda>_.
     if c_funds_withdrawn c then Err CancellationNotAllowed else
     if c_funding_goal c \<le> c_amount_raised c then Err GoalMetCancellationNotAllowed else
     and_then (transition (campaign_state_of c) Cancelled) (\<lambda>_.
     let revenue_pool = get_revenue_pool s cid;
         s1 = (if 0 < revenue_pool then set_revenue_pool cid 0 s else s) in
     and_then (deduct_raised c s1) (\<lambda>s2.
     and_then (close_cancelled cid c s2) (\<lambda>s3.
     and_then (if 0 < revenue_pool
           then (and_then (campaign_token_client s3 cid) (\<lambda>tok.
                 and_then (transfer e tok (h_self e) (c_creator c) revenue_pool s3) (\<lambda>s4.
                 Ok (publish [Sym ''revenue_pool_refunded'', U32 cid] [I128 revenue_pool] s4))))
           else Ok s3) (\<lambda>s5.
     Ok (publish [Sym ''campaign_cancelled'', U32 cid, Addr (c_creator c)]
           [I128 (c_amount_raised c)] s5)))))))))"

definition admin_cancel_campaign ::
  "('w, 'm) env_scheme \<Rightarrow> address \<Rightarrow> u32 \<Rightarrow> string \<Rightarrow> 'w state \<Rightarrow> (error, 'w state) res" where
  "admin_cancel_campaign e admin cid reason s =
    (and_then (assert_admin e admin s) (\<lambda>_.
     and_then (require_not_paused s) (\<lambda>_.
     and_then (get_campaign_or_error s cid) (\<lambda>c.
     and_then (require_active_campaign c) (\<lambda>_.
     if c_funds_withdrawn c then Err CancellationNotAllowed else
     if length reason = 0 \<or> CAMPAIGN_DESCRIPTION_MAX_LEN < length reason
     then Err ValidationFailed else
     and_then (transition (campaign_state_of c) Cancelled) (\<lambda>_.
     and_then (deduct_raised c s) (\<lambda>s1.
     and_then (close_cancelled cid c s1) (\<lambda>s2.
     Ok (publish [Sym ''campaign_admin_cancelled'', U32 cid, Addr admin]
           [Addr (c_creator c), Str reason] s2)))))))))"

section \<open>Refinement of the escrow\<close>

lemma deduct_raised_core: "deduct_raised c s = Inr s' \<Longrightarrow> core s' = core s"
  by (auto simp: deduct_raised_def res_simps core_frame split: if_splits)

lemma close_cancelled_core: "close_cancelled cid c s = Inr s' \<Longrightarrow> core s' = k_cancel cid c (core s)"
  by (auto simp: close_cancelled_def Let_def res_simps core_frame k_cancel_def
      prune_bookmarks_for_campaign_def)

lemma cancel_campaign_core:
  assumes "cancel_campaign e cid s = Inr s'"
  obtains c where "get_campaign s cid = Some c" "e_auth e (c_creator c)"
    "c_is_active c" "\<not> c_is_cancelled c" "\<not> c_funds_withdrawn c"
    "c_amount_raised c < c_funding_goal c" "core s' = k_cancel cid c (core s)"
proof -
  have "\<exists>c. get_campaign s cid = Some c \<and> e_auth e (c_creator c) \<and>
    c_is_active c \<and> \<not> c_is_cancelled c \<and> \<not> c_funds_withdrawn c \<and>
    c_amount_raised c < c_funding_goal c \<and> core s' = k_cancel cid c (core s)"
    using assms
    apply (simp only: cancel_campaign_def Let_def res_simps not_not de_Morgan_disj)
    apply clarify
    apply (drule deduct_raised_core close_cancelled_core)+
    apply (rule exI, intro conjI, assumption)
    apply (auto simp: core_frame split: if_splits)
    done
  then show thesis using that by blast
qed

lemma admin_cancel_campaign_core:
  assumes "admin_cancel_campaign e a cid reason s = Inr s'"
  obtains c where "get_campaign s cid = Some c" "get_admin s = Some a" "e_auth e a"
    "c_is_active c" "\<not> c_is_cancelled c" "\<not> c_funds_withdrawn c"
    "core s' = k_cancel cid c (core s)"
proof -
  have "\<exists>c. get_campaign s cid = Some c \<and> get_admin s = Some a \<and> e_auth e a \<and>
    c_is_active c \<and> \<not> c_is_cancelled c \<and> \<not> c_funds_withdrawn c \<and> core s' = k_cancel cid c (core s)"
    using assms
    apply (simp only: admin_cancel_campaign_def Let_def res_simps not_not de_Morgan_disj)
    apply (elim exE conjE)
    apply (drule deduct_raised_core close_cancelled_core)+
    apply (rule exI, intro conjI, assumption)
    apply (auto simp: core_frame split: if_splits)
    done
  then show thesis using that by blast
qed

lemma cancel_steps:
  "cancel_campaign e cid s = Inr s' \<Longrightarrow> core_step (e_timestamp e) (core s) (core s')"
  "admin_cancel_campaign e a cid reason s = Inr s' \<Longrightarrow> core_step (e_timestamp e) (core s) (core s')"
  by (erule cancel_campaign_core admin_cancel_campaign_core,
      auto intro: core_step.cancelled simp: core_fields)+

section \<open>What a cancellation pays and deducts\<close>

lemma deduct_close_purse:
  "deduct_raised c s = Inr s' \<Longrightarrow> purse s' = (purse s)\<lparr>p_total :=
     (if 0 < c_amount_raised c then p_total (purse s) - c_amount_raised c else p_total (purse s))\<rparr>"
  "close_cancelled cid c s = Inr s' \<Longrightarrow> purse s' = purse s"
  by (auto simp: deduct_raised_def close_cancelled_def prune_bookmarks_for_campaign_def Let_def res_simps
      purse_frame purse_fields dest!: purse_increments split: if_splits)

lemma cancel_campaign_total:
  assumes "cancel_campaign e cid s = Inr s'" "get_campaign s cid = Some c" "0 < c_amount_raised c"
  shows "get_total_raised_global s' = get_total_raised_global s - c_amount_raised c"
proof -
  have "p_total (purse s') = p_total (purse s) - c_amount_raised c"
    using assms
    apply (simp only: cancel_campaign_def Let_def res_simps)
    apply clarify
    apply (drule deduct_close_purse)+
    apply (auto simp: purse_frame split: if_splits)
    done
  then show ?thesis by (simp add: purse_fields)
qed

end
