(* ===== verification/Update.thy ===== *)
theory Update
  imports Purse Example
begin

text \<open>
  \<^verbatim>\<open>src/campaigns/update.rs\<close>: edits of a campaign's texts and the one-shot extension
  of its deadline.
\<close>

section \<open>Operations\<close>

definition title_ok :: "string \<Rightarrow> bool" where
  "title_ok t \<longleftrightarrow> \<not> (length t < CAMPAIGN_TITLE_MIN_LEN \<or> CAMPAIGN_TITLE_MAX_LEN < length t)"

definition description_ok :: "string \<Rightarrow> bool" where
  "description_ok d \<longleftrightarrow>
     \<not> (length d < CAMPAIGN_DESCRIPTION_MIN_LEN \<or> CAMPAIGN_DESCRIPTION_MAX_LEN < length d)"

definition update_campaign ::
  "('w, 'm) env_scheme \<Rightarrow> u32 \<Rightarrow> string \<Rightarrow> string \<Rightarrow> 'w state \<Rightarrow> (error, 'w state) res" where
  "update_campaign e cid title description s =
    and_then (get_creator_campaign e s cid) (\<lambda>c.
    and_then (require_not_paused s) (\<lambda>_.
    and_then (require_unverified_campaign c) (\<lambda>_.
    if 0 < c_amount_raised c then Err ValidationFailed else
    and_then (require_active_campaign c) (\<lambda>_.
    if \<not> title_ok title then Err ValidationFailed else
    if \<not> description_ok description then Err ValidationFailed else
    let s1 = set_campaign cid (c\<lparr>c_title := title, c_description := description\<rparr>) s in
    Ok (publish [Sym ''campaign_metadata_updated'', U32 cid]
          [Str (c_title c), Str (c_description c), Str title, Str description] s1)))))"

definition update_campaign_description ::
  "('w, 'm) env_scheme \<Rightarrow> u32 \<Rightarrow> string \<Rightarrow> 'w state \<Rightarrow> (error, 'w state) res" where
  "update_campaign_description e cid description s =
    and_then (get_creator_campaign e s cid) (\<lambda>c.
    and_then (require_not_paused s) (\<lambda>_.
    and_then (require_active_campaign c) (\<lambda>_.
    if \<not> description_ok description then Err ValidationFailed else
    let was_verified = c_is_verified c;
        c' = c\<lparr>c_description := description\<rparr>;
        c'' = (if was_verified then c'\<lparr>c_is_verified := False\<rparr> else c');
        s1 = set_campaign cid c'' s;
        s2 = (if was_verified
              then publish [Sym ''campaign_verification_revoked'', U32 cid] [Addr (c_creator c)]
                     (remove_voting_state cid (decrement_verified_campaign_count s1))
              else s1) in
    Ok (publish [Sym ''campaign_metadata_updated'', U32 cid]
          [Str (c_title c), Str (c_description c), Str (c_title c), Str description] s2))))"

text \<open>\<open>additional_days * SECONDS_PER_DAY\<close> is unchecked, but bounded by the guard before it.\<close>

definition extend_campaign_deadline ::
  "('w, 'm) env_scheme \<Rightarrow> u32 \<Rightarrow> u64 \<Rightarrow> 'w state \<Rightarrow> (error, 'w state) res" where
  "extend_campaign_deadline e cid additional_days s =
    and_then (get_creator_campaign e s cid) (\<lambda>c.
    and_then (require_not_paused s) (\<lambda>_.
    and_then (require_active_campaign c) (\<lambda>_.
    if c_deadline_extended c then Err DeadlineAlreadyExtended else
    if c_deadline c \<le> e_timestamp e then Err DeadlinePassed else
    if additional_days = 0 \<or> MAX_EXTENSION_DAYS < additional_days then Err ExtensionTooLong else
    and_then (unwrap (u64_checked_mul additional_days SECONDS_PER_DAY)) (\<lambda>extra.
    and_then (ok_or (u64_checked_add (c_deadline c) extra) Overflow) (\<lambda>new_deadline.
    and_then (campaign_start_time_or_error s cid) (\<lambda>start_time.
    let category_cap = (case get_category_duration_cap s (c_category c) of
                          None \<Rightarrow> CAMPAIGN_DURATION_MAX_DAYS | Some d \<Rightarrow> d) in
    and_then (ok_or (u64_checked_sub new_deadline start_time) Overflow) (\<lambda>total_duration_seconds.
    let total_duration_days = total_duration_seconds div SECONDS_PER_DAY in
    if category_cap < total_duration_days then Err InvalidDuration else
    if CAMPAIGN_EXTENSION_MAX_DAYS < total_duration_days then Err InvalidDuration else
    let s1 = set_campaign cid
               (c\<lparr>c_deadline := new_deadline, c_deadline_extended := True\<rparr>) s in
    Ok (publish [Sym ''campaign_deadline_extended'', U32 cid]
          [U64 (c_deadline c), U64 new_deadline] s1))))))))"

section \<open>Refinement of the escrow\<close>

lemma update_campaign_step:
  assumes "update_campaign e cid t d s = Inr s'"
  shows "core_step now (core s) (core s')"
proof -
  from assms obtain c where "get_campaign s cid = Some c"
    "core s' = put cid (c\<lparr>c_title := t, c_description := d\<rparr>) (core s)"
    by (auto simp: update_campaign_def Let_def res_simps core_frame put_def)
  then show ?thesis by (elim editI) (rule edited_sameI, simp_all)
qed

lemma update_campaign_description_step:
  assumes "update_campaign_description e cid d s = Inr s'"
  shows "core_step now (core s) (core s')"
proof -
  from assms obtain c where c: "get_campaign s cid = Some c" "c_is_active c" "\<not> c_is_cancelled c"
    and eq: "core s' = (if c_is_verified c then k_revoke cid c d (core s)
       else put cid (c\<lparr>c_description := d\<rparr>) (core s))"
    by (auto simp: update_campaign_description_def Let_def res_simps core_frame put_def k_revoke_def
        split: if_splits)
  show ?thesis
  proof (cases "c_is_verified c")
    case True
    then show ?thesis using c eq by (auto intro: core_step.revoked simp: core_fields)
  next
    case False
    then show ?thesis using eq by (intro editI [OF c(1)]) (rule edited_sameI, simp_all)
  qed
qed

lemma extend_campaign_deadline_ok:
  assumes "extend_campaign_deadline e cid days s = Inr s'"
  obtains c st where "get_campaign s cid = Some c" "e_auth e (c_creator c)" "c_is_active c"
    "\<not> c_deadline_extended c" "e_timestamp e < c_deadline c" "1 \<le> days" "days \<le> 30"
    "get_campaign_start_time s cid = Some st"
    "(c_deadline c + days * 86400 - st) div 86400 \<le> 365"
    "core s' = put cid (c\<lparr>c_deadline := c_deadline c + days * 86400, c_deadline_extended := True\<rparr>) (core s)"
proof -
  have "\<exists>c st. get_campaign s cid = Some c \<and> e_auth e (c_creator c) \<and> c_is_active c \<and>
    \<not> c_deadline_extended c \<and> e_timestamp e < c_deadline c \<and> 1 \<le> days \<and> days \<le> 30 \<and>
    get_campaign_start_time s cid = Some st \<and> (c_deadline c + days * 86400 - st) div 86400 \<le> 365 \<and>
    core s' = put cid (c\<lparr>c_deadline := c_deadline c + days * 86400, c_deadline_extended := True\<rparr>) (core s)"
    using assms
    apply (simp only: extend_campaign_deadline_def Let_def res_simps de_Morgan_disj not_le not_less)
    apply (elim exE conjE)
    apply (rule exI, rule exI, intro conjI)
             apply assumption+
    by (auto simp: const_defs core_frame put_def)
  then show thesis using that by blast
qed

lemma extend_campaign_deadline_step:
  assumes "extend_campaign_deadline e cid days s = Inr s'"
  shows "core_step (e_timestamp e) (core s) (core s')"
  using assms
proof (rule extend_campaign_deadline_ok)
  fix c st
  assume c: "get_campaign s cid = Some c" "c_is_active c"
    "\<not> c_deadline_extended c" "e_timestamp e < c_deadline c" "1 \<le> days" "days \<le> 30"
    "get_campaign_start_time s cid = Some st"
    "(c_deadline c + days * 86400 - st) div 86400 \<le> 365"
    and eq: "core s' = put cid (c\<lparr>c_deadline := c_deadline c + days * 86400,
                                 c_deadline_extended := True\<rparr>) (core s)"
  have "edited (e_timestamp e) (get_campaign_start_time s cid) c
      (c\<lparr>c_deadline := c_deadline c + days * 86400, c_deadline_extended := True\<rparr>)"
    unfolding edited_def using c by simp
  then show ?thesis using c(1) eq by (rule_tac editI)
qed

section \<open>Frame\<close>

context fund_observer
begin

lemma update_obs:
  "update_campaign e cid t d s = Inr s' \<Longrightarrow> obs s' = obs s"
  "extend_campaign_deadline e cid days s = Inr s' \<Longrightarrow> obs s' = obs s"
  by (auto simp: update_campaign_def extend_campaign_deadline_def Let_def res_simps obs_simps)

end

section \<open>Properties\<close>

declare One_nat_def [simp del]

text \<open>
  One extension. A successful \<open>extend_campaign_deadline\<close> was signed by the creator before the
  deadline of an active campaign that had never been extended; it moves the deadline by exactly the
  days asked for, between 1 and 30, to a total of at most 365 days from the start, changes nothing else of
  the campaign, and every later attempt, by anybody at any time, is refused with
  \<open>DeadlineAlreadyExtended\<close> as long as the campaign is open and unpaused.
\<close>

lemma extension_is_single:
  assumes "extend_campaign_deadline e cid days s = Inr s'"
  shows "\<exists>c st. get_campaign s cid = Some c \<and> e_auth e (c_creator c) \<and> e_timestamp e < c_deadline c \<and>
    1 \<le> days \<and> days \<le> 30 \<and> get_campaign_start_time s cid = Some st \<and>
    (c_deadline c + days * 86400 - st) div 86400 \<le> 365 \<and>
    get_campaign s' = (get_campaign s)(cid \<mapsto>
      c\<lparr>c_deadline := c_deadline c + days * 86400, c_deadline_extended := True\<rparr>) \<and>
    (\<forall>(e' :: ('w, 'm) env_scheme) days'. e_auth e' (c_creator c) \<longrightarrow>
      extend_campaign_deadline e' cid days' s' = Err DeadlineAlreadyExtended)"
proof -
  from assms have run: "\<not> paused_flag s" "\<not> auto_paused_flag s"
    and live: "\<And>c. get_campaign s cid = Some c \<Longrightarrow> \<not> c_is_cancelled c"
    by (auto simp: extend_campaign_deadline_def Let_def res_simps)
  from extend_campaign_deadline_ok [OF assms] obtain c st where
    c: "get_campaign s cid = Some c" "e_auth e (c_creator c)" "c_is_active c"
    "e_timestamp e < c_deadline c" "1 \<le> days" "days \<le> 30" "get_campaign_start_time s cid = Some st"
    "(c_deadline c + days * 86400 - st) div 86400 \<le> 365"
    and eq: "core s' = put cid (c\<lparr>c_deadline := c_deadline c + days * 86400, c_deadline_extended := True\<rparr>) (core s)"
    by metis
  have camp: "get_campaign s' = (get_campaign s)(cid \<mapsto>
      c\<lparr>c_deadline := c_deadline c + days * 86400, c_deadline_extended := True\<rparr>)"
    by (simp add: core_fields [symmetric] eq put_def)
  have flags: "paused_flag s' = paused_flag s" "auto_paused_flag s' = auto_paused_flag s"
    using assms by (auto simp: extend_campaign_deadline_def Let_def res_simps store_defs)
  have "extend_campaign_deadline e' cid days' s' = Err DeadlineAlreadyExtended"
    if "e_auth e' (c_creator c)" for e' :: "('w, 'm) env_scheme" and days'
    using that run live [OF c(1)] c(3)
    by (simp add: extend_campaign_deadline_def get_creator_campaign_def get_campaign_or_error_def
        assert_creator_def require_auth_def require_not_paused_def require_active_campaign_def camp flags)
  with c camp show ?thesis by blast
qed

text \<open>
  Editing the description revokes the verification. A successful \<open>update_campaign_description\<close>
  was signed by the creator of an active campaign; it replaces the description and, when the
  campaign was verified, clears the flag and all four vote tallies, so that a new quorum is needed; but it
  keeps the record of who has voted, so no earlier voter can vote again.
\<close>

lemma description_edit_revokes:
  assumes "update_campaign_description e cid d s = Inr s'"
  shows "\<exists>c. get_campaign s cid = Some c \<and> e_auth e (c_creator c) \<and> c_is_active c \<and> \<not> c_is_cancelled c \<and>
    get_campaign s' = (get_campaign s)(cid \<mapsto> c\<lparr>c_description := d, c_is_verified := False\<rparr>) \<and>
    get_has_voted s' = get_has_voted s \<and>
    (if c_is_verified c
     then get_approve_votes s' cid = 0 \<and> get_reject_votes s' cid = 0 \<and> get_approve_weight s' cid = 0 \<and>
       get_reject_weight s' cid = 0 \<and> get_verified_campaign_count s' = get_verified_campaign_count s - 1
     else get_approve_votes s' = get_approve_votes s \<and> get_reject_votes s' = get_reject_votes s \<and>
       get_verified_campaign_count s' = get_verified_campaign_count s)"
proof -
  have "\<exists>c. get_campaign s cid = Some c \<and> e_auth e (c_creator c) \<and> c_is_active c \<and> \<not> c_is_cancelled c \<and>
    s' = publish [Sym ''campaign_metadata_updated'', U32 cid]
      [Str (c_title c), Str (c_description c), Str (c_title c), Str d]
      (if c_is_verified c
       then publish [Sym ''campaign_verification_revoked'', U32 cid] [Addr (c_creator c)]
         (remove_voting_state cid (decrement_verified_campaign_count
           (set_campaign cid (c\<lparr>c_description := d, c_is_verified := False\<rparr>) s)))
       else set_campaign cid (c\<lparr>c_description := d\<rparr>) s)"
    using assms by (auto simp: update_campaign_description_def Let_def res_simps)
  then obtain c where c: "get_campaign s cid = Some c" "e_auth e (c_creator c)" "c_is_active c" "\<not> c_is_cancelled c"
    and s': "s' = publish [Sym ''campaign_metadata_updated'', U32 cid]
      [Str (c_title c), Str (c_description c), Str (c_title c), Str d]
      (if c_is_verified c
       then publish [Sym ''campaign_verification_revoked'', U32 cid] [Addr (c_creator c)]
         (remove_voting_state cid (decrement_verified_campaign_count
           (set_campaign cid (c\<lparr>c_description := d, c_is_verified := False\<rparr>) s)))
       else set_campaign cid (c\<lparr>c_description := d\<rparr>) s)" by blast
  have same: "c\<lparr>c_description := d, c_is_verified := False\<rparr> = c\<lparr>c_description := d\<rparr>" if "\<not> c_is_verified c"
    using that by (cases c) simp
  show ?thesis
    by (rule exI [of _ c], cases "c_is_verified c")
      (simp_all add: c same, simp_all add: s' store_defs fun_eq_iff)
qed

end
