(* ===== verification/Ownership.thy ===== *)
theory Ownership
  imports Purse Example
begin

text \<open>
  \<^verbatim>\<open>src/campaigns/transfer.rs\<close>: the two-step transfer of a campaign to a new creator,
  with the swap-removal from the old creator's bucket and the append to the new one's.
\<close>

section \<open>Operations\<close>

fun first_index_of :: "'a list \<Rightarrow> 'a \<Rightarrow> nat option" where
  "first_index_of [] x = None"
| "first_index_of (y # ys) x = (if y = x then Some 0 else map_option Suc (first_index_of ys x))"

text \<open>\<open>Vec::get\<close>: an index out of range reads as \<open>None\<close>.\<close>

definition vec_get :: "'a list \<Rightarrow> nat \<Rightarrow> 'a option" where
  "vec_get xs i = (if i < length xs then Some (xs ! i) else None)"

text \<open>The scan over buckets \<open>b, b + 1, \<dots>\<close>, \<open>n\<close> of them.\<close>

primrec scan_buckets :: "'w state \<Rightarrow> address \<Rightarrow> u32 \<Rightarrow> u32 \<Rightarrow> nat \<Rightarrow> (u32 \<times> u32) option" where
  "scan_buckets s a cid b 0 = None"
| "scan_buckets s a cid b (Suc n) =
    (case first_index_of (get_creator_campaign_bucket s a b) cid of
       Some i \<Rightarrow> Some (b, i)
     | None \<Rightarrow> scan_buckets s a cid (b + 1) n)"

definition get_creator_campaign_position_or_legacy_scan ::
  "'w state \<Rightarrow> address \<Rightarrow> u32 \<Rightarrow> u32 \<Rightarrow> (u32 \<times> u32) option" where
  "get_creator_campaign_position_or_legacy_scan s a cid campaign_count =
    (case get_creator_campaign_position s a cid of
       Some p \<Rightarrow> Some p
     | None \<Rightarrow> scan_buckets s a cid 0 (u32_div_ceil campaign_count CREATOR_CAMPAIGNS_BUCKET_SIZE))"

definition initiate_campaign_transfer ::
  "('w, 'm) env_scheme \<Rightarrow> u32 \<Rightarrow> address \<Rightarrow> 'w state \<Rightarrow> (error, 'w state) res" where
  "initiate_campaign_transfer e cid new_creator s =
    and_then (get_creator_campaign e s cid) (\<lambda>c.
    and_then (require_not_paused s) (\<lambda>_.
    and_then (require_active_campaign c) (\<lambda>_.
    if c_funds_withdrawn c then Err CampaignNotActive else
    if new_creator = c_creator c then Err InvalidNewOwner else
    if mpc_is_some (c_pending_creator c) then Err TransferAlreadyPending else
    let s1 = set_campaign cid (c\<lparr>c_pending_creator := mpc_from new_creator\<rparr>) s in
    Ok (publish [Sym ''campaign_transfer_initiated'', U32 cid, Addr (c_creator c)]
          [Addr new_creator] s1))))"

definition pending_or_error :: "campaign \<Rightarrow> (error, address) res" where
  "pending_or_error c =
    (case c_pending_creator c of NoPending \<Rightarrow> Err NoTransferPending | Pending a \<Rightarrow> Ok a)"

text \<open>
  The removal of a campaign from a creator's index: the last entry of its bucket
  takes its slot, the count goes down.
\<close>

definition remove_from_creator_index ::
  "address \<Rightarrow> u32 \<Rightarrow> 'w state \<Rightarrow> (error, 'w state) res" where
  "remove_from_creator_index old cid s =
    (let old_count = get_creator_campaign_count s old in
     and_then (ok_or (get_creator_campaign_position_or_legacy_scan s old cid old_count) ValidationFailed)
       (\<lambda>(bucket_idx, slot_idx).
     let bucket = get_creator_campaign_bucket s old bucket_idx in
     if bucket = [] then Err ValidationFailed else
     if vec_get bucket slot_idx \<noteq> Some cid then Err ValidationFailed else
     let last_slot_idx = length bucket - 1 in
     and_then (ok_or (vec_get bucket last_slot_idx) ValidationFailed) (\<lambda>last_campaign_id.
     let bucket1 = (if slot_idx \<noteq> last_slot_idx then bucket[slot_idx := last_campaign_id] else bucket);
         s1 = (if slot_idx \<noteq> last_slot_idx
               then set_creator_campaign_position old last_campaign_id bucket_idx slot_idx s else s);
         s2 = set_creator_campaign_bucket old bucket_idx (butlast bucket1) s1;
         s3 = remove_creator_campaign_position old cid s2 in
     Ok (set_creator_campaign_count old (old_count - 1) s3))))"

definition add_to_creator_index :: "address \<Rightarrow> u32 \<Rightarrow> 'w state \<Rightarrow> (error, 'w state) res" where
  "add_to_creator_index a cid s =
    (let new_count = get_creator_campaign_count s a;
         bucket_idx = new_count div CREATOR_CAMPAIGNS_BUCKET_SIZE;
         bucket = get_creator_campaign_bucket s a bucket_idx @ [cid];
         s1 = set_creator_campaign_bucket a bucket_idx bucket s;
         s2 = set_creator_campaign_position a cid bucket_idx (length bucket - 1) s1 in
     and_then (unwrap (u32_checked_add new_count 1)) (\<lambda>n.
     Ok (set_creator_campaign_count a n s2)))"

definition accept_campaign_transfer ::
  "('w, 'm) env_scheme \<Rightarrow> u32 \<Rightarrow> 'w state \<Rightarrow> (error, 'w state) res" where
  "accept_campaign_transfer e cid s =
    and_then (get_campaign_or_error s cid) (\<lambda>c.
    and_then (require_active_campaign c) (\<lambda>_.
    and_then (require_not_paused s) (\<lambda>_.
    and_then (pending_or_error c) (\<lambda>pending.
    and_then (require_auth e pending) (\<lambda>_.
    if pending = c_creator c then Err InvalidNewOwner else
    and_then (remove_from_creator_index (c_creator c) cid s) (\<lambda>s1.
    and_then (add_to_creator_index pending cid s1) (\<lambda>s2.
    let s3 = set_campaign_creator_index cid pending s2;
        s4 = set_campaign cid (c\<lparr>c_creator := pending, c_pending_creator := NoPending\<rparr>) s3 in
    Ok (publish [Sym ''campaign_transfer_completed'', U32 cid]
          [Addr (c_creator c), Addr pending] s4))))))))"

definition cancel_campaign_transfer ::
  "('w, 'm) env_scheme \<Rightarrow> u32 \<Rightarrow> 'w state \<Rightarrow> (error, 'w state) res" where
  "cancel_campaign_transfer e cid s =
    and_then (get_creator_campaign e s cid) (\<lambda>c.
    and_then (require_not_paused s) (\<lambda>_.
    and_then (pending_or_error c) (\<lambda>pending_address.
    let s1 = set_campaign cid (c\<lparr>c_pending_creator := NoPending\<rparr>) s in
    Ok (publish [Sym ''campaign_transfer_cancelled'', U32 cid] [Addr pending_address] s1))))"

section \<open>Refinement of the escrow\<close>

lemma creator_index_core:
  "remove_from_creator_index a cid s = Inr s' \<Longrightarrow> core s' = core s"
  "add_to_creator_index a cid s = Inr s' \<Longrightarrow> core s' = core s"
  by (auto simp: remove_from_creator_index_def add_to_creator_index_def Let_def res_simps core_frame)

lemma initiate_campaign_transfer_step:
  assumes "initiate_campaign_transfer e cid a s = Inr s'"
  shows "core_step now (core s) (core s')"
proof -
  from assms obtain c where "get_campaign s cid = Some c" "a \<noteq> c_creator c"
    "core s' = put cid (c\<lparr>c_pending_creator := mpc_from a\<rparr>) (core s)"
    by (auto simp: initiate_campaign_transfer_def Let_def res_simps core_frame put_def)
  then show ?thesis by (elim editI) (rule edited_sameI, simp_all add: mpc_from_def)
qed

lemma pending_or_error_ok: "pending_or_error c = Inr a \<longleftrightarrow> c_pending_creator c = Pending a"
  by (auto simp: pending_or_error_def split: maybe_pending_creator.split)

lemma accept_campaign_transfer_hand_over:
  assumes "accept_campaign_transfer e cid s = Inr s'"
  shows "hand_over cid (core s) (core s')"
proof -
  from assms obtain c a where c: "get_campaign s cid = Some c" "c_is_active c" "\<not> c_is_cancelled c"
    "c_pending_creator c = Pending a" "a \<noteq> c_creator c"
    and core: "core s' = put cid (c\<lparr>c_creator := a, c_pending_creator := NoPending\<rparr>) (core s)"
    by (auto simp: accept_campaign_transfer_def Let_def res_simps core_frame put_def pending_or_error_ok
        dest!: creator_index_core)
  show ?thesis unfolding core by (rule handed_over) (use c in \<open>simp_all add: core_fields\<close>)
qed

lemma cancel_campaign_transfer_step:
  assumes "cancel_campaign_transfer e cid s = Inr s'"
  shows "core_step now (core s) (core s')"
proof -
  from assms obtain c where "get_campaign s cid = Some c"
    "core s' = put cid (c\<lparr>c_pending_creator := NoPending\<rparr>) (core s)"
    by (auto simp: cancel_campaign_transfer_def Let_def res_simps core_frame put_def)
  then show ?thesis by (elim editI) (rule edited_sameI, simp_all)
qed

section \<open>Frame\<close>

context fund_observer
begin

lemma pending_transfer_obs:
  "initiate_campaign_transfer e cid a s = Inr s' \<Longrightarrow> obs s' = obs s"
  "cancel_campaign_transfer e cid s = Inr s' \<Longrightarrow> obs s' = obs s"
  by (auto simp: initiate_campaign_transfer_def cancel_campaign_transfer_def Let_def res_simps obs_simps)

end

context catalogue_observer
begin

lemma accept_transfer_obs: "accept_campaign_transfer e cid s = Inr s' \<Longrightarrow> obs s' = obs s"
  by (auto simp: accept_campaign_transfer_def remove_from_creator_index_def add_to_creator_index_def
      Let_def res_simps obs_simps obs_creator)

end

end
