(* ===== verification/Revenue.thy ===== *)
theory Revenue
  imports Purse Example
begin

text \<open>
  \<^verbatim>\<open>src/revenue.rs\<close>: revenue deposited after a withdrawal and claimed by contributors
  pro rata and by the creator.
\<close>

section \<open>Operations\<close>

definition deposit_revenue ::
  "('w, 'm) env_scheme \<Rightarrow> u32 \<Rightarrow> i128 \<Rightarrow> 'w state \<Rightarrow> (error, 'w state) res" where
  "deposit_revenue e cid amt s =
    and_then (get_creator_campaign e s cid) (\<lambda>c.
    and_then (require_not_paused s) (\<lambda>_.
    if amt \<le> 0 then Err ValidationFailed else
    if c_is_cancelled c then Err CampaignNotActive else
    if \<not> c_funds_withdrawn c then Err ValidationFailed else
    and_then (require_revenue_sharing c RevenueSharingNotEnabled) (\<lambda>_.
    if c_amount_raised c = 0 then Err AmountRaisedIsZero else
    and_then (ok_or (i128_checked_add (get_revenue_pool s cid) amt) Overflow) (\<lambda>pool.
    let s1 = set_revenue_pool cid pool s in
    and_then (campaign_token_client s1 cid) (\<lambda>tok.
    and_then (transfer e tok (c_creator c) (h_self e) amt s1) (\<lambda>s2.
    Ok (publish [Sym ''revenue_deposited'', U32 cid, Addr (c_creator c)] [I128 amt] s2)))))))"

text \<open>\<open>contribution * pool * share / effective / 10000\<close>, every step checked.\<close>

definition contributor_due :: "i128 \<Rightarrow> i128 \<Rightarrow> u32 \<Rightarrow> i128 \<Rightarrow> (error, i128) res" where
  "contributor_due contribution pool share effective =
    ok_or (Option.bind (i128_checked_mul contribution pool) (\<lambda>n1.
           Option.bind (i128_checked_mul n1 (int share)) (\<lambda>n2.
           Option.bind (i128_checked_div n2 effective) (\<lambda>n3.
           i128_checked_div n3 (int BPS_DENOMINATOR))))) Overflow"

text \<open>\<open>pool * (10000 - share) / 10000\<close>: the creator's part of a pool.\<close>

definition creator_share :: "i128 \<Rightarrow> u32 \<Rightarrow> (error, i128) res" where
  "creator_share pool share =
    ok_or (Option.bind (i128_checked_mul pool (int BPS_DENOMINATOR - int share)) (\<lambda>n.
           i128_checked_div n (int BPS_DENOMINATOR))) Overflow"

text \<open>
  The amount a claim pays: the contributor's own share, or what is left of the
  contributor side when this is the first claim of the last contributor. The
  unchecked subtractions trap out of range.
\<close>

definition revenue_claimable ::
  "campaign \<Rightarrow> u32 \<Rightarrow> address \<Rightarrow> i128 \<Rightarrow> 'w state \<Rightarrow> (error, i128) res" where
  "revenue_claimable c cid who claimable s =
    (let already_claimed = get_revenue_claimed s cid who;
         is_first_claim = (already_claimed = 0);
         claimants_so_far = get_contributor_revenue_claimants s cid;
         total_contributors = get_contributor_count s cid;
         distributed_so_far = get_contributor_revenue_distributed s cid;
         total_pool = get_revenue_pool s cid in
     and_then (if is_first_claim \<and> 0 < total_contributors
               then and_then (ok_or (u32_checked_add claimants_so_far 1) Overflow) (\<lambda>n.
                    Ok (total_contributors \<le> n))
               else Ok False) (\<lambda>is_last_claimant.
     if is_last_claimant
     then and_then (creator_share total_pool (c_revenue_share_percentage c)) (\<lambda>creator_share_total.
          and_then (unwrap (i128_checked_sub total_pool creator_share_total)) (\<lambda>contributor_pool_total.
          and_then (unwrap (i128_checked_sub contributor_pool_total distributed_so_far)) (\<lambda>pool_remaining.
          Ok (if claimable < pool_remaining then pool_remaining else claimable))))
     else Ok claimable))"

definition claim_revenue ::
  "('w, 'm) env_scheme \<Rightarrow> u32 \<Rightarrow> address \<Rightarrow> 'w state \<Rightarrow> (error, 'w state) res" where
  "claim_revenue e cid who s =
    and_then (require_auth e who) (\<lambda>_.
    and_then (require_not_paused s) (\<lambda>_.
    and_then (get_campaign_or_error s cid) (\<lambda>c.
    if c_is_cancelled c then Err CampaignNotActive else
    and_then (require_revenue_sharing c ValidationFailed) (\<lambda>_.
    if \<not> c_funds_withdrawn c then Err ValidationFailed else
    let contribution = get_contribution s cid who in
    if contribution = 0 then Err ValidationFailed else
    if c_effective_amount_raised c = 0 then Err AmountRaisedIsZero else
    and_then (contributor_due contribution (get_revenue_pool s cid)
                (c_revenue_share_percentage c) (c_effective_amount_raised c)) (\<lambda>total_due.
    let already_claimed = get_revenue_claimed s cid who;
        claimants_so_far = get_contributor_revenue_claimants s cid;
        distributed_so_far = get_contributor_revenue_distributed s cid in
    and_then (unwrap (i128_checked_sub total_due already_claimed)) (\<lambda>own_share.
    if own_share \<le> 0 then Err NoFundsToWithdraw else
    and_then (revenue_claimable c cid who own_share s) (\<lambda>claimable.
    if claimable \<le> 0 then Err NoFundsToWithdraw else
    and_then (ok_or (i128_checked_add already_claimed claimable) Overflow) (\<lambda>claimed'.
    let s1 = set_revenue_claimed cid who claimed' s in
    and_then (ok_or (i128_checked_add distributed_so_far claimable) Overflow) (\<lambda>distributed'.
    let s2 = set_contributor_revenue_distributed cid distributed' s1 in
    and_then (if already_claimed = 0
              then and_then (ok_or (u32_checked_add claimants_so_far 1) Overflow) (\<lambda>n.
                   Ok (set_contributor_revenue_claimants cid n s2))
              else Ok s2) (\<lambda>s3.
    and_then (campaign_token_client s3 cid) (\<lambda>tok.
    and_then (transfer e tok (h_self e) who claimable s3) (\<lambda>s4.
    Ok (publish [Sym ''revenue_claimed'', U32 cid, Addr who] [I128 claimable] s4)))))))))))))"

definition claim_creator_revenue ::
  "('w, 'm) env_scheme \<Rightarrow> u32 \<Rightarrow> 'w state \<Rightarrow> (error, 'w state) res" where
  "claim_creator_revenue e cid s =
    and_then (get_creator_campaign e s cid) (\<lambda>c.
    and_then (require_not_paused s) (\<lambda>_.
    and_then (require_revenue_sharing c ValidationFailed) (\<lambda>_.
    if BPS_DENOMINATOR < c_revenue_share_percentage c then Err ValidationFailed else
    and_then (creator_share (get_revenue_pool s cid) (c_revenue_share_percentage c))
      (\<lambda>creator_share_total.
    let already_claimed = get_creator_revenue_claimed s cid in
    and_then (unwrap (i128_checked_sub creator_share_total already_claimed)) (\<lambda>claimable.
    if claimable \<le> 0 then Err NoFundsToWithdraw else
    and_then (ok_or (i128_checked_add already_claimed claimable) Overflow) (\<lambda>claimed'.
    let s1 = set_creator_revenue_claimed cid claimed' s in
    and_then (campaign_token_client s1 cid) (\<lambda>tok.
    and_then (transfer e tok (h_self e) (c_creator c) claimable s1) (\<lambda>s2.
    Ok (publish [Sym ''creator_revenue_claimed'', U32 cid, Addr (c_creator c)]
          [I128 claimable] s2)))))))))"

section \<open>Refinement of the escrow\<close>

lemma deposit_revenue_core: "deposit_revenue e cid x s = Inr s' \<Longrightarrow> core s' = core s"
  by (auto simp: deposit_revenue_def Let_def res_simps core_frame)

lemma claim_revenue_core: "claim_revenue e cid a s = Inr s' \<Longrightarrow> core s' = core s"
  by (simp only: claim_revenue_def Let_def res_simps, safe) (simp_all add: core_frame)

lemma claim_creator_revenue_core: "claim_creator_revenue e cid s = Inr s' \<Longrightarrow> core s' = core s"
  by (auto simp: claim_creator_revenue_def Let_def res_simps core_frame)

section \<open>Frame\<close>

context fund_observer
begin

lemma revenue_obs:
  "deposit_revenue e cid x s = Inr s' \<Longrightarrow> obs s' = obs s"
  "claim_revenue e cid a s = Inr s' \<Longrightarrow> obs s' = obs s"
  "claim_creator_revenue e cid s = Inr s' \<Longrightarrow> obs s' = obs s"
  subgoal by (auto simp: deposit_revenue_def Let_def res_simps obs_simps)
  subgoal by (simp only: claim_revenue_def Let_def res_simps, safe) (simp_all add: obs_simps)
  by (auto simp: claim_creator_revenue_def Let_def res_simps obs_simps)

end

section \<open>Shares\<close>

lemma contributor_due_eq:
  assumes "contributor_due ct pool share eff = Inr d" "0 \<le> ct" "0 \<le> pool" "0 < eff"
  shows "d = ct * pool * int share div eff div 10000" "0 \<le> d"
proof -
  have n: "0 \<le> ct * pool * int share" using assms(2, 3) by simp
  then have m: "0 \<le> ct * pool * int share div eff" using assms(4) by (simp add: pos_imp_zdiv_nonneg_iff)
  show "d = ct * pool * int share div eff div 10000"
    using assms(1, 4) n m by (auto simp: contributor_due_def ok_or_eq_ok bind_eq_Some_conv checked_eq_Some const_defs)
  with m show "0 \<le> d" by simp
qed

lemma creator_share_eq:
  assumes "creator_share pool share = Inr cs" "0 \<le> pool" "share \<le> BPS_DENOMINATOR"
  shows "cs = pool * (10000 - int share) div 10000" "0 \<le> cs" "cs \<le> pool"
proof -
  have n: "0 \<le> pool * (10000 - int share)" using assms(2, 3) by (simp add: BPS_DENOMINATOR_def)
  then show cs: "cs = pool * (10000 - int share) div 10000"
    using assms(1) by (auto simp: creator_share_def ok_or_eq_ok bind_eq_Some_conv checked_eq_Some const_defs)
  show "0 \<le> cs" using n cs by simp
  have "pool * (10000 - int share) \<le> pool * 10000" using assms(2) by (intro mult_left_mono) simp_all
  then show "cs \<le> pool" using cs by linarith
qed

lemma sum_div_le:
  fixes f :: "'a \<Rightarrow> int"
  assumes "finite A" "0 < (n :: int)" "(\<Sum>a \<in> A. f a) \<le> b"
  shows "(\<Sum>a \<in> A. f a div n) \<le> b div n"
proof -
  have "(\<Sum>a \<in> A. f a div n) * n = (\<Sum>a \<in> A. f a div n * n)" by (rule sum_distrib_right)
  also have "\<dots> \<le> (\<Sum>a \<in> A. f a)"
    using assms(2) by (intro sum_mono) (simp add: minus_mod_eq_div_mult [symmetric])
  also have "\<dots> \<le> b" by (rule assms(3))
  finally have "(\<Sum>a \<in> A. f a div n) * n div n \<le> b div n" by (rule zdiv_mono1) (rule assms(2))
  then show ?thesis using assms(2) by simp
qed

text \<open>What is left of a pool when the creator's share is taken out.\<close>

definition contributor_side :: "i128 \<Rightarrow> u32 \<Rightarrow> i128" where
  "contributor_side pool share = pool - pool * (10000 - int share) div 10000"

lemma contributor_side_bounds:
  assumes "0 \<le> pool" "share \<le> BPS_DENOMINATOR"
  shows "0 \<le> contributor_side pool share" "contributor_side pool share \<le> pool"
proof -
  have "pool * (10000 - int share) \<le> pool * 10000" using assms(1) by (intro mult_left_mono) simp_all
  then show "0 \<le> contributor_side pool share" unfolding contributor_side_def by linarith
  have "0 \<le> pool * (10000 - int share)" using assms by (simp add: BPS_DENOMINATOR_def)
  then show "contributor_side pool share \<le> pool" by (simp add: contributor_side_def)
qed

lemma shares_within_side:
  assumes ct: "\<forall>a. 0 \<le> ct a" "finite {a. ct a \<noteq> 0}" "support_sum ct = eff" "0 < eff"
    and pool: "0 \<le> pool" "share \<le> BPS_DENOMINATOR" and due: "finite A" "\<forall>a \<in> A. contributor_due (ct a) pool share eff = Inr (d a)"
  shows "(\<Sum>a \<in> A. d a) \<le> contributor_side pool share"
proof -
  let ?k = "pool * int share"
  have k: "0 \<le> ?k" using pool(1) by simp
  have d: "d a = ct a * ?k div eff div 10000" if "a \<in> A" for a
    using contributor_due_eq(1) [OF due(2) [rule_format, OF that] ct(1) [rule_format] pool(1) ct(4)]
    by (simp add: mult.assoc)
  have "(\<Sum>a \<in> A. ct a) \<le> (\<Sum>a \<in> A \<union> {a. ct a \<noteq> 0}. ct a)"
    using ct(1, 2) due(1) by (intro sum_mono2) auto
  also have "\<dots> = eff" using ct(2, 3) due(1) by (subst support_sum_superset [symmetric]) auto
  finally have "(\<Sum>a \<in> A. ct a * ?k) \<le> eff * ?k"
    unfolding sum_distrib_right [symmetric] using k by (rule mult_right_mono)
  then have "(\<Sum>a \<in> A. ct a * ?k div eff) \<le> eff * ?k div eff" by (rule sum_div_le [OF due(1) ct(4)])
  then have "(\<Sum>a \<in> A. ct a * ?k div eff div 10000) \<le> ?k div 10000"
    using ct(4) by (intro sum_div_le [OF due(1)]) simp_all
  moreover have "(\<Sum>a \<in> A. d a) = (\<Sum>a \<in> A. ct a * ?k div eff div 10000)" using d by (rule sum.cong [OF refl])
  moreover have "pool * (10000 - int share) = pool * 10000 - ?k" by (simp add: algebra_simps)
  ultimately show ?thesis unfolding contributor_side_def by linarith
qed

section \<open>The token side\<close>

lemma claim_revenue_purse:
  assumes "claim_revenue e cid who s = Inr s'"
  obtains c due pay tok where "get_campaign s cid = Some c" "e_auth e who" "c_has_revenue_sharing c"
    "c_funds_withdrawn c" "\<not> c_is_cancelled c" "get_contribution s cid who \<noteq> 0"
    "contributor_due (get_contribution s cid who) (get_revenue_pool s cid)
       (c_revenue_share_percentage c) (c_effective_amount_raised c) = Inr due"
    "get_revenue_claimed s cid who < due"
    "revenue_claimable c cid who (due - get_revenue_claimed s cid who) s = Inr pay" "0 < pay"
    "get_campaign_token s cid = Some tok"
    "h_transfer e tok (h_self e) who pay (st_world s) = Some (st_world s')"
    "get_revenue_claimed s' = (get_revenue_claimed s)
       (cid := (get_revenue_claimed s cid)(who := get_revenue_claimed s cid who + pay))"
    "get_contributor_revenue_distributed s' = (get_contributor_revenue_distributed s)
       (cid := get_contributor_revenue_distributed s cid + pay)"
    "get_revenue_pool s' = get_revenue_pool s" "core s' = core s"
proof -
  have "\<exists>c due pay tok. get_campaign s cid = Some c \<and> e_auth e who \<and> c_has_revenue_sharing c \<and>
    c_funds_withdrawn c \<and> \<not> c_is_cancelled c \<and> get_contribution s cid who \<noteq> 0 \<and>
    contributor_due (get_contribution s cid who) (p_pool (purse s) cid)
       (c_revenue_share_percentage c) (c_effective_amount_raised c) = Inr due \<and>
    p_claimed (purse s) cid who < due \<and>
    revenue_claimable c cid who (due - p_claimed (purse s) cid who) s = Inr pay \<and> 0 < pay \<and>
    p_token (purse s) cid = Some tok \<and>
    h_transfer e tok (h_self e) who pay (p_world (purse s)) = Some (p_world (purse s')) \<and>
    p_claimed (purse s') = (p_claimed (purse s))
       (cid := (p_claimed (purse s) cid)(who := p_claimed (purse s) cid who + pay)) \<and>
    p_distributed (purse s') = (p_distributed (purse s))(cid := p_distributed (purse s) cid + pay) \<and>
    p_pool (purse s') = p_pool (purse s) \<and> core s' = core s"
    using assms
    apply (simp only: claim_revenue_def Let_def res_simps not_not not_le purse_reads)
    apply clarify
    apply (auto simp: purse_frame core_frame)
    done
  then show thesis using that unfolding purse_fields by blast
qed

section \<open>Properties\<close>

declare One_nat_def [simp del]

text \<open>The demo campaign after its withdrawal, with a revenue pool.\<close>

definition shared_state :: "i128 \<Rightarrow> balances state" where
  "shared_state pool = set_revenue_pool 1 pool
     (set_campaign 1 (demo_campaign\<lparr>c_funds_withdrawn := True, c_is_active := False\<rparr>) demo_state)"

text \<open>A claim that pays, as the state it leaves.\<close>

definition after_claim ::
  "address \<Rightarrow> i128 \<Rightarrow> i128 \<Rightarrow> i128 \<Rightarrow> u32 option \<Rightarrow> balances state \<Rightarrow> balances state" where
  "after_claim who pay claimed distributed first s =
    publish [Sym ''revenue_claimed'', U32 1, Addr who] [I128 pay]
      ((case first of None \<Rightarrow> (\<lambda>t. t) | Some n \<Rightarrow> set_contributor_revenue_claimants 1 n)
        (set_contributor_revenue_distributed 1 distributed (set_revenue_claimed 1 who claimed s))
       \<lparr>st_world := the (demo_transfer (Address 1) (Address 99) who pay (st_world s))\<rparr>)"

definition shared_1 :: "balances state" where
  "shared_1 = after_claim (Address 3) 5999 5999 5999 (Some 1) (shared_state 100000)"

lemmas shared_evals =
  contributor_due_def creator_share_def revenue_claimable_def after_claim_def shared_state_def

lemma shared_run: "claim_revenue (demo_env 900000) 1 (Address 3) (shared_state 100000) = Inr shared_1"
  by (simp only: claim_revenue_def) (simp add: shared_1_def shared_evals eval_simps)

text \<open>
  C25: What a revenue claim does. A successful \<open>claim_revenue\<close> was signed by a contributor of a
  withdrawn revenue-sharing campaign; it pays at least the difference between the share and what was
  claimed before (more only to the last first-time claimant), adds exactly the payment to the claimed
  and distributed amounts and leaves the pool alone.
\<close>

theorem claim_revenue_effect:
  assumes "claim_revenue e cid who s = Inr s'"
  shows "\<exists>c due pay tok. get_campaign s cid = Some c \<and> e_auth e who \<and> c_has_revenue_sharing c \<and>
    c_funds_withdrawn c \<and> get_contribution s cid who \<noteq> 0 \<and>
    contributor_due (get_contribution s cid who) (get_revenue_pool s cid)
      (c_revenue_share_percentage c) (c_effective_amount_raised c) = Inr due \<and>
    0 < pay \<and> due - get_revenue_claimed s cid who \<le> pay \<and>
    (get_revenue_claimed s cid who \<noteq> 0 \<or>
     get_contributor_revenue_claimants s cid + 1 < get_contributor_count s cid \<longrightarrow>
       pay = due - get_revenue_claimed s cid who) \<and>
    get_campaign_token s cid = Some tok \<and>
    h_transfer e tok (h_self e) who pay (st_world s) = Some (st_world s') \<and>
    get_revenue_claimed s' cid who = get_revenue_claimed s cid who + pay \<and>
    get_contributor_revenue_distributed s' cid = get_contributor_revenue_distributed s cid + pay \<and>
    get_revenue_pool s' = get_revenue_pool s"
proof -
  from claim_revenue_purse [OF assms] obtain c due pay tok where
    *: "get_campaign s cid = Some c" "e_auth e who" "c_has_revenue_sharing c" "c_funds_withdrawn c"
    "get_contribution s cid who \<noteq> 0"
    "contributor_due (get_contribution s cid who) (get_revenue_pool s cid)
       (c_revenue_share_percentage c) (c_effective_amount_raised c) = Inr due" "0 < pay"
    and claimable: "revenue_claimable c cid who (due - get_revenue_claimed s cid who) s = Inr pay"
    and rest: "get_campaign_token s cid = Some tok"
    "h_transfer e tok (h_self e) who pay (st_world s) = Some (st_world s')"
    "get_revenue_claimed s' cid who = get_revenue_claimed s cid who + pay"
    "get_contributor_revenue_distributed s' cid = get_contributor_revenue_distributed s cid + pay"
    "get_revenue_pool s' = get_revenue_pool s" by (metis fun_upd_same)
  have "due - get_revenue_claimed s cid who \<le> pay" "get_revenue_claimed s cid who \<noteq> 0 \<or>
     get_contributor_revenue_claimants s cid + 1 < get_contributor_count s cid \<longrightarrow>
       pay = due - get_revenue_claimed s cid who"
    using claimable by (auto simp: revenue_claimable_def Let_def res_simps split: if_splits)
  with * rest show ?thesis by blast
qed

theorem claim_revenue_effect_witness:
  "get_revenue_claimed shared_1 1 (Address 3) = 5999"
proof -
  have "get_revenue_claimed (shared_state 100000) 1 (Address 3) = 0"
    "get_contributor_revenue_claimants (shared_state 100000) 1 = 0"
    "get_contributor_count (shared_state 100000) 1 = 2"
    "get_contribution (shared_state 100000) 1 (Address 3) = 60000"
    "get_revenue_pool (shared_state 100000) 1 = 100000"
    "get_campaign (shared_state 100000) 1 =
       Some (demo_campaign\<lparr>c_funds_withdrawn := True, c_is_active := False\<rparr>)"
    by (simp_all add: shared_state_def demo_state_def base_eval)
  moreover have "contributor_due 60000 100000 1000 100001 = Inr 5999"
    by (simp add: contributor_due_def checked_simps const_defs in_i128_def i128_min_def i128_max_def)
  ultimately show ?thesis
    using claim_revenue_effect [OF shared_run] by (auto simp: demo_campaign_fields)
qed

end
