(* ===== verification/Voting.thy ===== *)
theory Voting
  imports Purse Example
begin

text \<open>
  \<^verbatim>\<open>src/voting.rs\<close>: community votes, one address one vote, and the two ways a
  campaign becomes verified.
\<close>

section \<open>Operations\<close>

definition DEFAULT_MIN_VOTES_QUORUM :: u32 where [const_defs]: "DEFAULT_MIN_VOTES_QUORUM = 3"
definition MAX_VOTES_QUORUM :: u32 where [const_defs]: "MAX_VOTES_QUORUM = 1000"
definition DEFAULT_APPROVAL_THRESHOLD_BPS :: u32 where
  [const_defs]: "DEFAULT_APPROVAL_THRESHOLD_BPS = 6000"
definition MIN_APPROVAL_THRESHOLD_BPS :: u32 where
  [const_defs]: "MIN_APPROVAL_THRESHOLD_BPS = 1000"

definition effective_approval_threshold_bps :: "'w state \<Rightarrow> category \<Rightarrow> u32" where
  "effective_approval_threshold_bps s cat =
    (case get_category_voting_threshold_bps s cat of
       None \<Rightarrow> get_approval_threshold_bps s DEFAULT_APPROVAL_THRESHOLD_BPS
     | Some bps \<Rightarrow> bps)"

definition set_params :: "u32 \<Rightarrow> u32 \<Rightarrow> 'w state \<Rightarrow> (error, 'w state) res" where
  "set_params min_votes_quorum approval_threshold_bps s =
    (if min_votes_quorum = 0 \<or> MAX_VOTES_QUORUM < min_votes_quorum
        \<or> \<not> (MIN_APPROVAL_THRESHOLD_BPS \<le> approval_threshold_bps
             \<and> approval_threshold_bps \<le> BPS_DENOMINATOR)
     then Err ValidationFailed
     else Ok (set_approval_threshold_bps approval_threshold_bps
                (set_min_votes_quorum min_votes_quorum s)))"

text \<open>One unit on the approving or the rejecting side, count and mirrored weight.\<close>

definition record_vote :: "u32 \<Rightarrow> bool \<Rightarrow> 'w state \<Rightarrow> (error, 'w state) res" where
  "record_vote cid approve s =
    (if approve
     then and_then (ok_or (u32_checked_add (get_approve_votes s cid) 1) Overflow) (\<lambda>new_count.
          let s1 = set_approve_votes cid new_count s in
          and_then (ok_or (i128_checked_add (get_approve_weight s1 cid) 1) Overflow) (\<lambda>new_weight.
          Ok (set_approve_weight cid new_weight s1)))
     else and_then (ok_or (u32_checked_add (get_reject_votes s cid) 1) Overflow) (\<lambda>new_count.
          let s1 = set_reject_votes cid new_count s in
          and_then (ok_or (i128_checked_add (get_reject_weight s1 cid) 1) Overflow) (\<lambda>new_weight.
          Ok (set_reject_weight cid new_weight s1))))"

definition cast_vote ::
  "('w, 'm) env_scheme \<Rightarrow> u32 \<Rightarrow> address \<Rightarrow> bool \<Rightarrow> 'w state \<Rightarrow> (error, 'w state) res" where
  "cast_vote e cid voter approve s =
    and_then (require_auth e voter) (\<lambda>_.
    and_then (get_campaign_or_error s cid) (\<lambda>c.
    if c_funds_withdrawn c then Err CampaignNotActive else
    and_then (require_active_campaign c) (\<lambda>_.
    if c_deadline c < e_timestamp e then Err DeadlinePassed else
    and_then (require_unverified_campaign c) (\<lambda>_.
    and_then (token_client s) (\<lambda>tok.
    and_then (unwrap (h_balance e tok voter (st_world s))) (\<lambda>balance.
    if balance \<le> 0 then Err NotTokenHolder else
    if balance < get_min_voting_balance s then Err NotTokenHolder else
    if get_has_voted s cid voter then Err AlreadyVoted else
    and_then (record_vote cid approve s) (\<lambda>s1.
    Ok (publish [Sym ''campaign_vote_cast'', U32 cid, Addr voter]
          [Bool approve, I128 balance, I128 1] (set_has_voted cid voter s1)))))))))"

definition mark_verified :: "u32 \<Rightarrow> campaign \<Rightarrow> 'w state \<Rightarrow> (error, 'w state) res" where
  "mark_verified cid c s =
    and_then (transition (campaign_state_of c) Verified) (\<lambda>_.
    increment_verified_campaign_count (set_campaign cid (c\<lparr>c_is_verified := True\<rparr>) s))"

definition admin_verify :: "u32 \<Rightarrow> 'w state \<Rightarrow> (error, 'w state) res" where
  "admin_verify cid s =
    and_then (get_campaign_or_error s cid) (\<lambda>c.
    if c_is_cancelled c then Err CampaignNotActive else
    if c_is_verified c then Err AdminVerificationConflict else
    and_then (require_active_campaign c) (\<lambda>_.
    and_then (mark_verified cid c s) (\<lambda>s1.
    Ok (publish [Sym ''campaign_verified'', U32 cid] [] s1))))"

text \<open>
  \<open>(approve as u64).checked_mul(10000).and_then(checked_div(total)).unwrap_or(0) as u32\<close>;
  the quotient is at most 10000, so the cast keeps it.
\<close>

definition approval_bps :: "u32 \<Rightarrow> u32 \<Rightarrow> u32" where
  "approval_bps approve_votes total_votes =
    (case u64_checked_mul approve_votes BPS_DENOMINATOR of
       None \<Rightarrow> 0
     | Some n \<Rightarrow> if total_votes = 0 then 0 else (n div total_votes) mod (u32_max + 1))"

definition verify_with_votes :: "u32 \<Rightarrow> 'w state \<Rightarrow> (error, 'w state) res" where
  "verify_with_votes cid s =
    and_then (get_campaign_or_error s cid) (\<lambda>c.
    if c_is_cancelled c then Err CampaignNotActive else
    if c_is_verified c then Err CommunityVerificationConflict else
    and_then (require_active_campaign c) (\<lambda>_.
    let approve_votes = get_approve_votes s cid;
        reject_votes = get_reject_votes s cid in
    and_then (ok_or (u32_checked_add approve_votes reject_votes) Overflow) (\<lambda>total_votes.
    if total_votes < get_min_votes_quorum s DEFAULT_MIN_VOTES_QUORUM then Err VotingQuorumNotMet else
    if approval_bps approve_votes total_votes < effective_approval_threshold_bps s (c_category c)
    then Err VotingThresholdNotMet else
    and_then (mark_verified cid c s) (\<lambda>s1.
    Ok (publish [Sym ''campaign_verified'', U32 cid] [U32 approve_votes] s1)))))"

section \<open>Refinement of the escrow\<close>

lemma record_vote_core: "record_vote cid b s = Inr s' \<Longrightarrow> core s' = core s"
  by (auto simp: record_vote_def Let_def res_simps core_frame split: if_splits)

lemma cast_vote_core: "cast_vote e cid a b s = Inr s' \<Longrightarrow> core s' = core s"
  by (auto simp: cast_vote_def Let_def res_simps core_frame dest!: record_vote_core)

lemma mark_verified_ok:
  assumes "mark_verified cid c s = Inr s'"
  shows "core s' = k_verify cid c (core s)" "campaign_state_of c = Active"
  using assms by (auto simp: mark_verified_def res_simps core_frame k_verify_def)

lemma campaign_state_of_Active: "campaign_state_of c = Active \<Longrightarrow>
    \<not> c_is_cancelled c \<and> \<not> c_funds_withdrawn c \<and> \<not> c_is_verified c"
  by (auto simp: campaign_state_of_def split: if_splits)

lemma mark_verified_step:
  assumes "mark_verified cid c s = Inr s1" "get_campaign s cid = Some c" "c_is_active c"
    "core s' = core s1"
  shows "core_step now (core s) (core s')"
proof -
  note ok = mark_verified_ok [OF assms(1)]
  show ?thesis
    unfolding assms(4) ok(1)
    by (rule core_step.verified) (use assms campaign_state_of_Active [OF ok(2)] in \<open>simp_all add: core_fields\<close>)
qed

lemma verify_step:
  "admin_verify cid s = Inr s' \<Longrightarrow> core_step now (core s) (core s')"
  "verify_with_votes cid s = Inr s' \<Longrightarrow> core_step now (core s) (core s')"
  by (simp only: admin_verify_def verify_with_votes_def Let_def res_simps, elim exE conjE,
      erule mark_verified_step, assumption+, clarsimp simp: core_frame)+

section \<open>Ballots\<close>

text \<open>The votes of a campaign: who voted, and the two tallies with their mirrored weights.\<close>

record ballots =
  b_voted :: "u32 \<Rightarrow> address \<Rightarrow> bool"
  b_approve :: "u32 \<Rightarrow> u32"
  b_reject :: "u32 \<Rightarrow> u32"
  b_approve_weight :: "u32 \<Rightarrow> i128"
  b_reject_weight :: "u32 \<Rightarrow> i128"

definition ballots :: "'w state \<Rightarrow> ballots" where
  "ballots s =
    \<lparr>b_voted = get_has_voted s, b_approve = get_approve_votes s, b_reject = get_reject_votes s,
     b_approve_weight = get_approve_weight s, b_reject_weight = get_reject_weight s\<rparr>"

lemma ballots_fields:
  "b_voted (ballots s) = get_has_voted s" "b_approve (ballots s) = get_approve_votes s"
  "b_reject (ballots s) = get_reject_votes s" "b_approve_weight (ballots s) = get_approve_weight s"
  "b_reject_weight (ballots s) = get_reject_weight s"
  by (simp_all add: ballots_def)

definition vote_for :: "u32 \<Rightarrow> address \<Rightarrow> bool \<Rightarrow> ballots \<Rightarrow> ballots" where
  "vote_for cid voter approve b =
    (let b1 = b\<lparr>b_voted := (b_voted b)(cid := (b_voted b cid)(voter := True))\<rparr> in
     if approve
     then b1\<lparr>b_approve := (b_approve b)(cid := b_approve b cid + 1),
             b_approve_weight := (b_approve_weight b)(cid := b_approve_weight b cid + 1)\<rparr>
     else b1\<lparr>b_reject := (b_reject b)(cid := b_reject b cid + 1),
             b_reject_weight := (b_reject_weight b)(cid := b_reject_weight b cid + 1)\<rparr>)"

lemma ballots_writes:
  "ballots (set_has_voted cid a s) = (ballots s)\<lparr>b_voted := (b_voted (ballots s))(cid := (b_voted (ballots s) cid)(a := True))\<rparr>"
  "ballots (set_approve_votes cid n s) = (ballots s)\<lparr>b_approve := (b_approve (ballots s))(cid := n)\<rparr>"
  "ballots (set_reject_votes cid n s) = (ballots s)\<lparr>b_reject := (b_reject (ballots s))(cid := n)\<rparr>"
  "ballots (set_approve_weight cid i s) = (ballots s)\<lparr>b_approve_weight := (b_approve_weight (ballots s))(cid := i)\<rparr>"
  "ballots (set_reject_weight cid i s) = (ballots s)\<lparr>b_reject_weight := (b_reject_weight (ballots s))(cid := i)\<rparr>"
  "ballots (remove_has_voted cid a s) = (ballots s)\<lparr>b_voted := (b_voted (ballots s))(cid := (b_voted (ballots s) cid)(a := False))\<rparr>"
  "ballots (remove_voting_state cid s) = (ballots s)
     \<lparr>b_approve := (b_approve (ballots s))(cid := 0), b_reject := (b_reject (ballots s))(cid := 0),
      b_approve_weight := (b_approve_weight (ballots s))(cid := 0),
      b_reject_weight := (b_reject_weight (ballots s))(cid := 0)\<rparr>"
  "ballots (publish tp v s) = ballots s"
  by (simp_all add: ballots_def store_defs fun_eq_iff)

interpretation ballot_box: escrow_observer ballots
  by unfold_locales (simp_all add: ballots_def store_defs fun_eq_iff)

lemma record_vote_ballots:
  assumes "record_vote cid approve s = Inr s'"
  shows "ballots (set_has_voted cid voter s') = vote_for cid voter approve (ballots s)"
  using assms
  by (auto simp: record_vote_def vote_for_def Let_def res_simps ballots_fields [symmetric] ballots_writes
      split: if_splits intro!: ballots.equality)

lemma cast_vote_ballots:
  assumes "cast_vote e cid voter approve s = Inr s'"
  obtains c tok balance where "get_campaign s cid = Some c" "e_auth e voter" "c_is_active c"
    "\<not> c_is_verified c" "\<not> c_funds_withdrawn c" "\<not> c_is_cancelled c" "e_timestamp e \<le> c_deadline c"
    "get_token s = Some tok" "h_balance e tok voter (st_world s) = Some balance"
    "0 < balance" "get_min_voting_balance s \<le> balance" "\<not> get_has_voted s cid voter"
    "ballots s' = vote_for cid voter approve (ballots s)"
proof -
  have "\<exists>c tok balance. get_campaign s cid = Some c \<and> e_auth e voter \<and> c_is_active c \<and>
    \<not> c_is_verified c \<and> \<not> c_funds_withdrawn c \<and> \<not> c_is_cancelled c \<and> e_timestamp e \<le> c_deadline c \<and>
    get_token s = Some tok \<and> h_balance e tok voter (st_world s) = Some balance \<and>
    0 < balance \<and> get_min_voting_balance s \<le> balance \<and> \<not> get_has_voted s cid voter \<and>
    ballots s' = vote_for cid voter approve (ballots s)"
    using assms
    by (simp only: cast_vote_def Let_def res_simps not_not not_le not_less, clarify)
      (simp add: record_vote_ballots ballots_writes(8))
  then show thesis using that by blast
qed

section \<open>Properties\<close>

declare One_nat_def [simp del]


text \<open>An unverified campaign that is up for votes.\<close>

definition voting_state :: "balances state" where
  "voting_state = set_campaign 1 (demo_campaign\<lparr>c_is_verified := False\<rparr>) demo_state"


lemma approval_bps_ge_iff:
  assumes "a + r \<le> u32_max" "0 < a + r"
  shows "th \<le> approval_bps a (a + r) \<longleftrightarrow> th * (a + r) \<le> a * BPS_DENOMINATOR"
proof -
  have le: "a * 10000 \<le> u64_max" using assms(1) by (simp add: u32_max_def u64_max_def)
  have "a * 10000 div (a + r) \<le> 10000 * (a + r) div (a + r)" by (rule div_le_mono) simp
  then have "a * 10000 div (a + r) \<le> 10000"
    using nonzero_mult_div_cancel_right [of "a + r" 10000] assms(2) by simp
  then have "approval_bps a (a + r) = a * 10000 div (a + r)"
    using le assms(2) by (simp add: approval_bps_def checked_simps BPS_DENOMINATOR_def u32_max_def)
  then show ?thesis using assms(2) by (simp add: less_eq_div_iff_mult_less_eq BPS_DENOMINATOR_def)
qed



end
