(* ===== verification/Admin.thy ===== *)
theory Admin
  imports Voting
begin

text \<open>
  \<^verbatim>\<open>src/admin.rs\<close>: initialisation, the pause switches, platform configuration, the
  timelocked token update, the two-step admin transfer, and the purge of voting state.
\<close>

section \<open>Initialisation and pause\<close>

text \<open>A \<open>decimals\<close> call that fails or does not answer a \<open>u32\<close> is no token contract.\<close>

definition probe_token :: "('w, 'm) env_scheme \<Rightarrow> address \<Rightarrow> 'w state \<Rightarrow> (error, unit) res" where
  "probe_token e tok s =
    and_then (ok_or (h_decimals e tok (st_world s)) InvalidTokenContract) (\<lambda>_. Ok ())"

definition init ::
  "('w, 'm) env_scheme \<Rightarrow> address \<Rightarrow> address \<Rightarrow> u32 \<Rightarrow> 'w state \<Rightarrow> (error, 'w state) res" where
  "init e admin tok platform_fee s =
    (if is_initialized s then Err AlreadyInitialized else
     and_then (require_auth e admin) (\<lambda>_.
     if PLATFORM_FEE_ABSOLUTE_MAX_BPS < platform_fee then Err InvalidPlatformFee else
     if PLATFORM_FEE_MAX_BPS < platform_fee then Err InvalidPlatformFee else
     and_then (probe_token e tok s) (\<lambda>_.
     let s1 = set_initialized (set_token tok (remove_pending_admin (set_admin admin s)));
         s2 = set_version CONTRACT_VERSION
                (set_total_raised_global 0 (set_campaign_count 0 (set_platform_fee platform_fee s1)));
         s3 = set_approval_threshold_bps DEFAULT_APPROVAL_THRESHOLD_BPS
                (set_min_votes_quorum DEFAULT_MIN_VOTES_QUORUM
                  (set_min_campaign_funding_goal CAMPAIGN_FUNDING_GOAL_MIN s2));
         s4 = set_max_contribution_per_transaction_value 0
                (set_withdraw_reserve_percentage 0 (set_withdraw_release_delay_days 0 s3)) in
     Ok (publish [Sym ''initialized'', Addr admin]
           [Addr tok, U32 platform_fee, U32 DEFAULT_MIN_VOTES_QUORUM,
            U32 DEFAULT_APPROVAL_THRESHOLD_BPS, U32 CONTRACT_VERSION] s4))))"

text \<open>\<open>let admin = get_admin(env); assert_admin(env, &admin)?\<close>: the stored admin must authorise.\<close>

definition stored_admin_auth :: "('w, 'm) env_scheme \<Rightarrow> 'w state \<Rightarrow> (error, address) res" where
  "stored_admin_auth e s =
    and_then (admin_or_trap s) (\<lambda>admin.
    and_then (assert_admin e admin s) (\<lambda>_. Ok admin))"

lemma stored_admin_auth_eq_Ok [res_simps]:
  "stored_admin_auth e s = Inr a \<longleftrightarrow> get_admin s = Some a \<and> e_auth e a"
  by (auto simp: stored_admin_auth_def res_simps)

lemma probe_token_eq_Ok [res_simps]:
  "probe_token e tok s = Inr u \<longleftrightarrow> h_decimals e tok (st_world s) \<noteq> None"
  by (auto simp: probe_token_def res_simps)

definition pause :: "('w, 'm) env_scheme \<Rightarrow> 'w state \<Rightarrow> (error, 'w state) res" where
  "pause e s =
    and_then (stored_admin_auth e s) (\<lambda>admin.
    Ok (publish [Sym ''contract_paused'', Addr admin] [] (set_paused True s)))"

definition unpause :: "('w, 'm) env_scheme \<Rightarrow> 'w state \<Rightarrow> (error, 'w state) res" where
  "unpause e s =
    and_then (stored_admin_auth e s) (\<lambda>admin.
    Ok (publish [Sym ''contract_unpaused'', Addr admin] []
          (set_auto_paused False (set_paused False s))))"

definition set_emergency_pause_signers_fn ::
  "('w, 'm) env_scheme \<Rightarrow> address \<Rightarrow> address list \<Rightarrow> 'w state \<Rightarrow> (error, 'w state) res" where
  "set_emergency_pause_signers_fn e admin signers s =
    and_then (assert_admin e admin s) (\<lambda>_.
    if signers = [] then Err ValidationFailed else
    Ok (publish [Sym ''emergency_pause_signers_updated'', Addr admin] [U32 (length signers)]
          (set_emergency_pause_signers signers s)))"

definition emergency_pause ::
  "('w, 'm) env_scheme \<Rightarrow> address \<Rightarrow> 'w state \<Rightarrow> (error, 'w state) res" where
  "emergency_pause e caller s =
    and_then (require_auth e caller) (\<lambda>_.
    let signers = get_emergency_pause_signers s in
    if signers = [] then Err NotAuthorized else
    if caller \<notin> set signers then Err NotAuthorized else
    Ok (publish [Sym ''emergency_paused'', Addr caller] [] (set_paused True s)))"

definition resume_campaign ::
  "('w, 'm) env_scheme \<Rightarrow> u32 \<Rightarrow> address \<Rightarrow> 'w state \<Rightarrow> (error, 'w state) res" where
  "resume_campaign e cid caller s =
    and_then (require_auth e caller) (\<lambda>_.
    if \<not> auto_paused_flag s then Err ValidationFailed else
    and_then (get_campaign_or_error s cid) (\<lambda>c.
    and_then (require_active_campaign c) (\<lambda>_.
    and_then (admin_or_trap s) (\<lambda>admin.
    if caller \<noteq> c_creator c \<and> caller \<noteq> admin then Err NotAuthorized else
    Ok (publish [Sym ''campaign_resumed'', U32 cid, Addr caller] []
          (set_auto_paused False s))))))"

section \<open>Configuration\<close>

definition set_creation_disabled_fn ::
  "('w, 'm) env_scheme \<Rightarrow> bool \<Rightarrow> 'w state \<Rightarrow> (error, 'w state) res" where
  "set_creation_disabled_fn e disabled s =
    and_then (stored_admin_auth e s) (\<lambda>admin.
    Ok (publish [Sym ''creation_disabled_updated'', Addr admin] [Bool disabled]
          (set_creation_disabled disabled s)))"

definition set_token_allowed_fn ::
  "('w, 'm) env_scheme \<Rightarrow> address \<Rightarrow> bool \<Rightarrow> 'w state \<Rightarrow> (error, 'w state) res" where
  "set_token_allowed_fn e tok allowed s =
    and_then (stored_admin_auth e s) (\<lambda>admin.
    Ok (publish [Sym ''campaign_token_allowlisted'', Addr admin] [Addr tok, Bool allowed]
          (set_token_allowed tok allowed s)))"

definition set_voting_params ::
  "('w, 'm) env_scheme \<Rightarrow> address \<Rightarrow> u32 \<Rightarrow> u32 \<Rightarrow> 'w state \<Rightarrow> (error, 'w state) res" where
  "set_voting_params e admin min_votes_quorum approval_threshold_bps s =
    and_then (assert_admin e admin s) (\<lambda>_.
    let old_quorum = get_min_votes_quorum s DEFAULT_MIN_VOTES_QUORUM;
        old_threshold = get_approval_threshold_bps s DEFAULT_APPROVAL_THRESHOLD_BPS in
    and_then (set_params min_votes_quorum approval_threshold_bps s) (\<lambda>s1.
    Ok (publish [Sym ''voting_params_updated'', Addr admin]
          [U32 old_quorum, U32 min_votes_quorum, U32 old_threshold, U32 approval_threshold_bps] s1)))"

definition set_min_voting_balance_fn ::
  "('w, 'm) env_scheme \<Rightarrow> address \<Rightarrow> i128 \<Rightarrow> 'w state \<Rightarrow> (error, 'w state) res" where
  "set_min_voting_balance_fn e admin min_balance s =
    and_then (assert_admin e admin s) (\<lambda>_.
    if min_balance < 0 then Err ValidationFailed else
    let s1 = (if 1000000000000000 < min_balance
              then publish [Sym ''warning_high_voting_balance''] [I128 min_balance] s else s);
        old_balance = get_min_voting_balance s1 in
    Ok (publish [Sym ''min_voting_balance_updated'', Addr admin] [I128 old_balance, I128 min_balance]
          (set_min_voting_balance min_balance s1)))"

definition update_platform_fee ::
  "('w, 'm) env_scheme \<Rightarrow> u32 \<Rightarrow> 'w state \<Rightarrow> (error, 'w state) res" where
  "update_platform_fee e new_fee s =
    and_then (stored_admin_auth e s) (\<lambda>admin.
    if PLATFORM_FEE_ABSOLUTE_MAX_BPS < new_fee \<or> PLATFORM_FEE_MAX_BPS < new_fee
    then Err InvalidPlatformFee else
    let old_fee = get_platform_fee s in
    Ok (publish [Sym ''fee_updated''] [U32 old_fee, U32 new_fee] (set_platform_fee new_fee s)))"

definition set_max_contribution_per_transaction ::
  "('w, 'm) env_scheme \<Rightarrow> address \<Rightarrow> i128 \<Rightarrow> 'w state \<Rightarrow> (error, 'w state) res" where
  "set_max_contribution_per_transaction e admin amt s =
    and_then (assert_admin e admin s) (\<lambda>_.
    if amt < 0 then Err ValidationFailed else
    let old_amount = get_max_contribution_per_transaction s in
    Ok (publish [Sym ''max_contribution_per_transaction_updated'', Addr admin]
          [I128 old_amount, I128 amt] (set_max_contribution_per_transaction_value amt s)))"

definition set_campaign_fee_override ::
  "('w, 'm) env_scheme \<Rightarrow> u32 \<Rightarrow> address \<Rightarrow> u32 \<Rightarrow> 'w state \<Rightarrow> (error, 'w state) res" where
  "set_campaign_fee_override e cid admin fee_bps s =
    and_then (assert_admin e admin s) (\<lambda>_.
    and_then (get_campaign_or_error s cid) (\<lambda>c.
    if PLATFORM_FEE_ABSOLUTE_MAX_BPS < fee_bps \<or> PLATFORM_FEE_MAX_BPS < fee_bps
    then Err InvalidPlatformFee else
    Ok (publish [Sym ''campaign_fee_override_set'', U32 cid] [U32 fee_bps]
          (set_campaign cid (c\<lparr>c_fee_override := Some fee_bps\<rparr>) s))))"

definition set_category_duration_cap_fn ::
  "('w, 'm) env_scheme \<Rightarrow> address \<Rightarrow> category \<Rightarrow> u64 \<Rightarrow> 'w state \<Rightarrow> (error, 'w state) res" where
  "set_category_duration_cap_fn e admin cat max_days s =
    and_then (assert_admin e admin s) (\<lambda>_.
    if \<not> (CAMPAIGN_DURATION_MIN_DAYS \<le> max_days \<and> max_days \<le> CAMPAIGN_DURATION_MAX_DAYS)
    then Err ValidationFailed else
    Ok (publish [Sym ''category_duration_cap_set'', U32 (category_code cat)] [U64 max_days]
          (set_category_duration_cap cat max_days s)))"

definition remove_category_duration_cap_fn ::
  "('w, 'm) env_scheme \<Rightarrow> address \<Rightarrow> category \<Rightarrow> 'w state \<Rightarrow> (error, 'w state) res" where
  "remove_category_duration_cap_fn e admin cat s =
    and_then (assert_admin e admin s) (\<lambda>_.
    Ok (publish [Sym ''category_duration_cap_removed'', U32 (category_code cat)] []
          (remove_category_duration_cap cat s)))"

definition set_category_voting_threshold ::
  "('w, 'm) env_scheme \<Rightarrow> address \<Rightarrow> category \<Rightarrow> u32 \<Rightarrow> 'w state \<Rightarrow> (error, 'w state) res" where
  "set_category_voting_threshold e admin cat threshold_bps s =
    and_then (assert_admin e admin s) (\<lambda>_.
    if \<not> (MIN_APPROVAL_THRESHOLD_BPS \<le> threshold_bps \<and> threshold_bps \<le> BPS_DENOMINATOR)
    then Err ValidationFailed else
    Ok (publish [Sym ''category_voting_threshold_set'', U32 (category_code cat)] [U32 threshold_bps]
          (set_category_voting_threshold_bps cat threshold_bps s)))"

definition remove_category_voting_threshold ::
  "('w, 'm) env_scheme \<Rightarrow> address \<Rightarrow> category \<Rightarrow> 'w state \<Rightarrow> (error, 'w state) res" where
  "remove_category_voting_threshold e admin cat s =
    and_then (assert_admin e admin s) (\<lambda>_.
    Ok (publish [Sym ''category_voting_threshold_removed'', U32 (category_code cat)] []
          (remove_category_voting_threshold_bps cat s)))"

definition set_min_campaign_funding_goal_fn ::
  "('w, 'm) env_scheme \<Rightarrow> address \<Rightarrow> i128 \<Rightarrow> 'w state \<Rightarrow> (error, 'w state) res" where
  "set_min_campaign_funding_goal_fn e admin min_goal s =
    and_then (assert_admin e admin s) (\<lambda>_.
    if min_goal \<le> 0 then Err FundingGoalMustBePositive else
    let old_min_goal = get_min_campaign_funding_goal s CAMPAIGN_FUNDING_GOAL_MIN in
    Ok (publish [Sym ''min_campaign_funding_goal_updated''] [I128 old_min_goal, I128 min_goal]
          (set_min_campaign_funding_goal min_goal s)))"

definition set_max_campaign_funding_goal_fn ::
  "('w, 'm) env_scheme \<Rightarrow> address \<Rightarrow> i128 \<Rightarrow> 'w state \<Rightarrow> (error, 'w state) res" where
  "set_max_campaign_funding_goal_fn e admin max_goal s =
    and_then (assert_admin e admin s) (\<lambda>_.
    if max_goal \<le> 0 then Err FundingGoalMustBePositive else
    if max_goal < get_min_campaign_funding_goal s CAMPAIGN_FUNDING_GOAL_MIN
    then Err ValidationFailed else
    let old_max_goal = get_max_campaign_funding_goal s CAMPAIGN_FUNDING_GOAL_MAX in
    Ok (publish [Sym ''max_campaign_funding_goal_updated''] [I128 old_max_goal, I128 max_goal]
          (set_max_campaign_funding_goal max_goal s)))"

definition migrate ::
  "('w, 'm) env_scheme \<Rightarrow> address \<Rightarrow> u32 \<Rightarrow> 'w state \<Rightarrow> (error, 'w state) res" where
  "migrate e admin expected_old_version s =
    and_then (assert_admin e admin s) (\<lambda>_.
    let current = get_version s in
    if current \<noteq> expected_old_version then Err ValidationFailed else
    Ok (publish [Sym ''migrated''] [U32 expected_old_version, U32 CONTRACT_VERSION]
          (set_version CONTRACT_VERSION s)))"

section \<open>Token update\<close>

definition propose_token_update ::
  "('w, 'm) env_scheme \<Rightarrow> address \<Rightarrow> address \<Rightarrow> 'w state \<Rightarrow> (error, 'w state) res" where
  "propose_token_update e admin new_token s =
    and_then (assert_admin e admin s) (\<lambda>_.
    and_then (probe_token e new_token s) (\<lambda>_.
    let delay_secs = get_token_update_delay_secs s TOKEN_UPDATE_DELAY_SECS in
    and_then (ok_or (u64_checked_add (e_timestamp e) delay_secs) ValidationFailed) (\<lambda>release_after.
    Ok (publish [Sym ''token_update_proposed''] [Addr new_token, U64 release_after]
          (set_pending_token_release release_after (set_pending_token new_token s))))))"

definition accept_token_update ::
  "('w, 'm) env_scheme \<Rightarrow> address \<Rightarrow> 'w state \<Rightarrow> (error, 'w state) res" where
  "accept_token_update e admin s =
    and_then (assert_admin e admin s) (\<lambda>_.
    and_then (ok_or (get_pending_token s) ValidationFailed) (\<lambda>new_token.
    and_then (ok_or (get_pending_token_release s) ValidationFailed) (\<lambda>release_after.
    if e_timestamp e < release_after then Err ValidationFailed else
    if 0 < get_active_campaign_count s \<or> get_total_raised_global s \<noteq> 0
    then Err ValidationFailed else
    and_then (token_or_trap s) (\<lambda>old_token.
    Ok (publish [Sym ''token_update_accepted''] [Addr old_token, Addr new_token]
          (remove_pending_token (set_token new_token s)))))))"

definition cancel_token_update ::
  "('w, 'm) env_scheme \<Rightarrow> address \<Rightarrow> 'w state \<Rightarrow> (error, 'w state) res" where
  "cancel_token_update e admin s =
    and_then (assert_admin e admin s) (\<lambda>_.
    if get_pending_token s = None then Err ValidationFailed else
    Ok (publish [Sym ''token_update_cancelled''] [] (remove_pending_token s)))"

definition set_token_update_delay_secs_fn ::
  "('w, 'm) env_scheme \<Rightarrow> address \<Rightarrow> u64 \<Rightarrow> 'w state \<Rightarrow> (error, 'w state) res" where
  "set_token_update_delay_secs_fn e admin delay_secs s =
    and_then (assert_admin e admin s) (\<lambda>_.
    if delay_secs = 0 \<or> MAX_TOKEN_UPDATE_DELAY_SECS < delay_secs then Err ValidationFailed else
    let old_delay = get_token_update_delay_secs s TOKEN_UPDATE_DELAY_SECS in
    Ok (publish [Sym ''token_update_delay_updated''] [U64 old_delay, U64 delay_secs]
          (set_token_update_delay_secs delay_secs s)))"

section \<open>Admin transfer\<close>

definition initiate_admin_transfer ::
  "('w, 'm) env_scheme \<Rightarrow> address \<Rightarrow> address \<Rightarrow> 'w state \<Rightarrow> (error, 'w state) res" where
  "initiate_admin_transfer e admin new_admin s =
    and_then (assert_admin e admin s) (\<lambda>_.
    and_then (admin_or_trap s) (\<lambda>current_admin.
    if new_admin = current_admin then Err InvalidNewOwner else
    let s1 = (case get_pending_admin s of
                None \<Rightarrow> s
              | Some old_pending \<Rightarrow> publish [Sym ''admin_transfer_cancelled''] [Addr old_pending] s) in
    Ok (publish [Sym ''admin_transfer_initiated''] [Addr current_admin, Addr new_admin]
          (set_pending_admin new_admin s1))))"

definition accept_admin_transfer :: "('w, 'm) env_scheme \<Rightarrow> 'w state \<Rightarrow> (error, 'w state) res" where
  "accept_admin_transfer e s =
    and_then (ok_or (get_pending_admin s) NoTransferPending) (\<lambda>pending_admin.
    and_then (require_auth e pending_admin) (\<lambda>_.
    and_then (admin_or_trap s) (\<lambda>old_admin.
    Ok (publish [Sym ''admin_updated'', Addr old_admin] [Addr pending_admin]
          (remove_pending_admin (set_admin pending_admin s))))))"

definition cancel_admin_transfer ::
  "('w, 'm) env_scheme \<Rightarrow> address \<Rightarrow> 'w state \<Rightarrow> (error, 'w state) res" where
  "cancel_admin_transfer e admin s =
    and_then (assert_admin e admin s) (\<lambda>_.
    if get_pending_admin s = None then Err NoTransferPending else
    Ok (publish [Sym ''admin_transfer_cancelled''] [Addr admin] (remove_pending_admin s)))"

section \<open>Purging votes\<close>

definition MAX_VOTERS_PER_CALL :: u32 where [const_defs]: "MAX_VOTERS_PER_CALL = 50"

definition purge_voting_state ::
  "('w, 'm) env_scheme \<Rightarrow> u32 \<Rightarrow> address list \<Rightarrow> bool \<Rightarrow> 'w state \<Rightarrow> (error, 'w state) res" where
  "purge_voting_state e cid voters finalize_aggregate s =
    and_then (stored_admin_auth e s) (\<lambda>_.
    and_then (get_campaign_or_error s cid) (\<lambda>c.
    if \<not> c_funds_withdrawn c \<and> \<not> c_is_cancelled c then Err ValidationFailed else
    if voters = [] then Err ValidationFailed else
    if MAX_VOTERS_PER_CALL < length voters then Err ValidationFailed else
    let s1 = fold (\<lambda>voter. remove_has_voted cid voter) voters s in
    Ok (if finalize_aggregate
        then publish [Sym ''voting_state_purged'', U32 cid] [] (remove_voting_state cid s1)
        else s1)))"

section \<open>Refinement of the escrow\<close>

lemma admin_switches_core:
  "pause e s = Inr s' \<Longrightarrow> core s' = core s"
  "unpause e s = Inr s' \<Longrightarrow> core s' = core s"
  "set_emergency_pause_signers_fn e a xs s = Inr s' \<Longrightarrow> core s' = core s"
  "emergency_pause e a s = Inr s' \<Longrightarrow> core s' = core s"
  "resume_campaign e cid a s = Inr s' \<Longrightarrow> core s' = core s"
  "set_creation_disabled_fn e b s = Inr s' \<Longrightarrow> core s' = core s"
  "set_token_allowed_fn e a b s = Inr s' \<Longrightarrow> core s' = core s"
  by (auto simp: pause_def unpause_def set_emergency_pause_signers_fn_def emergency_pause_def
      resume_campaign_def set_creation_disabled_fn_def set_token_allowed_fn_def Let_def
      res_simps core_frame)

lemma set_params_core: "set_params q t s = Inr s' \<Longrightarrow> core s' = core s"
  by (auto simp: set_params_def res_simps core_frame)

lemma admin_config_core:
  "set_voting_params e a q t s = Inr s' \<Longrightarrow> core s' = core s"
  "set_min_voting_balance_fn e a i s = Inr s' \<Longrightarrow> core s' = core s"
  "update_platform_fee e n s = Inr s' \<Longrightarrow> core s' = core s"
  "set_max_contribution_per_transaction e a i s = Inr s' \<Longrightarrow> core s' = core s"
  "set_category_duration_cap_fn e a cat n s = Inr s' \<Longrightarrow> core s' = core s"
  "remove_category_duration_cap_fn e a cat s = Inr s' \<Longrightarrow> core s' = core s"
  "set_category_voting_threshold e a cat n s = Inr s' \<Longrightarrow> core s' = core s"
  "remove_category_voting_threshold e a cat s = Inr s' \<Longrightarrow> core s' = core s"
  "set_min_campaign_funding_goal_fn e a i s = Inr s' \<Longrightarrow> core s' = core s"
  "set_max_campaign_funding_goal_fn e a i s = Inr s' \<Longrightarrow> core s' = core s"
  "migrate e a n s = Inr s' \<Longrightarrow> core s' = core s"
  by (auto simp: set_voting_params_def set_min_voting_balance_fn_def update_platform_fee_def
      set_max_contribution_per_transaction_def set_category_duration_cap_fn_def
      remove_category_duration_cap_fn_def set_category_voting_threshold_def
      remove_category_voting_threshold_def set_min_campaign_funding_goal_fn_def
      set_max_campaign_funding_goal_fn_def migrate_def Let_def res_simps core_frame
      dest!: set_params_core)

lemma admin_token_core:
  "propose_token_update e a tok s = Inr s' \<Longrightarrow> core s' = core s"
  "accept_token_update e a s = Inr s' \<Longrightarrow> core s' = core s"
  "cancel_token_update e a s = Inr s' \<Longrightarrow> core s' = core s"
  "set_token_update_delay_secs_fn e a n s = Inr s' \<Longrightarrow> core s' = core s"
  "initiate_admin_transfer e a b s = Inr s' \<Longrightarrow> core s' = core s"
  "accept_admin_transfer e s = Inr s' \<Longrightarrow> core s' = core s"
  "cancel_admin_transfer e a s = Inr s' \<Longrightarrow> core s' = core s"
  "purge_voting_state e cid voters fin s = Inr s' \<Longrightarrow> core s' = core s"
  by (auto simp: propose_token_update_def accept_token_update_def cancel_token_update_def
      set_token_update_delay_secs_fn_def initiate_admin_transfer_def accept_admin_transfer_def
      cancel_admin_transfer_def purge_voting_state_def Let_def res_simps core_frame fold_core
      split: option.splits if_splits)

lemma set_campaign_fee_override_step:
  assumes "set_campaign_fee_override e cid a fee s = Inr s'"
  shows "core_step now (core s) (core s')"
proof -
  from assms obtain c where "get_campaign s cid = Some c" "fee \<le> 1000"
    "core s' = put cid (c\<lparr>c_fee_override := Some fee\<rparr>) (core s)"
    by (auto simp: set_campaign_fee_override_def Let_def res_simps core_frame put_def const_defs)
  then show ?thesis by (elim editI) (rule edited_sameI, simp_all)
qed

lemma init_initialized: "is_initialized s \<Longrightarrow> init e a tok fee s = Err AlreadyInitialized"
  by (simp add: init_def)

lemma init_ok:
  assumes "init e a tok fee s = Inr s'"
  shows "\<not> is_initialized s" "fee \<le> 1000"
    "core s' = (core s)\<lparr>k_count := 0\<rparr>"
  using assms by (auto simp: init_def Let_def res_simps core_frame const_defs)

section \<open>Frame\<close>

context fund_observer
begin

lemma fee_override_obs: "set_campaign_fee_override e cid a fee s = Inr s' \<Longrightarrow> obs s' = obs s"
  by (auto simp: set_campaign_fee_override_def Let_def res_simps obs_simps)

end

end
