(* ===== verification/Comments.thy ===== *)
theory Comments
  imports Purse Example
begin

text \<open>
  \<^verbatim>\<open>src/comments.rs\<close>: the admin's public record of censured off-chain comments.
\<close>

section \<open>Operations\<close>

definition CENSURE_REASON_MAX_LEN :: u32 where [const_defs]: "CENSURE_REASON_MAX_LEN = 200"

definition censure_comment ::
  "('w, 'm) env_scheme \<Rightarrow> address \<Rightarrow> u32 \<Rightarrow> bytes32 \<Rightarrow> string \<Rightarrow> 'w state \<Rightarrow> (error, 'w state) res" where
  "censure_comment e admin cid h reason s =
    and_then (assert_admin e admin s) (\<lambda>_.
    and_then (require_not_paused s) (\<lambda>_.
    and_then (get_campaign_or_error s cid) (\<lambda>_.
    if length reason = 0 \<or> CENSURE_REASON_MAX_LEN < length reason then Err ValidationFailed else
    if is_comment_censured s cid h then Ok s else
    let r = \<lparr>cc_reason = reason, cc_censured_at = e_timestamp e, cc_admin = admin\<rparr>;
        s1 = set_comment_censure cid h r s;
        s2 = set_campaign_censured_count cid
               (u32_saturating_add (get_campaign_censured_count s1 cid) 1) s1 in
    Ok (publish [Sym ''comment_censured'', U32 cid, Hash h]
          [Addr admin, Str reason, U64 (cc_censured_at r)] s2))))"

definition uncensure_comment ::
  "('w, 'm) env_scheme \<Rightarrow> address \<Rightarrow> u32 \<Rightarrow> bytes32 \<Rightarrow> 'w state \<Rightarrow> (error, 'w state) res" where
  "uncensure_comment e admin cid h s =
    and_then (assert_admin e admin s) (\<lambda>_.
    and_then (require_not_paused s) (\<lambda>_.
    and_then (get_campaign_or_error s cid) (\<lambda>_.
    if \<not> is_comment_censured s cid h then Ok s else
    let s1 = remove_comment_censure cid h s;
        s2 = set_campaign_censured_count cid (get_campaign_censured_count s1 cid - 1) s1 in
    Ok (publish [Sym ''comment_uncensured'', U32 cid, Hash h]
          [Addr admin, U64 (e_timestamp e)] s2))))"

definition comment_is_censured :: "'w state \<Rightarrow> u32 \<Rightarrow> bytes32 \<Rightarrow> bool" where
  "comment_is_censured s cid h = is_comment_censured s cid h"

definition comment_censure_record :: "'w state \<Rightarrow> u32 \<Rightarrow> bytes32 \<Rightarrow> comment_censure option" where
  "comment_censure_record s cid h = get_comment_censure s cid h"

definition campaign_censured_comment_count :: "'w state \<Rightarrow> u32 \<Rightarrow> u32" where
  "campaign_censured_comment_count s cid = get_campaign_censured_count s cid"

section \<open>Refinement of the escrow\<close>

lemma comments_core:
  "censure_comment e a cid h r s = Inr s' \<Longrightarrow> core s' = core s"
  "uncensure_comment e a cid h s = Inr s' \<Longrightarrow> core s' = core s"
  by (auto simp: censure_comment_def uncensure_comment_def Let_def res_simps core_frame split: if_splits)

end
