(* ===== verification/Tags.thy ===== *)
theory Tags
  imports Escrow
begin

text \<open>
  \<^verbatim>\<open>src/tags.rs\<close>: the creator adds a tag to a campaign and indexes the campaign under it.
  No entry point of \<^verbatim>\<open>src/lib.rs\<close> calls it.
\<close>

section \<open>Operations\<close>

definition add_campaign_tag ::
  "('w, 'm) env_scheme \<Rightarrow> u32 \<Rightarrow> string \<Rightarrow> 'w state \<Rightarrow> (error, 'w state) res" where
  "add_campaign_tag e cid tag s =
    and_then (get_creator_campaign e s cid) (\<lambda>c.
    and_then (require_not_paused s) (\<lambda>_.
    and_then (require_active_campaign c) (\<lambda>_.
    if length tag < CAMPAIGN_TAG_MIN_LEN \<or> CAMPAIGN_TAG_MAX_LEN < length tag
    then Err ValidationFailed else
    let tags = get_campaign_tags s cid in
    if MAX_TAGS_PER_CAMPAIGN \<le> length tags then Err ValidationFailed else
    if tag \<in> set tags then Err ValidationFailed else
    and_then (hash_text e tag) (\<lambda>tag_hash.
    and_then (append_campaign_to_tag tag_hash cid s) (\<lambda>s1.
    Ok (publish [Sym ''campaign_tag_added'', U32 cid] [Str tag]
          (set_campaign_tags cid (tags @ [tag]) s1)))))))"

end
