(* ===== verification/Queries.thy ===== *)
theory Queries
  imports Tags
begin

text \<open>
  \<^verbatim>\<open>src/queries.rs\<close>: the read-only views. A bucketed index is read by one shared
  loop, which is a partial function: on a bucket that ends early before the last
  one it does not come to an end.
\<close>

section \<open>Listings by id\<close>

definition list_campaigns :: "'w state \<Rightarrow> u32 \<Rightarrow> u32 \<Rightarrow> campaign list" where
  "list_campaigns s start limit =
    (let total_count = get_campaign_count s in
     if total_count \<le> start \<or> limit = 0 then [] else
     let capped_limit = min limit LIST_MAX_LIMIT;
         fin = min (u32_saturating_add start capped_limit) total_count in
     List.map_filter (get_campaign s) [start + 1 ..< fin + 1])"

text \<open>
  The loop of \<open>list_active_campaigns\<close> from \<open>current_id\<close>: the campaigns found, the next
  cursor, and the state with the event it may publish. The sums are unchecked and
  trap when they leave \<open>u32\<close>.
\<close>

function scan_active ::
  "'w state \<Rightarrow> u32 \<Rightarrow> u32 \<Rightarrow> u32 \<Rightarrow> u32 \<Rightarrow> u32 \<Rightarrow> campaign list
   \<Rightarrow> (error, campaign list \<times> u32 \<times> 'w state) res" where
  "scan_active s start total_count capped_limit current_id collected acc =
    (if total_count < current_id then Ok (acc, 0, s) else
     and_then (unwrap (u32_checked_add start MAX_SCAN_WINDOW)) (\<lambda>window_end.
     if window_end < current_id
     then Ok (acc, current_id,
              publish [Sym ''scan_window_exhausted'']
                [U32 start, U32 current_id, U32 collected, U32 capped_limit] s)
     else case get_campaign s current_id of
       Some c \<Rightarrow>
         if c_is_active c \<and> \<not> c_is_cancelled c
         then (if capped_limit \<le> collected + 1
               then and_then (unwrap (u32_checked_add current_id 1)) (\<lambda>nxt.
                    Ok (acc @ [c], nxt, s))
               else and_then (unwrap (u32_checked_add current_id 1)) (\<lambda>nxt.
                    scan_active s start total_count capped_limit nxt (collected + 1) (acc @ [c])))
         else and_then (unwrap (u32_checked_add current_id 1)) (\<lambda>nxt.
              scan_active s start total_count capped_limit nxt collected acc)
     | None \<Rightarrow>
         and_then (unwrap (u32_checked_add current_id 1)) (\<lambda>nxt.
         scan_active s start total_count capped_limit nxt collected acc)))"
  by pat_completeness auto

termination
  by (relation "measure (\<lambda>(s, start, total_count, cap, current_id, _). Suc total_count - current_id)")
     (auto simp: res_simps)

definition list_active_campaigns ::
  "'w state \<Rightarrow> u32 \<Rightarrow> u32 \<Rightarrow> (error, campaign list \<times> u32 \<times> 'w state) res" where
  "list_active_campaigns s start limit =
    (let total_count = get_campaign_count s in
     if total_count \<le> start \<or> limit = 0 then Ok ([], 0, s) else
     scan_active s start total_count (min limit LIST_MAX_LIMIT) (start + 1) 0 [])"

section \<open>Bucketed indexes\<close>

text \<open>The inner loop: entries of one bucket from \<open>idx\<close>, while the position is below the end.\<close>

function walk_bucket ::
  "'w state \<Rightarrow> u32 list \<Rightarrow> u32 \<Rightarrow> u32 \<Rightarrow> u32 \<Rightarrow> campaign list \<Rightarrow> campaign list \<times> u32 \<times> u32" where
  "walk_bucket s bucket idx position fin acc =
    (if idx < length bucket \<and> position < fin
     then walk_bucket s bucket (idx + 1) (position + 1) fin
            (case get_campaign s (bucket ! idx) of None \<Rightarrow> acc | Some c \<Rightarrow> acc @ [c])
     else (acc, idx, position))"
  by pat_completeness auto

termination
  by (relation "measure (\<lambda>(s, bucket, idx, _). length bucket - idx)") auto

declare walk_bucket.simps [simp del] scan_active.simps [simp del]

text \<open>
  The outer loop. \<open>None\<close> is a run that never returns. The sum that skips an empty
  bucket is unchecked and traps out of range.
\<close>

partial_function (option) bucket_loop ::
  "'w state \<Rightarrow> (u32 \<Rightarrow> u32 list) \<Rightarrow> u32 \<Rightarrow> u32 \<Rightarrow> u32 \<Rightarrow> campaign list
   \<Rightarrow> (error, campaign list) res option" where
  "bucket_loop s get_bucket bucket_size fin position acc =
    (if position < fin
     then (let bucket_idx = position div bucket_size;
               bucket = get_bucket bucket_idx;
               bucket_start = bucket_idx * bucket_size;
               bucket_len = length bucket in
           case walk_bucket s bucket (position - bucket_start) position fin acc of
             (acc', idx', position') \<Rightarrow>
               if bucket_len \<le> idx'
               then (if bucket_len = 0
                     then (if u32_max < bucket_start + bucket_size then Some Trap
                           else bucket_loop s get_bucket bucket_size fin (bucket_start + bucket_size) acc')
                     else bucket_loop s get_bucket bucket_size fin (bucket_start + bucket_len) acc')
               else bucket_loop s get_bucket bucket_size fin position' acc')
     else Some (Ok acc))"

definition get_campaigns_from_buckets ::
  "'w state \<Rightarrow> u32 \<Rightarrow> u32 \<Rightarrow> u32 \<Rightarrow> u32 \<Rightarrow> (u32 \<Rightarrow> u32 list) \<Rightarrow> (error, campaign list) res option" where
  "get_campaigns_from_buckets s start limit total_entries bucket_size get_bucket =
    (let capped_limit = min limit LIST_MAX_LIMIT in
     if total_entries \<le> start \<or> capped_limit = 0 then Some (Ok []) else
     let fin = min (u32_saturating_add start capped_limit) total_entries in
     bucket_loop s get_bucket bucket_size fin start [])"

definition get_campaigns_by_category ::
  "'w state \<Rightarrow> category \<Rightarrow> u32 \<Rightarrow> u32 \<Rightarrow> (error, campaign list) res option" where
  "get_campaigns_by_category s cat offset limit =
    get_campaigns_from_buckets s offset limit (get_category_campaign_count s cat)
      CATEGORY_CAMPAIGNS_BUCKET_SIZE (get_category_campaign_bucket s cat)"

definition get_campaigns_by_tag ::
  "('w, 'm) host_scheme \<Rightarrow> 'w state \<Rightarrow> string \<Rightarrow> u32 \<Rightarrow> u32 \<Rightarrow> (error, campaign list) res option" where
  "get_campaigns_by_tag e s tag offset limit =
    (if length tag < CAMPAIGN_TAG_MIN_LEN \<or> CAMPAIGN_TAG_MAX_LEN < length tag then Some (Ok []) else
     case hash_text e tag of
       Inl f \<Rightarrow> Some (Inl f)
     | Inr tag_hash \<Rightarrow>
         get_campaigns_from_buckets s offset limit (get_tag_campaign_count s tag_hash)
           TAG_CAMPAIGNS_BUCKET_SIZE (get_tag_campaigns_bucket s tag_hash))"

definition get_campaign_tag_list :: "'w state \<Rightarrow> u32 \<Rightarrow> string list" where
  "get_campaign_tag_list s cid = get_campaign_tags s cid"

definition get_creator_campaigns ::
  "'w state \<Rightarrow> address \<Rightarrow> u32 \<Rightarrow> u32 \<Rightarrow> (error, campaign list) res option" where
  "get_creator_campaigns s creator start limit =
    get_campaigns_from_buckets s start limit (get_creator_campaign_count s creator)
      CREATOR_CAMPAIGNS_BUCKET_SIZE (get_creator_campaign_bucket s creator)"

section \<open>Statistics\<close>

text \<open>The unchecked sums of the statistics trap when they leave their type.\<close>

primrec stats_of_ids ::
  "'w state \<Rightarrow> u32 list \<Rightarrow> u32 \<times> i128 \<times> u32 \<Rightarrow> (error, u32 \<times> i128 \<times> u32) res" where
  "stats_of_ids s [] acc = Ok acc"
| "stats_of_ids s (cid # cids) acc =
    (case get_campaign s cid of
       None \<Rightarrow> stats_of_ids s cids acc
     | Some c \<Rightarrow>
         (case acc of (active, raised, contributors) \<Rightarrow>
          and_then (if c_is_active c \<and> \<not> c_is_cancelled c
                    then unwrap (u32_checked_add active 1) else Ok active) (\<lambda>active'.
          and_then (if \<not> c_is_cancelled c
                    then unwrap (i128_checked_add raised (c_amount_raised c)) else Ok raised) (\<lambda>raised'.
          and_then (unwrap (u32_checked_add contributors (get_contributor_count s cid))) (\<lambda>contributors'.
          stats_of_ids s cids (active', raised', contributors'))))))"

definition get_creator_stats :: "'w state \<Rightarrow> address \<Rightarrow> (error, creator_stats) res" where
  "get_creator_stats s creator =
    (let total_campaigns = get_creator_campaign_count s creator;
         num_buckets = u32_div_ceil total_campaigns CREATOR_CAMPAIGNS_BUCKET_SIZE in
     and_then (stats_of_ids s (concat (map (get_creator_campaign_bucket s creator) [0 ..< num_buckets]))
                 (0, 0, 0)) (\<lambda>(active, raised, contributors).
     Ok \<lparr>crs_total_campaigns = total_campaigns, crs_active_campaigns = active,
         crs_total_raised = raised, crs_total_contributors = contributors\<rparr>))"

definition get_platform_stats :: "'w state \<Rightarrow> platform_stats" where
  "get_platform_stats s =
    \<lparr>ps_total_campaigns = get_campaign_count s,
     ps_active_campaigns = get_active_campaign_count s,
     ps_verified_campaigns = get_verified_campaign_count s,
     ps_cancelled_campaigns = get_cancelled_campaign_count s,
     ps_total_amount_raised = get_total_raised_global s,
     ps_stats_are_partial = False,
     ps_scanned_up_to = get_campaign_count s\<rparr>"

definition get_campaign_stats :: "'w state \<Rightarrow> u32 \<Rightarrow> campaign_stats" where
  "get_campaign_stats s cid =
    (let contributor_count = get_contributor_count s cid;
         amount_raised = (case get_campaign s cid of None \<Rightarrow> 0 | Some c \<Rightarrow> c_amount_raised c) in
     \<lparr>cst_contributor_count = contributor_count,
      cst_top_contributor =
        (case get_top_contributor s cid of None \<Rightarrow> NoPending | Some a \<Rightarrow> mpc_from a),
      cst_avg_contribution =
        (if 0 < contributor_count then amount_raised sdiv int contributor_count else 0),
      cst_last_contribution_time = get_last_contribution_time s cid\<rparr>)"

primrec sum_contributors :: "'w state \<Rightarrow> u32 list \<Rightarrow> u32 \<Rightarrow> (error, u32) res" where
  "sum_contributors s [] acc = Ok acc"
| "sum_contributors s (cid # cids) acc =
    (if get_campaign s cid \<noteq> None
     then and_then (unwrap (u32_checked_add acc (get_contributor_count s cid))) (\<lambda>acc'.
          sum_contributors s cids acc')
     else sum_contributors s cids acc)"

definition get_platform_report :: "'w state \<Rightarrow> (error, platform_report) res" where
  "get_platform_report s =
    (let total_campaigns = get_campaign_count s in
     and_then (sum_contributors s [1 ..< total_campaigns + 1] 0) (\<lambda>total_contributors.
     and_then (token_or_trap s) (\<lambda>tok.
     Ok \<lparr>pr_total_campaigns = total_campaigns,
         pr_active_campaigns = get_active_campaign_count s,
         pr_total_raised = get_total_raised_global s,
         pr_total_contributors = total_contributors,
         pr_platform_fee_bps = get_platform_fee s,
         pr_is_paused = (paused_flag s \<or> auto_paused_flag s),
         pr_token = tok\<rparr>)))"

definition portfolio_status :: "campaign \<Rightarrow> string" where
  "portfolio_status c =
    (if c_is_cancelled c then ''cancelled''
     else if c_funds_withdrawn c then ''withdrawn''
     else if \<not> c_is_active c then ''inactive''
     else if c_is_verified c then ''verified''
     else ''active'')"

definition get_contributor_portfolio ::
  "('w, 'm) env_scheme \<Rightarrow> 'w state \<Rightarrow> address \<Rightarrow> (u32 \<times> i128 \<times> string \<times> bool) list" where
  "get_contributor_portfolio e s who =
    List.map_filter (\<lambda>cid.
      let amt = get_contribution s cid who in
      if amt = 0 then None else
      case get_campaign s cid of
        None \<Rightarrow> None
      | Some c \<Rightarrow>
          Some (cid, amt, portfolio_status c,
                c_is_cancelled c \<or>
                (c_deadline c < e_timestamp e \<and> c_amount_raised c < c_funding_goal c)))
      [1 ..< get_campaign_count s + 1]"

section \<open>Refinement of the escrow\<close>

lemma scan_active_core:
  "scan_active s start tot cap cur n acc = Inr (cs, nxt, s') \<Longrightarrow> core s' = core s"
proof (induction s start tot cap cur n acc rule: scan_active.induct)
  case (1 s start tot cap cur n acc)
  show ?case
    using 1(4) by (subst (asm) scan_active.simps)
      (auto simp: res_simps core_frame split: if_splits option.splits dest: 1(1-3))
qed

end
