(* ===== verification/Contract.thy ===== *)
theory Contract
  imports Contributions Create Milestones Cancel Update Ownership Revenue Admin Comments Queries
begin

text \<open>
  \<^verbatim>\<open>src/lib.rs\<close>: the entry points of the contract. Those that only forward to a
  function of another file are that function; the others are defined here. A
  call is a value, \<open>dispatch\<close> runs it, and \<open>reachable\<close> are the states of an
  initialised contract under any sequence of calls.
\<close>

section \<open>Entry points with a body of their own\<close>

definition create_campaign_entry ::
  "('w, 'm) env_scheme \<Rightarrow> create_campaign_params \<Rightarrow> 'w state \<Rightarrow> (error, u32 \<times> 'w state) res" where
  "create_campaign_entry e p s =
    and_then (create_campaign e p s) (\<lambda>(cid, s1).
    and_then (increment_active_campaign_count s1) (\<lambda>s2. Ok (cid, s2)))"

definition create_campaign_with_token_entry ::
  "('w, 'm) env_scheme \<Rightarrow> create_campaign_params \<Rightarrow> address \<Rightarrow> 'w state
   \<Rightarrow> (error, u32 \<times> 'w state) res" where
  "create_campaign_with_token_entry e p tok s =
    and_then (create_campaign_with_token e p tok s) (\<lambda>(cid, s1).
    and_then (increment_active_campaign_count s1) (\<lambda>s2. Ok (cid, s2)))"

definition vote_on_campaign ::
  "('w, 'm) env_scheme \<Rightarrow> u32 \<Rightarrow> address \<Rightarrow> bool \<Rightarrow> 'w state \<Rightarrow> (error, 'w state) res" where
  "vote_on_campaign e cid voter approve s =
    and_then (require_not_paused s) (\<lambda>_. cast_vote e cid voter approve s)"

definition verify_campaign ::
  "('w, 'm) env_scheme \<Rightarrow> u32 \<Rightarrow> 'w state \<Rightarrow> (error, 'w state) res" where
  "verify_campaign e cid s =
    and_then (stored_admin_auth e s) (\<lambda>_.
    and_then (require_not_paused s) (\<lambda>_. admin_verify cid s))"

text \<open>The batch collects the ids whose verification returned an error; a trap aborts it.\<close>

primrec verify_each ::
  "u32 list \<Rightarrow> u32 list \<Rightarrow> u32 list \<Rightarrow> 'w state \<Rightarrow> (error, u32 list \<times> u32 list \<times> 'w state) res" where
  "verify_each [] verified failed s = Ok (verified, failed, s)"
| "verify_each (cid # cids) verified failed s =
    (case admin_verify cid s of
       Inr s1 \<Rightarrow> verify_each cids (verified @ [cid]) failed s1
     | Inl (Fail _) \<Rightarrow> verify_each cids verified (failed @ [cid]) s
     | Inl Panic \<Rightarrow> Trap)"

definition MAX_BATCH_SIZE :: u32 where [const_defs]: "MAX_BATCH_SIZE = 50"

definition verify_campaigns ::
  "('w, 'm) env_scheme \<Rightarrow> u32 list \<Rightarrow> 'w state
   \<Rightarrow> (error, u32 list \<times> u32 list \<times> 'w state) res" where
  "verify_campaigns e cids s =
    and_then (stored_admin_auth e s) (\<lambda>_.
    and_then (require_not_paused s) (\<lambda>_.
    let batch_size = min (length cids) MAX_BATCH_SIZE in
    and_then (verify_each (take batch_size cids) [] [] s) (\<lambda>(verified, failed, s1).
    Ok (verified, failed,
        publish [Sym ''campaigns_bulk_verified''] [U32 (length verified), Ids failed] s1))))"

definition verify_campaign_with_votes :: "u32 \<Rightarrow> 'w state \<Rightarrow> (error, 'w state) res" where
  "verify_campaign_with_votes cid s =
    and_then (require_not_paused s) (\<lambda>_. verify_with_votes cid s)"

definition update_admin ::
  "('w, 'm) env_scheme \<Rightarrow> address \<Rightarrow> 'w state \<Rightarrow> (error, 'w state) res" where
  "update_admin e new_admin s =
    and_then (admin_or_trap s) (\<lambda>admin. initiate_admin_transfer e admin new_admin s)"

definition censure_comment_entry ::
  "('w, 'm) env_scheme \<Rightarrow> u32 \<Rightarrow> bytes32 \<Rightarrow> string \<Rightarrow> 'w state \<Rightarrow> (error, 'w state) res" where
  "censure_comment_entry e cid h reason s =
    and_then (admin_or_trap s) (\<lambda>admin. censure_comment e admin cid h reason s)"

definition uncensure_comment_entry ::
  "('w, 'm) env_scheme \<Rightarrow> u32 \<Rightarrow> bytes32 \<Rightarrow> 'w state \<Rightarrow> (error, 'w state) res" where
  "uncensure_comment_entry e cid h s =
    and_then (admin_or_trap s) (\<lambda>admin. uncensure_comment e admin cid h s)"

definition is_paused :: "'w state \<Rightarrow> bool" where
  "is_paused s = (paused_flag s \<or> auto_paused_flag s)"

definition get_personal_cap_entry :: "'w state \<Rightarrow> u32 \<Rightarrow> address \<Rightarrow> i128" where
  "get_personal_cap_entry s cid who = (case get_personal_cap s cid who of None \<Rightarrow> 0 | Some x \<Rightarrow> x)"

definition has_pending_campaign_transfer :: "'w state \<Rightarrow> u32 \<Rightarrow> bool" where
  "has_pending_campaign_transfer s cid =
    (case get_campaign s cid of None \<Rightarrow> False | Some c \<Rightarrow> mpc_is_some (c_pending_creator c))"

section \<open>Calls\<close>

datatype campaign_call =
    CreateCampaign create_campaign_params
  | CreateCampaignWithToken create_campaign_params address
  | CancelCampaign u32
  | AdminCancelCampaign address u32 string
  | UpdateCampaign u32 string string
  | UpdateCampaignDescription u32 string
  | ExtendCampaignDeadline u32 u64
  | InitiateCampaignTransfer u32 address
  | AcceptCampaignTransfer u32
  | CancelCampaignTransfer u32

datatype fund_call =
    Contribute u32 address i128
  | ClaimRefund u32 address
  | BatchContribute address "(u32 \<times> i128) list"
  | WithdrawFunds u32
  | WithdrawReserve u32
  | SetMilestones u32 "milestone list"
  | VerifyMilestone address u32 u32
  | ClaimMilestone u32 u32
  | DepositRevenue u32 i128
  | ClaimRevenue u32 address
  | ClaimCreatorRevenue u32
  | SetPersonalCap u32 address i128
  | RemovePersonalCap u32 address

datatype review_call =
    VoteOnCampaign u32 address bool
  | VerifyCampaign u32
  | VerifyCampaigns "u32 list"
  | VerifyCampaignWithVotes u32
  | PurgeVotingState u32 "address list" bool
  | SaveCampaign address u32
  | BatchSaveCampaigns address "u32 list"
  | RemoveSavedCampaign address u32
  | ClearSavedCampaigns address
  | CensureComment u32 bytes32 string
  | UncensureComment u32 bytes32
  | ListActiveCampaigns u32 u32

datatype config_call =
    Init address address u32
  | SetVestingParams address u64 u32
  | SetTokenAllowed address bool
  | SetCreationDisabled bool
  | UpdatePlatformFee u32
  | SetMaxContributionPerTx address i128
  | SetCampaignFeeOverride u32 address u32
  | SetCategoryDurationCap address category u64
  | RemoveCategoryDurationCap address category
  | SetMinCampaignFundingGoal address i128
  | SetMaxCampaignFundingGoal address i128
  | SetVotingParams address u32 u32
  | SetMinVotingBalance address i128
  | SetCategoryVotingThreshold address category u32
  | RemoveCategoryVotingThreshold address category

datatype admin_call =
    PauseContract
  | Unpause
  | EmergencyPause address
  | SetEmergencyPauseSigners address "address list"
  | ResumeCampaign u32 address
  | ProposeTokenUpdate address address
  | AcceptTokenUpdate address
  | CancelTokenUpdate address
  | SetTokenUpdateDelaySecs address u64
  | InitiateAdminTransfer address address
  | AcceptAdminTransfer
  | CancelAdminTransfer address
  | UpdateAdmin address
  | Migrate address u32

datatype call =
    CampaignCall campaign_call
  | FundCall fund_call
  | ReviewCall review_call
  | ConfigCall config_call
  | AdminCall admin_call

primrec run_campaign_call ::
  "('w, 'm) env_scheme \<Rightarrow> campaign_call \<Rightarrow> 'w state \<Rightarrow> (error, 'w state) res" where
  "run_campaign_call e (CreateCampaign p) s =
     and_then (create_campaign_entry e p s) (\<lambda>r. Ok (snd r))"
| "run_campaign_call e (CreateCampaignWithToken p tok) s =
     and_then (create_campaign_with_token_entry e p tok s) (\<lambda>r. Ok (snd r))"
| "run_campaign_call e (CancelCampaign cid) s = cancel_campaign e cid s"
| "run_campaign_call e (AdminCancelCampaign a cid reason) s = admin_cancel_campaign e a cid reason s"
| "run_campaign_call e (UpdateCampaign cid t d) s = update_campaign e cid t d s"
| "run_campaign_call e (UpdateCampaignDescription cid d) s = update_campaign_description e cid d s"
| "run_campaign_call e (ExtendCampaignDeadline cid days) s = extend_campaign_deadline e cid days s"
| "run_campaign_call e (InitiateCampaignTransfer cid a) s = initiate_campaign_transfer e cid a s"
| "run_campaign_call e (AcceptCampaignTransfer cid) s = accept_campaign_transfer e cid s"
| "run_campaign_call e (CancelCampaignTransfer cid) s = cancel_campaign_transfer e cid s"

primrec run_fund_call ::
  "('w, 'm) env_scheme \<Rightarrow> fund_call \<Rightarrow> 'w state \<Rightarrow> (error, 'w state) res" where
  "run_fund_call e (Contribute cid a x) s = contribute e cid a x s"
| "run_fund_call e (ClaimRefund cid a) s = claim_refund e cid a s"
| "run_fund_call e (BatchContribute a items) s = batch_contribute e a items s"
| "run_fund_call e (WithdrawFunds cid) s = withdraw_funds e cid s"
| "run_fund_call e (WithdrawReserve cid) s = withdraw_reserve e cid s"
| "run_fund_call e (SetMilestones cid ms) s = set_milestones e cid ms s"
| "run_fund_call e (VerifyMilestone a cid mid) s = verify_milestone e a cid mid s"
| "run_fund_call e (ClaimMilestone cid mid) s = claim_milestone e cid mid s"
| "run_fund_call e (DepositRevenue cid x) s = deposit_revenue e cid x s"
| "run_fund_call e (ClaimRevenue cid a) s = claim_revenue e cid a s"
| "run_fund_call e (ClaimCreatorRevenue cid) s = claim_creator_revenue e cid s"
| "run_fund_call e (SetPersonalCap cid a x) s = set_personal_cap_fn e cid a x s"
| "run_fund_call e (RemovePersonalCap cid a) s = remove_personal_cap_fn e cid a s"

primrec run_review_call ::
  "('w, 'm) env_scheme \<Rightarrow> review_call \<Rightarrow> 'w state \<Rightarrow> (error, 'w state) res" where
  "run_review_call e (VoteOnCampaign cid a b) s = vote_on_campaign e cid a b s"
| "run_review_call e (VerifyCampaign cid) s = verify_campaign e cid s"
| "run_review_call e (VerifyCampaigns cids) s =
     and_then (verify_campaigns e cids s) (\<lambda>r. Ok (snd (snd r)))"
| "run_review_call e (VerifyCampaignWithVotes cid) s = verify_campaign_with_votes cid s"
| "run_review_call e (PurgeVotingState cid voters fin) s = purge_voting_state e cid voters fin s"
| "run_review_call e (SaveCampaign a cid) s = save_campaign e a cid s"
| "run_review_call e (BatchSaveCampaigns a cids) s = batch_save_campaigns e a cids s"
| "run_review_call e (RemoveSavedCampaign a cid) s = remove_saved_campaign e a cid s"
| "run_review_call e (ClearSavedCampaigns a) s = clear_saved_campaigns e a s"
| "run_review_call e (CensureComment cid h r) s = censure_comment_entry e cid h r s"
| "run_review_call e (UncensureComment cid h) s = uncensure_comment_entry e cid h s"
| "run_review_call e (ListActiveCampaigns start limit) s =
     and_then (list_active_campaigns s start limit) (\<lambda>r. Ok (snd (snd r)))"

primrec run_config_call ::
  "('w, 'm) env_scheme \<Rightarrow> config_call \<Rightarrow> 'w state \<Rightarrow> (error, 'w state) res" where
  "run_config_call e (Init a tok fee) s = init e a tok fee s"
| "run_config_call e (SetVestingParams a days bps) s = set_vesting_params e a days bps s"
| "run_config_call e (SetTokenAllowed tok b) s = set_token_allowed_fn e tok b s"
| "run_config_call e (SetCreationDisabled b) s = set_creation_disabled_fn e b s"
| "run_config_call e (UpdatePlatformFee fee) s = update_platform_fee e fee s"
| "run_config_call e (SetMaxContributionPerTx a x) s = set_max_contribution_per_transaction e a x s"
| "run_config_call e (SetCampaignFeeOverride cid a fee) s = set_campaign_fee_override e cid a fee s"
| "run_config_call e (SetCategoryDurationCap a cat d) s = set_category_duration_cap_fn e a cat d s"
| "run_config_call e (RemoveCategoryDurationCap a cat) s = remove_category_duration_cap_fn e a cat s"
| "run_config_call e (SetMinCampaignFundingGoal a g) s = set_min_campaign_funding_goal_fn e a g s"
| "run_config_call e (SetMaxCampaignFundingGoal a g) s = set_max_campaign_funding_goal_fn e a g s"
| "run_config_call e (SetVotingParams a q t) s = set_voting_params e a q t s"
| "run_config_call e (SetMinVotingBalance a b) s = set_min_voting_balance_fn e a b s"
| "run_config_call e (SetCategoryVotingThreshold a cat t) s = set_category_voting_threshold e a cat t s"
| "run_config_call e (RemoveCategoryVotingThreshold a cat) s =
     remove_category_voting_threshold e a cat s"

primrec run_admin_call ::
  "('w, 'm) env_scheme \<Rightarrow> admin_call \<Rightarrow> 'w state \<Rightarrow> (error, 'w state) res" where
  "run_admin_call e PauseContract s = pause e s"
| "run_admin_call e Unpause s = unpause e s"
| "run_admin_call e (EmergencyPause a) s = emergency_pause e a s"
| "run_admin_call e (SetEmergencyPauseSigners a xs) s = set_emergency_pause_signers_fn e a xs s"
| "run_admin_call e (ResumeCampaign cid a) s = resume_campaign e cid a s"
| "run_admin_call e (ProposeTokenUpdate a tok) s = propose_token_update e a tok s"
| "run_admin_call e (AcceptTokenUpdate a) s = accept_token_update e a s"
| "run_admin_call e (CancelTokenUpdate a) s = cancel_token_update e a s"
| "run_admin_call e (SetTokenUpdateDelaySecs a d) s = set_token_update_delay_secs_fn e a d s"
| "run_admin_call e (InitiateAdminTransfer a b) s = initiate_admin_transfer e a b s"
| "run_admin_call e AcceptAdminTransfer s = accept_admin_transfer e s"
| "run_admin_call e (CancelAdminTransfer a) s = cancel_admin_transfer e a s"
| "run_admin_call e (UpdateAdmin a) s = update_admin e a s"
| "run_admin_call e (Migrate a v) s = migrate e a v s"

primrec dispatch ::
  "('w, 'm) env_scheme \<Rightarrow> call \<Rightarrow> 'w state \<Rightarrow> (error, 'w state) res" where
  "dispatch e (CampaignCall k) s = run_campaign_call e k s"
| "dispatch e (FundCall k) s = run_fund_call e k s"
| "dispatch e (ReviewCall k) s = run_review_call e k s"
| "dispatch e (ConfigCall k) s = run_config_call e k s"
| "dispatch e (AdminCall k) s = run_admin_call e k s"

text \<open>One invocation: a call that returns an error or traps leaves the ledger unchanged.\<close>

definition invoke :: "('w, 'm) env_scheme \<Rightarrow> call \<Rightarrow> 'w state \<Rightarrow> 'w state" where
  "invoke e k s = commit s (dispatch e k s)"

section \<open>Reachable states\<close>

text \<open>
  The states of a contract that was initialised when it was deployed, at ledger
  time \<open>now\<close>. Calls come in any order from anybody with any authorisation; time
  does not run backwards; between calls the token contracts move on their own.
\<close>

inductive reachable :: "'w host \<Rightarrow> u64 \<Rightarrow> 'w state \<Rightarrow> bool" for h where
  deployed:
    "init e admin tok fee (empty_state wd) = Inr s \<Longrightarrow> host.truncate e = h \<Longrightarrow>
     reachable h (e_timestamp (e :: 'w env)) s"
| called:
    "reachable h now s \<Longrightarrow> now \<le> e_timestamp e \<Longrightarrow> host.truncate e = h \<Longrightarrow>
     reachable h (e_timestamp (e :: 'w env)) (invoke e k s)"
| tokens_moved:
    "reachable h now s \<Longrightarrow> reachable h now (s\<lparr>st_world := wd\<rparr>)"

inductive_cases reachableE: "reachable h now s"

section \<open>Refinement of the escrow\<close>

lemma create_entry_step:
  assumes "create_campaign_entry e p s = Inr (n, s')"
    and caps: "\<forall>d. get_category_duration_cap s (p_category p) = Some d \<longrightarrow> d \<le> 365"
  shows "core_step (e_timestamp e) (core s) (core s')"
proof -
  from assms(1) obtain s1 where c: "create_campaign_inner e p None s = Inr (n, s1)"
    and s': "s' = set_active_campaign_count (get_active_campaign_count s1 + 1) s1"
    by (auto simp: create_campaign_entry_def create_campaign_def res_simps)
  from create_campaign_inner_core [OF c caps] obtain share where
    new: "n = get_campaign_count s + 1" "fresh_campaign (e_timestamp e)
       (new_campaign p n share (e_timestamp e + p_duration_days p * SECONDS_PER_DAY))"
    and eq: "core s1 = (core s)\<lparr>k_count := n,
       k_camp := (get_campaign s)(n \<mapsto>
         new_campaign p n share (e_timestamp e + p_duration_days p * SECONDS_PER_DAY)),
       k_start := (get_campaign_start_time s)(n \<mapsto> e_timestamp e)\<rparr>" .
  have "core s' = k_create (e_timestamp e)
      (new_campaign p n share (e_timestamp e + p_duration_days p * SECONDS_PER_DAY)) (core s)"
    using eq new(1) by (simp add: s' core_frame k_create_def)
  then show ?thesis
    using new core_step.created [of _ "core s"] by (simp add: core_fields new_campaign_def)
qed

lemma create_with_token_entry_step:
  assumes "create_campaign_with_token_entry e p tok s = Inr (n, s')"
    and caps: "\<forall>d. get_category_duration_cap s (p_category p) = Some d \<longrightarrow> d \<le> 365"
  shows "core_step (e_timestamp e) (core s) (core s')"
proof -
  from assms(1) obtain s1 where c: "create_campaign_inner e p (Some tok) s = Inr (n, s1)"
    and s': "s' = set_active_campaign_count (get_active_campaign_count s1 + 1) s1"
    by (auto simp: create_campaign_with_token_entry_def create_campaign_with_token_def res_simps)
  from create_campaign_inner_core [OF c caps] obtain share where
    new: "n = get_campaign_count s + 1" "fresh_campaign (e_timestamp e)
       (new_campaign p n share (e_timestamp e + p_duration_days p * SECONDS_PER_DAY))"
    and eq: "core s1 = (core s)\<lparr>k_count := n,
       k_camp := (get_campaign s)(n \<mapsto>
         new_campaign p n share (e_timestamp e + p_duration_days p * SECONDS_PER_DAY)),
       k_start := (get_campaign_start_time s)(n \<mapsto> e_timestamp e)\<rparr>" .
  have "core s' = k_create (e_timestamp e)
      (new_campaign p n share (e_timestamp e + p_duration_days p * SECONDS_PER_DAY)) (core s)"
    using eq new(1) by (simp add: s' core_frame k_create_def)
  then show ?thesis
    using new core_step.created [of _ "core s"] by (simp add: core_fields new_campaign_def)
qed

lemma verify_each_steps:
  "verify_each cids vs fs s = Inr (vs', fs', s') \<Longrightarrow> core_steps now (core s) (core s')"
proof (induction cids arbitrary: vs fs s)
  case (Cons cid cids)
  from Cons.prems show ?case
    by (auto split: sum.splits fail.splits
        intro: converse_rtranclp_into_rtranclp [where r = "core_step now", OF verify_step(1)] Cons.IH)
qed simp

end
