(* ===== verification/Observers.thy ===== *)
theory Observers
  imports Contract
begin

text \<open>
  Views of the state across the entry points. \<open>review_observer\<close> is the interface of a view
  that votes, bookmarks, censures and verifications do not write, \<open>fund_call_observer\<close> of one
  that the funding operations and the edits of campaigns do not write either, and
  \<open>call_observer\<close> of one that a transfer leaves alone too: only a creation or a configuration call
  can then change it. \<open>config_observer\<close> is the interface of a view that no configuration call writes,
  \<open>settings_observer\<close> of one that only a change of the platform token may write.
\<close>

section \<open>What the reviewing calls do not touch\<close>

locale review_observer =
  fixes obs :: "'w state \<Rightarrow> 'a"
  assumes obs_publish: "obs (publish tp v s) = obs s"
    and obs_votes: "obs (set_has_voted cid a s) = obs s" "obs (remove_has_voted cid a s) = obs s"
      "obs (set_approve_votes cid n s) = obs s" "obs (set_reject_votes cid n s) = obs s"
      "obs (set_approve_weight cid i s) = obs s" "obs (set_reject_weight cid i s) = obs s"
      "obs (remove_voting_state cid s) = obs s"
    and obs_saved: "obs (set_saved_campaigns a xs s) = obs s"
    and obs_censures: "obs (set_comment_censure cid h cc s) = obs s"
      "obs (remove_comment_censure cid h s) = obs s" "obs (set_campaign_censured_count cid n s) = obs s"
    and obs_verified: "get_campaign s cid = Some c \<Longrightarrow>
      obs (set_verified_campaign_count n (set_campaign cid (c\<lparr>c_is_verified := True\<rparr>) s)) = obs s"
begin

lemmas obs_reviews = obs_publish obs_votes obs_saved obs_censures

lemma fold_obs: "(\<And>x t. obs (f x t) = obs t) \<Longrightarrow> obs (fold f xs s) = obs s"
  by (induction xs arbitrary: s) simp_all

lemma verification_obs:
  "mark_verified cid c s = Inr s' \<Longrightarrow> get_campaign s cid = Some c \<Longrightarrow> obs s' = obs s"
  "admin_verify cid s = Inr s' \<Longrightarrow> obs s' = obs s"
  "verify_with_votes cid s = Inr s' \<Longrightarrow> obs s' = obs s"
  by (auto simp: mark_verified_def increment_verified_campaign_count_def admin_verify_def
      verify_with_votes_def Let_def res_simps obs_reviews obs_verified)

lemma voting_obs:
  "cast_vote e cid a b s = Inr s' \<Longrightarrow> obs s' = obs s"
  "purge_voting_state e cid voters fin s = Inr s' \<Longrightarrow> obs s' = obs s"
  by (auto simp: cast_vote_def record_vote_def purge_voting_state_def Let_def res_simps
      obs_reviews fold_obs split: if_splits)

lemma bookmarks_obs:
  "save_campaign e a cid s = Inr s' \<Longrightarrow> obs s' = obs s"
  "batch_save_campaigns e a cids s = Inr s' \<Longrightarrow> obs s' = obs s"
  "remove_saved_campaign e a cid s = Inr s' \<Longrightarrow> obs s' = obs s"
  "clear_saved_campaigns e a s = Inr s' \<Longrightarrow> obs s' = obs s"
  by (auto simp: save_campaign_def batch_save_campaigns_def remove_saved_campaign_def
      clear_saved_campaigns_def Let_def res_simps obs_reviews fold_obs)

lemma comments_obs:
  "censure_comment e a cid h r s = Inr s' \<Longrightarrow> obs s' = obs s"
  "uncensure_comment e a cid h s = Inr s' \<Longrightarrow> obs s' = obs s"
  by (auto simp: censure_comment_def uncensure_comment_def Let_def res_simps obs_reviews
      split: if_splits)

lemma scan_active_obs:
  "scan_active s start tot cap cur n acc = Inr (cs, nxt, s') \<Longrightarrow> obs s' = obs s"
proof (induction s start tot cap cur n acc rule: scan_active.induct)
  case (1 s start tot cap cur n acc)
  show ?case
    using 1(4) by (subst (asm) scan_active.simps)
      (auto simp: res_simps obs_reviews split: if_splits option.splits dest: 1(1-3))
qed

lemma verify_each_obs:
  "verify_each cids vs fs s = Inr (vs', fs', s') \<Longrightarrow> obs s' = obs s"
proof (induction cids arbitrary: vs fs s)
  case (Cons cid cids)
  from Cons.prems show ?case
    by (auto split: sum.splits fail.splits dest!: Cons.IH verification_obs(2))
qed simp

lemma review_call_obs:
  assumes "run_review_call e k s = Inr s'"
  shows "obs s' = obs s"
proof (cases k)
  case (ListActiveCampaigns start limit)
  with assms show ?thesis
    by (auto simp: list_active_campaigns_def Let_def res_simps dest!: scan_active_obs split: if_splits)
qed (use assms in \<open>auto simp: vote_on_campaign_def verify_campaign_def verify_campaigns_def
  verify_campaign_with_votes_def censure_comment_entry_def uncensure_comment_entry_def Let_def
  res_simps obs_reviews
  dest!: voting_obs bookmarks_obs comments_obs verify_each_obs verification_obs(2, 3)\<close>)

end

section \<open>What the campaign and funding calls do not touch\<close>

locale fund_call_observer = fund_observer + review_observer
begin

lemma deduct_close_obs:
  "deduct_raised c s = Inr s' \<Longrightarrow> obs s' = obs s"
  "close_cancelled cid c s = Inr s' \<Longrightarrow> obs s' = obs s"
  by (auto simp: deduct_raised_def close_cancelled_def prune_bookmarks_for_campaign_def Let_def
      res_simps obs_simps obs_reviews split: if_splits)

lemma cancel_obs:
  "cancel_campaign e cid s = Inr s' \<Longrightarrow> obs s' = obs s"
  "admin_cancel_campaign e a cid reason s = Inr s' \<Longrightarrow> obs s' = obs s"
  by (auto simp: cancel_campaign_def admin_cancel_campaign_def Let_def res_simps obs_simps
      dest!: deduct_close_obs split: if_splits)

lemma update_campaign_description_obs:
  "update_campaign_description e cid d s = Inr s' \<Longrightarrow> obs s' = obs s"
  by (auto simp: update_campaign_description_def Let_def res_simps obs_simps obs_reviews split: if_splits)

lemma fund_call_obs:
  assumes "run_fund_call e k s = Inr s'"
  shows "obs s' = obs s"
  using assms
  by (cases k) (auto dest!: contributions_obs withdraw_obs milestones_obs revenue_obs)

lemma edit_call_obs:
  assumes "run_campaign_call e k s = Inr s'" "\<And>cid. k \<noteq> AcceptCampaignTransfer cid"
    and "\<And>p. k \<noteq> CreateCampaign p" "\<And>p tok. k \<noteq> CreateCampaignWithToken p tok"
  shows "obs s' = obs s"
  using assms
  by (cases k) (auto dest!: cancel_obs update_campaign_description_obs update_obs pending_transfer_obs)

end

locale call_observer = fund_call_observer + catalogue_observer
begin

lemma campaign_call_obs:
  assumes "run_campaign_call e k s = Inr s'"
    and "\<And>p. k \<noteq> CreateCampaign p" "\<And>p tok. k \<noteq> CreateCampaignWithToken p tok"
  shows "obs s' = obs s"
proof (cases "\<exists>cid. k = AcceptCampaignTransfer cid")
  case True
  with assms(1) show ?thesis by (auto dest!: accept_transfer_obs)
qed (use edit_call_obs assms in blast)

end

section \<open>What the configuration calls do not touch\<close>

locale settings_observer =
  fixes obs :: "'w state \<Rightarrow> 'a"
  assumes obs_event: "obs (publish tp v s) = obs s"
    and obs_admin: "obs (set_paused b s) = obs s" "obs (set_auto_paused b s) = obs s"
      "obs (set_admin a s) = obs s" "obs (set_pending_admin a s) = obs s"
      "obs (remove_pending_admin s) = obs s"
      "obs (set_pending_token a s) = obs s" "obs (remove_pending_token s) = obs s"
      "obs (set_pending_token_release n s) = obs s" "obs (set_token_update_delay_secs n s) = obs s"
      "obs (set_version n s) = obs s" "obs (set_emergency_pause_signers xs s) = obs s"
    and obs_limits: "obs (set_platform_fee n s) = obs s"
      "obs (set_max_contribution_per_transaction_value i s) = obs s"
      "obs (set_min_campaign_funding_goal i s) = obs s"
      "obs (set_max_campaign_funding_goal i s) = obs s"
      "obs (set_withdraw_release_delay_days n s) = obs s"
      "obs (set_withdraw_reserve_percentage n s) = obs s" "obs (set_creation_disabled b s) = obs s"
      "obs (set_token_allowed a b s) = obs s" "obs (set_category_duration_cap cat n s) = obs s"
      "obs (remove_category_duration_cap cat s) = obs s"
    and obs_votes: "obs (set_min_votes_quorum n s) = obs s"
      "obs (set_approval_threshold_bps n s) = obs s" "obs (set_min_voting_balance i s) = obs s"
      "obs (set_category_voting_threshold_bps cat n s) = obs s"
      "obs (remove_category_voting_threshold_bps cat s) = obs s"
    and obs_fee: "get_campaign s cid = Some c \<Longrightarrow>
      obs (set_campaign cid (c\<lparr>c_fee_override := Some n\<rparr>) s) = obs s"
begin

lemmas obs_simps = obs_event obs_admin obs_limits obs_votes obs_fee

lemma other_admin_call_obs:
  "run_admin_call e k s = Inr s' \<Longrightarrow> (\<And>a. k \<noteq> AcceptTokenUpdate a) \<Longrightarrow> obs s' = obs s"
  by (cases k)
     (auto simp: pause_def unpause_def emergency_pause_def set_emergency_pause_signers_fn_def
       resume_campaign_def propose_token_update_def cancel_token_update_def
       set_token_update_delay_secs_fn_def initiate_admin_transfer_def accept_admin_transfer_def
       cancel_admin_transfer_def update_admin_def migrate_def
       Let_def res_simps obs_simps split: option.splits)

lemma config_call_obs: "run_config_call e k s = Inr s' \<Longrightarrow> is_initialized s \<Longrightarrow> obs s' = obs s"
  by (cases k)
     (auto simp: init_initialized set_vesting_params_def set_token_allowed_fn_def
       set_creation_disabled_fn_def update_platform_fee_def set_max_contribution_per_transaction_def
       set_campaign_fee_override_def set_category_duration_cap_fn_def
       remove_category_duration_cap_fn_def set_min_campaign_funding_goal_fn_def
       set_max_campaign_funding_goal_fn_def set_voting_params_def set_params_def
       set_min_voting_balance_fn_def set_category_voting_threshold_def
       remove_category_voting_threshold_def Let_def res_simps obs_simps
       split: if_splits)

end

locale config_observer = settings_observer +
  assumes obs_token: "obs (set_token a s) = obs s"
begin

lemma admin_call_obs:
  assumes "run_admin_call e k s = Inr s'"
  shows "obs s' = obs s"
proof (cases "\<exists>a. k = AcceptTokenUpdate a")
  case True
  with assms show ?thesis
    by (auto simp: accept_token_update_def Let_def res_simps obs_simps obs_token split: option.splits)
qed (use other_admin_call_obs assms in blast)

end

end
