(* ===== verification/Config.thy ===== *)
theory Config
  imports Observers
begin

text \<open>
  The configuration of the platform as a view of the state: what the admin's
  setters write, the bounds they maintain, and that no other call writes it.
\<close>

section \<open>The view\<close>

record config =
  g_initialized :: bool
  g_admin :: "address option"
  g_token :: "address option"
  g_auto_paused :: bool
  g_fee :: u32
  g_delay :: u64
  g_reserve :: u32
  g_tx_cap :: i128
  g_update_delay :: u64
  g_min_goal :: i128
  g_caps :: "category \<Rightarrow> u64 option"
  g_quorum :: u32
  g_threshold :: u32
  g_min_balance :: i128
  g_category_threshold :: "category \<Rightarrow> u32 option"

definition config :: "'w state \<Rightarrow> config" where
  "config s =
    \<lparr>g_initialized = is_initialized s, g_admin = get_admin s, g_token = get_token s,
     g_auto_paused = auto_paused_flag s, g_fee = get_platform_fee s,
     g_delay = get_withdraw_release_delay_days s, g_reserve = get_withdraw_reserve_percentage s,
     g_tx_cap = get_max_contribution_per_transaction s,
     g_update_delay = get_token_update_delay_secs s TOKEN_UPDATE_DELAY_SECS,
     g_min_goal = get_min_campaign_funding_goal s CAMPAIGN_FUNDING_GOAL_MIN,
     g_caps = get_category_duration_cap s,
     g_quorum = get_min_votes_quorum s DEFAULT_MIN_VOTES_QUORUM,
     g_threshold = get_approval_threshold_bps s DEFAULT_APPROVAL_THRESHOLD_BPS,
     g_min_balance = get_min_voting_balance s,
     g_category_threshold = get_category_voting_threshold_bps s\<rparr>"

definition config_ok :: "config \<Rightarrow> bool" where
  "config_ok g \<longleftrightarrow>
     g_initialized g \<and> g_admin g \<noteq> None \<and> g_token g \<noteq> None \<and> \<not> g_auto_paused g \<and>
     g_fee g \<le> 1000 \<and>
     g_delay g \<le> 365 \<and> g_reserve g \<le> 10000 \<and> (g_delay g = 0 \<longrightarrow> g_reserve g = 0) \<and>
     0 \<le> g_tx_cap g \<and> 0 < g_update_delay g \<and> g_update_delay g \<le> 31536000 \<and> 0 < g_min_goal g \<and>
     (\<forall>cat d. g_caps g cat = Some d \<longrightarrow> 1 \<le> d \<and> d \<le> 365) \<and>
     1 \<le> g_quorum g \<and> g_quorum g \<le> 1000 \<and> 1000 \<le> g_threshold g \<and> g_threshold g \<le> 10000 \<and>
     0 \<le> g_min_balance g \<and>
     (\<forall>cat t. g_category_threshold g cat = Some t \<longrightarrow> 1000 \<le> t \<and> t \<le> 10000)"

lemma config_fields:
  "g_initialized (config s) = is_initialized s" "g_admin (config s) = get_admin s"
  "g_token (config s) = get_token s" "g_auto_paused (config s) = auto_paused_flag s"
  "g_fee (config s) = get_platform_fee s" "g_delay (config s) = get_withdraw_release_delay_days s"
  "g_reserve (config s) = get_withdraw_reserve_percentage s"
  "g_tx_cap (config s) = get_max_contribution_per_transaction s"
  "g_update_delay (config s) = get_token_update_delay_secs s TOKEN_UPDATE_DELAY_SECS"
  "g_min_goal (config s) = get_min_campaign_funding_goal s CAMPAIGN_FUNDING_GOAL_MIN"
  "g_caps (config s) = get_category_duration_cap s"
  "g_quorum (config s) = get_min_votes_quorum s DEFAULT_MIN_VOTES_QUORUM"
  "g_threshold (config s) = get_approval_threshold_bps s DEFAULT_APPROVAL_THRESHOLD_BPS"
  "g_min_balance (config s) = get_min_voting_balance s"
  "g_category_threshold (config s) = get_category_voting_threshold_bps s"
  by (simp_all add: config_def)

lemma config_writes:
  "config (set_initialized s) = (config s)\<lparr>g_initialized := True\<rparr>"
  "config (set_admin a s) = (config s)\<lparr>g_admin := Some a\<rparr>"
  "config (set_token a s) = (config s)\<lparr>g_token := Some a\<rparr>"
  "config (set_auto_paused b s) = (config s)\<lparr>g_auto_paused := b\<rparr>"
  "config (set_platform_fee n s) = (config s)\<lparr>g_fee := n\<rparr>"
  "config (set_withdraw_release_delay_days n s) = (config s)\<lparr>g_delay := n\<rparr>"
  "config (set_withdraw_reserve_percentage n s) = (config s)\<lparr>g_reserve := n\<rparr>"
  "config (set_max_contribution_per_transaction_value i s) = (config s)\<lparr>g_tx_cap := i\<rparr>"
  "config (set_token_update_delay_secs n s) = (config s)\<lparr>g_update_delay := n\<rparr>"
  "config (set_min_campaign_funding_goal i s) = (config s)\<lparr>g_min_goal := i\<rparr>"
  "config (set_category_duration_cap cat n s) =
     (config s)\<lparr>g_caps := (g_caps (config s))(cat \<mapsto> n)\<rparr>"
  "config (remove_category_duration_cap cat s) =
     (config s)\<lparr>g_caps := (g_caps (config s))(cat := None)\<rparr>"
  "config (set_min_votes_quorum n s) = (config s)\<lparr>g_quorum := n\<rparr>"
  "config (set_approval_threshold_bps n s) = (config s)\<lparr>g_threshold := n\<rparr>"
  "config (set_min_voting_balance i s) = (config s)\<lparr>g_min_balance := i\<rparr>"
  "config (set_category_voting_threshold_bps cat n s) =
     (config s)\<lparr>g_category_threshold := (g_category_threshold (config s))(cat \<mapsto> n)\<rparr>"
  "config (remove_category_voting_threshold_bps cat s) =
     (config s)\<lparr>g_category_threshold := (g_category_threshold (config s))(cat := None)\<rparr>"
  by (simp_all add: config_def store_defs category_code_inj fun_eq_iff)

lemma config_ignores:
  "config (set_paused b s) = config s" "config (set_pending_admin a s) = config s"
  "config (remove_pending_admin s) = config s" "config (set_max_campaign_funding_goal i s) = config s"
  "config (set_version n s) = config s" "config (set_creation_disabled b s) = config s"
  "config (set_pending_token a s) = config s" "config (remove_pending_token s) = config s"
  "config (set_pending_token_release n s) = config s"
  "config (set_emergency_pause_signers xs s) = config s" "config (set_token_allowed a b s) = config s"
  by (simp_all add: config_def store_defs fun_eq_iff)

lemma config_okD:
  assumes "config_ok (config s)"
  shows "is_initialized s" "get_admin s \<noteq> None" "get_token s \<noteq> None" "\<not> auto_paused_flag s"
    "get_platform_fee s \<le> 1000" "get_category_duration_cap s cat = Some d \<Longrightarrow> d \<le> 365"
    "get_withdraw_release_delay_days s \<le> 365" "get_withdraw_reserve_percentage s \<le> 10000"
    "1 \<le> get_min_votes_quorum s DEFAULT_MIN_VOTES_QUORUM"
    "get_category_voting_threshold_bps s cat = Some n \<Longrightarrow> 1000 \<le> n \<and> n \<le> 10000"
    "1000 \<le> get_approval_threshold_bps s DEFAULT_APPROVAL_THRESHOLD_BPS"
    "get_approval_threshold_bps s DEFAULT_APPROVAL_THRESHOLD_BPS \<le> 10000"
  using assms unfolding config_ok_def config_fields by blast+

section \<open>Calls that leave it alone\<close>

interpretation config_view: escrow_observer config
  by unfold_locales (simp_all add: config_def store_defs fun_eq_iff)

interpretation config_calls: call_observer config
  by unfold_locales (simp_all add: config_def store_defs fun_eq_iff)

lemmas config_frame =
  config_view.obs_simps config_view.obs_creator config_view.obs_catalogue config_calls.obs_reviews
  config_writes config_ignores

section \<open>Calls that write it\<close>

lemma config_empty:
  "config (empty_state wd) =
    \<lparr>g_initialized = False, g_admin = None, g_token = None, g_auto_paused = False, g_fee = 300,
     g_delay = 0, g_reserve = 0, g_tx_cap = 0, g_update_delay = TOKEN_UPDATE_DELAY_SECS,
     g_min_goal = CAMPAIGN_FUNDING_GOAL_MIN, g_caps = Map.empty,
     g_quorum = DEFAULT_MIN_VOTES_QUORUM, g_threshold = DEFAULT_APPROVAL_THRESHOLD_BPS,
     g_min_balance = 0, g_category_threshold = Map.empty\<rparr>"
  by (simp add: config_def store_defs empty_state_def fun_eq_iff)

lemma init_config_ok:
  "init e a tok fee (empty_state wd) = Inr s' \<Longrightarrow> config_ok (config s')"
  by (simp only: init_def Let_def res_simps Inr_inject, clarify,
      simp add: config_empty config_frame config_ok_def const_defs not_less)

lemma vesting_config_ok:
  assumes "set_vesting_params e a days bps s = Inr s'" "config_ok (config s)"
  shows "config_ok (config s')"
proof -
  have "days \<le> 365" "bps \<le> 10000" "days = 0 \<longrightarrow> bps = 0"
    "config s' = (config s)\<lparr>g_delay := days, g_reserve := bps\<rparr>"
    using assms(1)
    by (auto simp: set_vesting_params_def Let_def res_simps config_frame const_defs split: if_splits)
  with assms(2) show ?thesis by (simp add: config_ok_def)
qed

lemma switches_config_ok:
  "pause e s = Inr s' \<Longrightarrow> config_ok (config s) \<Longrightarrow> config_ok (config s')"
  "unpause e s = Inr s' \<Longrightarrow> config_ok (config s) \<Longrightarrow> config_ok (config s')"
  "set_emergency_pause_signers_fn e a xs s = Inr s' \<Longrightarrow> config_ok (config s) \<Longrightarrow> config_ok (config s')"
  "emergency_pause e a s = Inr s' \<Longrightarrow> config_ok (config s) \<Longrightarrow> config_ok (config s')"
  "resume_campaign e cid a s = Inr s' \<Longrightarrow> config_ok (config s) \<Longrightarrow> config_ok (config s')"
  "set_creation_disabled_fn e b s = Inr s' \<Longrightarrow> config_ok (config s) \<Longrightarrow> config_ok (config s')"
  "set_token_allowed_fn e a b s = Inr s' \<Longrightarrow> config_ok (config s) \<Longrightarrow> config_ok (config s')"
  by (simp only: pause_def unpause_def set_emergency_pause_signers_fn_def emergency_pause_def
      resume_campaign_def set_creation_disabled_fn_def set_token_allowed_fn_def Let_def
      res_simps, clarify,
      simp add: config_frame config_ok_def const_defs split: option.splits)+

lemma bounds_config_ok:
  "set_voting_params e a q t s = Inr s' \<Longrightarrow> config_ok (config s) \<Longrightarrow> config_ok (config s')"
  "set_min_voting_balance_fn e a i s = Inr s' \<Longrightarrow> config_ok (config s) \<Longrightarrow> config_ok (config s')"
  "update_platform_fee e n s = Inr s' \<Longrightarrow> config_ok (config s) \<Longrightarrow> config_ok (config s')"
  "set_max_contribution_per_transaction e a i s = Inr s' \<Longrightarrow> config_ok (config s) \<Longrightarrow> config_ok (config s')"
  "set_category_duration_cap_fn e a cat n s = Inr s' \<Longrightarrow> config_ok (config s) \<Longrightarrow> config_ok (config s')"
  "remove_category_duration_cap_fn e a cat s = Inr s' \<Longrightarrow> config_ok (config s) \<Longrightarrow> config_ok (config s')"
  "set_category_voting_threshold e a cat n s = Inr s' \<Longrightarrow> config_ok (config s) \<Longrightarrow> config_ok (config s')"
  "remove_category_voting_threshold e a cat s = Inr s' \<Longrightarrow> config_ok (config s) \<Longrightarrow> config_ok (config s')"
  by (simp only: set_voting_params_def set_params_def set_min_voting_balance_fn_def
      update_platform_fee_def set_max_contribution_per_transaction_def
      set_category_duration_cap_fn_def remove_category_duration_cap_fn_def
      set_category_voting_threshold_def remove_category_voting_threshold_def Let_def res_simps,
      clarify,
      simp add: config_frame config_ok_def const_defs split: option.splits)+

lemma goals_config_ok:
  "set_min_campaign_funding_goal_fn e a i s = Inr s' \<Longrightarrow> config_ok (config s) \<Longrightarrow> config_ok (config s')"
  "set_max_campaign_funding_goal_fn e a i s = Inr s' \<Longrightarrow> config_ok (config s) \<Longrightarrow> config_ok (config s')"
  "migrate e a n s = Inr s' \<Longrightarrow> config_ok (config s) \<Longrightarrow> config_ok (config s')"
  by (simp only: set_min_campaign_funding_goal_fn_def set_max_campaign_funding_goal_fn_def
      migrate_def Let_def res_simps, clarify,
      simp add: config_frame config_ok_def const_defs split: option.splits)+

lemma handovers_config_ok:
  "propose_token_update e a tok s = Inr s' \<Longrightarrow> config_ok (config s) \<Longrightarrow> config_ok (config s')"
  "accept_token_update e a s = Inr s' \<Longrightarrow> config_ok (config s) \<Longrightarrow> config_ok (config s')"
  "cancel_token_update e a s = Inr s' \<Longrightarrow> config_ok (config s) \<Longrightarrow> config_ok (config s')"
  "set_token_update_delay_secs_fn e a n s = Inr s' \<Longrightarrow> config_ok (config s) \<Longrightarrow> config_ok (config s')"
  "initiate_admin_transfer e a b s = Inr s' \<Longrightarrow> config_ok (config s) \<Longrightarrow> config_ok (config s')"
  "accept_admin_transfer e s = Inr s' \<Longrightarrow> config_ok (config s) \<Longrightarrow> config_ok (config s')"
  "cancel_admin_transfer e a s = Inr s' \<Longrightarrow> config_ok (config s) \<Longrightarrow> config_ok (config s')"
  by (simp only: propose_token_update_def accept_token_update_def cancel_token_update_def
      set_token_update_delay_secs_fn_def initiate_admin_transfer_def accept_admin_transfer_def
      cancel_admin_transfer_def Let_def res_simps, clarify,
      simp add: config_frame config_ok_def const_defs split: option.splits)+

end
