(* ===== verification/Reachability.thy ===== *)
theory Reachability
  imports Config
begin

text \<open>
  The components put together: every call refines the escrow and keeps the bounds
  of the configuration, hence both invariants hold in every reachable state.
\<close>

section \<open>One call\<close>

lemma create_steps:
  assumes "run_campaign_call e k s = Inr s'" "config_ok (config s)"
    and k: "k = CreateCampaign p \<or> k = CreateCampaignWithToken p tok"
  shows "core_step (e_timestamp e) (core s) (core s')"
proof -
  have caps: "\<forall>d. get_category_duration_cap s (p_category p) = Some d \<longrightarrow> d \<le> 365"
    using config_okD(6) [OF assms(2)] by blast
  from k show ?thesis
  proof
    assume "k = CreateCampaign p"
    with assms(1) obtain n where "create_campaign_entry e p s = Inr (n, s')" by (auto simp: res_simps)
    then show ?thesis by (rule create_entry_step [OF _ caps])
  next
    assume "k = CreateCampaignWithToken p tok"
    with assms(1) obtain n where "create_campaign_with_token_entry e p tok s = Inr (n, s')"
      by (auto simp: res_simps)
    then show ?thesis by (rule create_with_token_entry_step [OF _ caps])
  qed
qed

lemma campaign_call_steps:
  assumes "run_campaign_call e k s = Inr s'" "config_ok (config s)"
    and "\<And>cid. k \<noteq> AcceptCampaignTransfer cid"
  shows "core_step (e_timestamp e) (core s) (core s')"
  using assms
proof (cases k)
  case (CreateCampaign p)
  with create_steps [OF assms(1, 2)] show ?thesis by blast
next
  case (CreateCampaignWithToken p tok)
  with create_steps [OF assms(1, 2)] show ?thesis by blast
qed (use assms(1, 3) in \<open>auto intro: cancel_steps update_campaign_step update_campaign_description_step
  extend_campaign_deadline_step initiate_campaign_transfer_step
  cancel_campaign_transfer_step\<close>)

lemma fund_call_steps:
  assumes "run_fund_call e k s = Inr s'"
  shows "core_steps (e_timestamp e) (core s) (core s')"
  using assms
  by (cases k)
     (auto intro: contribute_step claim_refund_step batch_contribute_steps withdraw_funds_step
        claim_milestone_steps
      dest!: withdraw_reserve_core set_milestones_core verify_milestone_core deposit_revenue_core
        claim_revenue_core claim_creator_revenue_core personal_cap_core)

lemma review_call_steps:
  assumes "run_review_call e k s = Inr s'"
  shows "core_steps now (core s) (core s')"
proof (cases k)
  case (VerifyCampaigns cids)
  with assms show ?thesis
    by (auto simp: verify_campaigns_def Let_def res_simps core_frame dest!: verify_each_steps)
next
  case (ListActiveCampaigns start limit)
  with assms show ?thesis
    by (auto simp: list_active_campaigns_def Let_def res_simps dest!: scan_active_core split: if_splits)
qed (use assms in \<open>auto simp: vote_on_campaign_def verify_campaign_def verify_campaign_with_votes_def
  censure_comment_entry_def uncensure_comment_entry_def res_simps intro: verify_step
  dest!: cast_vote_core admin_token_core(8) bookmarks_core comments_core\<close>)

lemma config_call_steps:
  assumes "run_config_call e k s = Inr s'" "is_initialized s"
  shows "core_steps now (core s) (core s')"
  using assms
  by (cases k)
     (auto simp: init_initialized intro: set_campaign_fee_override_step
      dest!: set_vesting_params_core admin_switches_core(6, 7) admin_config_core)

lemma admin_call_core:
  assumes "run_admin_call e k s = Inr s'"
  shows "core s' = core s"
  using assms
  by (cases k)
     (auto simp: update_admin_def res_simps dest!: admin_switches_core(1-5) admin_config_core(11)
       admin_token_core(1-7))

text \<open>An acceptance hands the campaign over; any other call is a sequence of moves.\<close>

abbreviation accepts :: "call \<Rightarrow> u32 \<Rightarrow> bool" where
  "accepts k cid \<equiv> k = CampaignCall (AcceptCampaignTransfer cid)"

lemma dispatch_hands_over: "dispatch e k s = Inr s' \<Longrightarrow> accepts k cid \<Longrightarrow> hand_over cid (core s) (core s')"
  by (simp add: accept_campaign_transfer_hand_over)

lemma dispatch_refines:
  assumes "dispatch e k s = Inr s'" "config_ok (config s)" "\<And>cid. \<not> accepts k cid"
  shows "core_steps (e_timestamp e) (core s) (core s')"
proof (cases k)
  case (CampaignCall c)
  with assms show ?thesis by (intro r_into_rtranclp campaign_call_steps) simp_all
next
  case (FundCall c)
  with assms fund_call_steps show ?thesis by simp
next
  case (ReviewCall c)
  with assms review_call_steps show ?thesis by simp
next
  case (ConfigCall c)
  with assms(1) show ?thesis by (intro config_call_steps [OF _ config_okD(1) [OF assms(2)]]) simp
next
  case (AdminCall c)
  with assms(1) have "run_admin_call e c s = Inr s'" by simp
  then show ?thesis by (simp add: admin_call_core)
qed

lemma dispatch_core_inv:
  assumes "dispatch e k s = Inr s'" "config_ok (config s)" "core_inv (e_timestamp e) (core s)"
  shows "core_inv (e_timestamp e) (core s')"
  using dispatch_hands_over [OF assms(1)] dispatch_refines [OF assms(1, 2)] hand_over_inv core_steps_inv assms(3)
  by metis

lemma create_entry_config:
  "create_campaign_entry e p s = Inr (n, s') \<Longrightarrow> config s' = config s"
  "create_campaign_with_token_entry e p tok s = Inr (n, s') \<Longrightarrow> config s' = config s"
  by (auto simp: create_campaign_entry_def create_campaign_def create_campaign_with_token_entry_def
      create_campaign_with_token_def res_simps config_frame
      dest!: config_view.create_campaign_inner_obs)

lemma campaign_call_config:
  assumes "run_campaign_call e k s = Inr s'"
  shows "config s' = config s"
  using assms config_calls.campaign_call_obs [OF assms]
  by (cases k) (auto simp: res_simps dest!: create_entry_config)

lemma config_call_config_ok:
  assumes "run_config_call e k s = Inr s'" "config_ok (config s)"
  shows "config_ok (config s')"
  using assms config_okD(1) [OF assms(2)]
  by (cases k)
     (auto simp: init_initialized intro: vesting_config_ok switches_config_ok(6, 7) bounds_config_ok
       goals_config_ok(1, 2) dest: config_view.fee_override_obs)

lemma admin_call_config_ok:
  assumes "run_admin_call e k s = Inr s'" "config_ok (config s)"
  shows "config_ok (config s')"
  using assms
  by (cases k)
     (auto simp: update_admin_def res_simps intro: switches_config_ok(1-5) handovers_config_ok
       goals_config_ok(3))

lemma dispatch_config_ok:
  assumes "dispatch e k s = Inr s'" "config_ok (config s)"
  shows "config_ok (config s')"
proof (cases k)
  case (CampaignCall c)
  with assms campaign_call_config show ?thesis by (metis dispatch.simps(1))
next
  case (FundCall c)
  with assms config_calls.fund_call_obs show ?thesis by (metis dispatch.simps(2))
next
  case (ReviewCall c)
  with assms config_calls.review_call_obs show ?thesis by (metis dispatch.simps(3))
next
  case (ConfigCall c)
  with assms config_call_config_ok show ?thesis by (metis dispatch.simps(4))
next
  case (AdminCall c)
  with assms admin_call_config_ok show ?thesis by (metis dispatch.simps(5))
qed

section \<open>Moves of the lifecycle\<close>

definition tracks :: "(campaign_state \<Rightarrow> campaign_state \<Rightarrow> bool) \<Rightarrow> core \<Rightarrow> core \<Rightarrow> bool" where
  "tracks P k k' \<longleftrightarrow>
     (\<forall>cid c. k_camp k cid = Some c \<longrightarrow>
        (\<exists>c'. k_camp k' cid = Some c' \<and> P (campaign_state_of c) (campaign_state_of c')))"

definition lifecycle_moves :: "(campaign_state \<times> campaign_state) set" where
  "lifecycle_moves =
     {(Active, Verified), (Active, Cancelled), (Verified, Cancelled), (Verified, Withdrawn),
      (Verified, Active)}"

lemma tracks_refl: "(\<And>a. P a a) \<Longrightarrow> tracks P k k"
  by (auto simp: tracks_def)

lemma tracks_trans:
  "transp P \<Longrightarrow> tracks P k1 k2 \<Longrightarrow> tracks P k2 k3 \<Longrightarrow> tracks P k1 k3"
  unfolding tracks_def by (meson transpE)

lemma tracks_one:
  "k_camp k cid = Some c \<Longrightarrow> k_camp k' = (k_camp k)(cid \<mapsto> c') \<Longrightarrow> (\<And>a. P a a) \<Longrightarrow>
   P (campaign_state_of c) (campaign_state_of c') \<Longrightarrow> tracks P k k'"
  by (auto simp: tracks_def)

lemma core_step_tracks:
  assumes "core_step now k k'" "core_inv now k"
  shows "tracks (\<lambda>a b. a = b \<or> (a, b) \<in> lifecycle_moves) k k'"
  using assms(1)
proof cases
  case (created c)
  then show ?thesis using core_inv_next [OF assms(2)] by (auto simp: tracks_def k_create_def)
next
  case (contributed cid c who amt)
  then show ?thesis
    by (intro tracks_one [OF contributed(2)]) (auto simp: k_contribute_def campaign_state_of_def)
next
  case (refunded cid c who)
  then show ?thesis
    by (intro tracks_one [OF refunded(2)]) (auto simp: k_refund_def campaign_state_of_def)
next
  case (cancelled cid c)
  then show ?thesis
    by (intro tracks_one [OF cancelled(2)]) (auto simp: k_cancel_def campaign_state_of_def lifecycle_moves_def)
next
  case (verified cid c)
  have "flags_ok c" using core_invD [OF assms(2) verified(2)] by simp
  then show ?thesis using verified
    by (intro tracks_one [OF verified(2)])
       (auto simp: k_verify_def campaign_state_of_def lifecycle_moves_def flags_ok_def)
next
  case (revoked cid c d)
  have "flags_ok c" using core_invD [OF assms(2) revoked(2)] by simp
  then show ?thesis using revoked
    by (intro tracks_one [OF revoked(2)])
       (auto simp: k_revoke_def campaign_state_of_def lifecycle_moves_def flags_ok_def)
next
  case (withdrawn cid c)
  then show ?thesis
    by (intro tracks_one [OF withdrawn(2)]) (auto simp: k_withdraw_def campaign_state_of_def lifecycle_moves_def)
next
  case (edit cid c c')
  then have "campaign_state_of c' = campaign_state_of c"
    by (simp add: edited_def campaign_state_of_def)
  then show ?thesis by (intro tracks_one [OF edit(2)]) (auto simp: edit(1) put_def)
qed

lemma batch_contribute_items_tracks:
  "batch_contribute_items e who items owed tot s = Inr (owed', tot', s') \<Longrightarrow>
   tracks (=) (core s) (core s')"
proof (induction items arbitrary: owed tot s)
  case (Cons it its)
  from Cons.prems obtain s1 owed1 tot1 where
    first: "apply_contribution e (fst it) who (snd it) s = Inr s1"
    and rest: "batch_contribute_items e who its owed1 tot1
      (publish [Sym ''contribution_made'', U32 (fst it), Addr who] [I128 (snd it)] s1)
      = Inr (owed', tot', s')"
    by (simp only: batch_contribute_items.simps res_simps, blast)
  from first have "tracks (=) (core s) (core s1)"
    by (rule apply_contribution_core)
       (auto simp: core_fields k_contribute_def campaign_state_of_def intro!: tracks_one)
  moreover have "tracks (=) (core s1) (core s')" using Cons.IH [OF rest] by (simp add: core_frame)
  ultimately show ?case by (rule tracks_trans [rotated]) (simp add: transp_def)
qed (simp add: tracks_refl)

lemma verify_each_tracks:
  "verify_each cids vs fs s = Inr (vs', fs', s') \<Longrightarrow>
   tracks (\<lambda>a b. a = b \<or> a = Active \<and> b = Verified) (core s) (core s')"
proof (induction cids arbitrary: vs fs s)
  case (Cons cid cids)
  have tr: "transp (\<lambda>a b. a = b \<or> a = Active \<and> b = Verified)" by (auto simp: transp_def)
  show ?case
  proof (cases "admin_verify cid s")
    case (Inl f)
    with Cons show ?thesis by (cases f) auto
  next
    case (Inr s1)
    then obtain c s2 where c: "get_campaign s cid = Some c" "mark_verified cid c s = Inr s2"
      and "s1 = publish [Sym ''campaign_verified'', U32 cid] [] s2"
      by (simp only: admin_verify_def res_simps, blast)
    then have c3: "core s1 = core s2" by (simp add: core_frame)
    note ok = mark_verified_ok [OF c(2)]
    have "campaign_state_of (c\<lparr>c_is_verified := True\<rparr>) = Verified"
      using campaign_state_of_Active [OF ok(2)] by (simp add: campaign_state_of_def)
    with c(1) c3 ok have "tracks (\<lambda>a b. a = b \<or> a = Active \<and> b = Verified) (core s) (core s1)"
      by (intro tracks_one [of _ cid c _ "c\<lparr>c_is_verified := True\<rparr>"])
         (simp_all add: core_fields k_verify_def)
    moreover have "tracks (\<lambda>a b. a = b \<or> a = Active \<and> b = Verified) (core s1) (core s')"
      using Cons Inr by simp
    ultimately show ?thesis by (rule tracks_trans [OF tr])
  qed
qed (simp add: tracks_refl)


lemma dispatch_one_step:
  assumes "dispatch e k s = Inr s'" "config_ok (config s)"
    and "\<And>a items. k \<noteq> FundCall (BatchContribute a items)"
    and "\<And>cids. k \<noteq> ReviewCall (VerifyCampaigns cids)" "\<And>cid. \<not> accepts k cid"
  shows "core s' = core s \<or> core_step (e_timestamp e) (core s) (core s')"
proof (cases k)
  case (CampaignCall c)
  with assms(1, 2, 5) show ?thesis by (simp add: campaign_call_steps)
next
  case (FundCall c)
  with assms(1, 3) show ?thesis
  proof (cases c)
    case (ClaimMilestone cid mid)
    with FundCall assms(1) have "claim_milestone e cid mid s = Inr s'" by simp
    then show ?thesis
      by (rule claim_milestone_core, elim disjE)
         (simp, rule disjI2, simp, rule core_step.withdrawn, simp_all add: core_fields)
  qed (auto intro: contribute_step claim_refund_step withdraw_funds_step
      dest!: withdraw_reserve_core set_milestones_core verify_milestone_core deposit_revenue_core
        claim_revenue_core claim_creator_revenue_core personal_cap_core)
next
  case (ReviewCall c)
  with assms(1, 4) show ?thesis
  proof (cases c)
    case (ListActiveCampaigns start limit)
    with ReviewCall assms(1) show ?thesis
      by (auto simp: list_active_campaigns_def Let_def res_simps dest!: scan_active_core split: if_splits)
  qed (auto simp: vote_on_campaign_def verify_campaign_def verify_campaign_with_votes_def
      censure_comment_entry_def uncensure_comment_entry_def res_simps intro: verify_step
      dest!: cast_vote_core admin_token_core(8) bookmarks_core comments_core)
next
  case (ConfigCall c)
  with assms(1) config_okD(1) [OF assms(2)] show ?thesis
    by (cases c)
     (auto simp: init_initialized intro: set_campaign_fee_override_step
      dest!: set_vesting_params_core admin_switches_core(6, 7) admin_config_core)
next
  case (AdminCall c)
  with assms(1) have "run_admin_call e c s = Inr s'" by simp
  then show ?thesis by (simp add: admin_call_core)
qed

lemma dispatch_tracks:
  assumes "dispatch e k s = Inr s'" "config_ok (config s)" "core_inv (e_timestamp e) (core s)"
  shows "tracks (\<lambda>a b. a = b \<or> (a, b) \<in> lifecycle_moves) (core s) (core s')"
proof -
  consider a items where "k = FundCall (BatchContribute a items)"
    | cids where "k = ReviewCall (VerifyCampaigns cids)"
    | cid where "accepts k cid"
    | "\<And>a items. k \<noteq> FundCall (BatchContribute a items)"
      "\<And>cids. k \<noteq> ReviewCall (VerifyCampaigns cids)" "\<And>cid. \<not> accepts k cid"
    by blast
  then show ?thesis
  proof cases
    case 1
    with assms(1) have "tracks (=) (core s) (core s')"
      by (auto simp: batch_contribute_def res_simps core_frame
          dest!: batch_contribute_items_tracks transfer_owed_core)
    then show ?thesis by (auto simp: tracks_def)
  next
    case 2
    with assms(1) have "tracks (\<lambda>a b. a = b \<or> a = Active \<and> b = Verified) (core s) (core s')"
      by (auto simp: verify_campaigns_def Let_def res_simps core_frame dest!: verify_each_tracks)
    then show ?thesis by (fastforce simp: tracks_def lifecycle_moves_def)
  next
    case 3
    from dispatch_hands_over [OF assms(1) this] show ?thesis
      by cases (auto intro!: tracks_one simp: put_def campaign_state_of_def)
  next
    case 4
    with dispatch_one_step [OF assms(1, 2)] show ?thesis
      using core_step_tracks [OF _ assms(3)] by (metis (mono_tags, lifting) tracks_refl)
  qed
qed

section \<open>Reachable states\<close>

text \<open>
  An invariant of the contract: established by \<open>init\<close> on a fresh contract, kept by
  every successful call made while the configuration is in bounds, insensitive to
  the token contracts, and stable as time passes.
\<close>

locale contract_invariant =
  fixes inv :: "u64 \<Rightarrow> 'w state \<Rightarrow> bool"
  assumes inv_init: "init (e :: 'w env) a tok fee (empty_state wd) = Inr s \<Longrightarrow> inv (e_timestamp e) s"
    and inv_call: "dispatch (e :: 'w env) k s = Inr s' \<Longrightarrow> config_ok (config s) \<Longrightarrow>
      core_inv (e_timestamp e) (core s) \<Longrightarrow> inv (e_timestamp e) s \<Longrightarrow> inv (e_timestamp e) s'"
    and inv_world: "inv now s \<Longrightarrow> inv now (s\<lparr>st_world := wd\<rparr>)"
    and inv_later: "inv now s \<Longrightarrow> now \<le> now' \<Longrightarrow> inv now' s"
begin

lemma reachable_all:
  assumes "reachable h now s"
  shows "config_ok (config s) \<and> core_inv now (core s) \<and> inv now s"
  using assms
proof induction
  case (deployed e admin tok fee wd s)
  have "core s = (core (empty_state wd))\<lparr>k_count := 0\<rparr>" using init_ok(3) [OF deployed(1)] .
  then have "core_inv (e_timestamp e) (core s)"
    by (simp add: core_def core_inv_def tally_def empty_state_def store_defs)
  then show ?case using init_config_ok [OF deployed(1)] inv_init [OF deployed(1)] by simp
next
  case (called now s e k)
  then have core: "core_inv (e_timestamp e) (core s)" and inv: "inv (e_timestamp e) s"
    using core_inv_later inv_later by blast+
  show ?case
  proof (cases "dispatch e k s")
    case (Inl f)
    then show ?thesis using called core inv by (simp add: invoke_def)
  next
    case (Inr s')
    then show ?thesis
      using called core inv dispatch_config_ok [OF Inr] inv_call [OF Inr]
        dispatch_core_inv [OF Inr] by (simp add: invoke_def)
  qed
next
  case (tokens_moved now s wd)
  then show ?case using inv_world by (simp add: core_frame config_frame)
qed

end

interpretation escrow_invariant: contract_invariant "\<lambda>now s. True"
  by unfold_locales simp_all

lemma reachable_core: "reachable h now s \<Longrightarrow> core_inv now (core s)"
  using escrow_invariant.reachable_all by blast

lemma reachable_config: "reachable h now s \<Longrightarrow> config_ok (config s)"
  using escrow_invariant.reachable_all by blast

lemma books_of_reachable:
  assumes "reachable h now s" "get_campaign s cid = Some c"
  shows "books_ok now c (get_contribution s cid) (get_lifetime_contribution s cid) (get_contributor_count s cid)"
    "flags_ok c" "terms_ok (get_campaign_start_time s cid) c" "c_id c = cid" "1 \<le> cid"
    "cid \<le> get_campaign_count s"
  using core_invD [OF reachable_core [OF assms(1)], of cid c] assms(2) by (simp_all add: core_fields)

end
