(* ===== verification/Access.thy ===== *)
theory Access
  imports Config
begin

text \<open>
  Who may do what, over all entry points: what the pause switch stops, and which
  calls succeed without a signature.
\<close>

section \<open>What the pause stops\<close>

lemma pause_blocks_funds:
  assumes "is_paused s"
  shows "contribute e cid a x s \<noteq> Inr s'" "claim_refund e cid a s \<noteq> Inr s'"
    "batch_contribute e a items s \<noteq> Inr s'" "withdraw_funds e cid s \<noteq> Inr s'"
    "withdraw_reserve e cid s \<noteq> Inr s'" "set_milestones e cid ms s \<noteq> Inr s'"
    "verify_milestone e a cid mid s \<noteq> Inr s'" "claim_milestone e cid mid s \<noteq> Inr s'"
    "deposit_revenue e cid x s \<noteq> Inr s'" "claim_revenue e cid a s \<noteq> Inr s'"
    "claim_creator_revenue e cid s \<noteq> Inr s'"
  using assms
  by (auto simp: is_paused_def contribute_def claim_refund_def batch_contribute_def withdraw_funds_def
      withdraw_reserve_def set_milestones_def verify_milestone_def claim_milestone_def
      deposit_revenue_def claim_revenue_def claim_creator_revenue_def Let_def res_simps
      simp del: not_None_eq)

lemma pause_blocks_campaigns:
  assumes "is_paused s"
  shows "run_campaign_call e k s \<noteq> Inr s'"
  using assms
  by (cases k)
     (auto simp: is_paused_def create_campaign_entry_def create_campaign_with_token_entry_def
       create_campaign_def create_campaign_with_token_def create_campaign_inner_def
       validate_campaign_def cancel_campaign_def admin_cancel_campaign_def update_campaign_def
       update_campaign_description_def extend_campaign_deadline_def initiate_campaign_transfer_def
       accept_campaign_transfer_def cancel_campaign_transfer_def res_simps)

text \<open>The setters that change no money: worlds, contributions and pools stay.\<close>

definition money :: "'w state \<Rightarrow> 'w \<times> (u32 \<Rightarrow> address \<Rightarrow> i128) \<times> (u32 \<Rightarrow> i128) \<times> i128" where
  "money s = (st_world s, get_contribution s, get_revenue_pool s, get_total_raised_global s)"

lemma money_caps:
  "set_personal_cap_fn e cid a x s = Inr s' \<Longrightarrow> money s' = money s"
  "remove_personal_cap_fn e cid a s = Inr s' \<Longrightarrow> money s' = money s"
  by (auto simp: set_personal_cap_fn_def remove_personal_cap_fn_def Let_def res_simps store_defs
      money_def fun_eq_iff)

lemma fold_money: "(\<And>x t. money (f x t) = money t) \<Longrightarrow> money (fold f xs s) = money s"
  by (induction xs arbitrary: s) simp_all

lemma money_frame:
  "money (publish tp v s) = money s" "money (set_saved_campaigns a xs s) = money s"
  "money (remove_has_voted cid a s) = money s" "money (remove_voting_state cid s) = money s"
  by (simp_all add: money_def store_defs fun_eq_iff)

lemma money_bookmarks:
  "save_campaign e a cid s = Inr s' \<Longrightarrow> money s' = money s"
  "batch_save_campaigns e a cids s = Inr s' \<Longrightarrow> money s' = money s"
  "remove_saved_campaign e a cid s = Inr s' \<Longrightarrow> money s' = money s"
  "clear_saved_campaigns e a s = Inr s' \<Longrightarrow> money s' = money s"
  by (auto simp: save_campaign_def batch_save_campaigns_def remove_saved_campaign_def
      clear_saved_campaigns_def Let_def res_simps money_frame fold_money)

lemma money_purge: "purge_voting_state e cid voters fin s = Inr s' \<Longrightarrow> money s' = money s"
  by (auto simp: purge_voting_state_def Let_def res_simps money_frame fold_money split: if_splits)

lemma scan_active_money:
  "scan_active s start tot cap cur n acc = Inr (cs, nxt, s') \<Longrightarrow> money s' = money s"
proof (induction s start tot cap cur n acc rule: scan_active.induct)
  case (1 s start tot cap cur n acc)
  show ?case
    using 1(4) by (subst (asm) scan_active.simps)
      (auto simp: res_simps money_frame split: if_splits option.splits dest: 1(1-3))
qed

interpretation money_view: config_observer money
  by unfold_locales (simp_all add: money_def store_defs fun_eq_iff)

lemma paused_money:
  assumes "is_paused s" "is_initialized s" "dispatch e k s = Inr s'"
  shows "money s' = money s"
proof (cases k)
  case (CampaignCall c)
  with assms(3) pause_blocks_campaigns [OF assms(1), of e c s'] show ?thesis by simp
next
  case (FundCall c)
  with assms(3) show ?thesis
    by (cases c) (simp_all add: pause_blocks_funds [OF assms(1)] money_caps)
next
  case (ReviewCall c)
  with assms(3) show ?thesis
  proof (cases c)
    case (ListActiveCampaigns start limit)
    with ReviewCall assms(3) show ?thesis
      by (auto simp: list_active_campaigns_def Let_def res_simps dest!: scan_active_money split: if_splits)
  qed (use assms(1) in \<open>auto simp: is_paused_def vote_on_campaign_def verify_campaign_def verify_campaigns_def
      verify_campaign_with_votes_def censure_comment_entry_def uncensure_comment_entry_def
      censure_comment_def uncensure_comment_def res_simps dest!: money_bookmarks money_purge\<close>)
next
  case (ConfigCall c)
  with assms show ?thesis by (simp add: money_view.config_call_obs)
next
  case (AdminCall c)
  with assms show ?thesis by (simp add: money_view.admin_call_obs)
qed

section \<open>Signatures\<close>

definition nobody :: "('w, 'm) env_scheme \<Rightarrow> bool" where
  "nobody e \<longleftrightarrow> (\<forall>a. \<not> e_auth e a)"

lemma nobody_campaigns: "nobody e \<Longrightarrow> run_campaign_call e k s \<noteq> Inr s'"
  by (cases k)
     (auto simp: nobody_def create_campaign_entry_def create_campaign_with_token_entry_def
       create_campaign_def create_campaign_with_token_def create_campaign_inner_def
       validate_campaign_def cancel_campaign_def admin_cancel_campaign_def update_campaign_def
       update_campaign_description_def extend_campaign_deadline_def initiate_campaign_transfer_def
       accept_campaign_transfer_def cancel_campaign_transfer_def res_simps)

lemma nobody_funds: "nobody e \<Longrightarrow> run_fund_call e k s \<noteq> Inr s'"
  by (cases k)
     (auto simp: nobody_def contribute_def claim_refund_def batch_contribute_def withdraw_funds_def
      withdraw_reserve_def set_milestones_def verify_milestone_def claim_milestone_def
      deposit_revenue_def claim_revenue_def claim_creator_revenue_def set_personal_cap_fn_def
      remove_personal_cap_fn_def Let_def res_simps)

lemma nobody_reviews:
  "nobody e \<Longrightarrow> run_review_call e k s = Inr s' \<Longrightarrow>
   (\<exists>cid. k = VerifyCampaignWithVotes cid) \<or> (\<exists>start limit. k = ListActiveCampaigns start limit)"
  by (cases k)
     (auto simp: nobody_def vote_on_campaign_def cast_vote_def verify_campaign_def verify_campaigns_def
      censure_comment_entry_def uncensure_comment_entry_def censure_comment_def uncensure_comment_def
      purge_voting_state_def save_campaign_def batch_save_campaigns_def remove_saved_campaign_def
      clear_saved_campaigns_def Let_def res_simps)

text \<open>The configuration calls, once the contract is initialised, need the stored admin.\<close>

lemma config_call_admin:
  "run_config_call e k s = Inr s' \<Longrightarrow> is_initialized s \<Longrightarrow> \<exists>a. get_admin s = Some a \<and> e_auth e a"
  by (cases k)
     (auto simp: init_initialized set_vesting_params_def set_token_allowed_fn_def
       set_creation_disabled_fn_def update_platform_fee_def set_max_contribution_per_transaction_def
       set_campaign_fee_override_def set_category_duration_cap_fn_def
       remove_category_duration_cap_fn_def set_min_campaign_funding_goal_fn_def
       set_max_campaign_funding_goal_fn_def set_voting_params_def
       set_min_voting_balance_fn_def set_category_voting_threshold_def
       remove_category_voting_threshold_def Let_def res_simps)

lemma admin_call_auth:
  "run_admin_call e k s = Inr s' \<Longrightarrow>
   (\<exists>a. e_auth e a \<and> (get_admin s = Some a \<or>
      k = EmergencyPause a \<and> a \<in> set (get_emergency_pause_signers s) \<or>
      k = AcceptAdminTransfer \<and> get_pending_admin s = Some a \<or>
      (\<exists>cid. k = ResumeCampaign cid a)))"
  by (cases k)
     (auto simp: pause_def unpause_def emergency_pause_def set_emergency_pause_signers_fn_def
       resume_campaign_def propose_token_update_def accept_token_update_def cancel_token_update_def
       set_token_update_delay_secs_fn_def initiate_admin_transfer_def accept_admin_transfer_def
       cancel_admin_transfer_def update_admin_def migrate_def Let_def res_simps)

lemma unsigned_calls_only:
  assumes "nobody e" "is_initialized s" "dispatch e k s = Inr s'"
  shows "(\<exists>cid. k = ReviewCall (VerifyCampaignWithVotes cid)) \<or>
         (\<exists>start limit. k = ReviewCall (ListActiveCampaigns start limit))"
proof (cases k)
  case (CampaignCall c)
  with assms show ?thesis by (simp add: nobody_campaigns)
next
  case (FundCall c)
  with assms show ?thesis by (simp add: nobody_funds)
next
  case (ReviewCall c)
  with assms nobody_reviews [OF assms(1)] show ?thesis by simp
next
  case (ConfigCall c)
  with assms(3) have "run_config_call e c s = Inr s'" by simp
  from config_call_admin [OF this assms(2)] assms(1) show ?thesis by (auto simp: nobody_def)
next
  case (AdminCall c)
  with assms(3) have "run_admin_call e c s = Inr s'" by simp
  from admin_call_auth [OF this] assms(1) show ?thesis by (auto simp: nobody_def)
qed

end
