(* ===== verification/History.thy ===== *)
theory History
  imports Reachability Access Example
begin

text \<open>
  A short history of the contract on the host of \<^verbatim>\<open>Example\<close>, for the witnesses of the
  properties of reachable states: deployment, a campaign, its verification, two
  contributions, its withdrawal; and the branch where it is cancelled instead.
\<close>

definition demo_params :: create_campaign_params where
  "demo_params =
    \<lparr>p_creator = Address 2, p_title = ''T'', p_description = ''D'', p_funding_goal = 100000,
     p_duration_days = 10, p_category = Learner, p_has_revenue_sharing = False,
     p_revenue_share_percentage = 0, p_max_contribution_per_user = 70000\<rparr>"

definition h_deployed :: "balances state" where
  "h_deployed = projr (init (demo_env 1000) (Address 0) (Address 1) 300 (empty_state demo_balances))"

definition h_created :: "balances state" where
  "h_created = invoke (demo_env 2000) (CampaignCall (CreateCampaign demo_params)) h_deployed"

definition h_verified :: "balances state" where
  "h_verified = invoke (demo_env 3000) (ReviewCall (VerifyCampaign 1)) h_created"

definition h_backed :: "balances state" where
  "h_backed = invoke (demo_env 4000) (FundCall (Contribute 1 (Address 3) 60000)) h_verified"

definition h_funded :: "balances state" where
  "h_funded = invoke (demo_env 5000) (FundCall (Contribute 1 (Address 4) 40001)) h_backed"

definition h_withdrawn :: "balances state" where
  "h_withdrawn = invoke (demo_env 6000) (FundCall (WithdrawFunds 1)) h_funded"

definition h_cancelled :: "balances state" where
  "h_cancelled = invoke (demo_env 6000) (CampaignCall (CancelCampaign 1)) h_backed"

lemmas history_defs =
  h_deployed_def h_created_def h_verified_def h_backed_def h_funded_def h_withdrawn_def h_cancelled_def

lemmas history_ops [eval_simps] =
  store_defs const_defs invoke_def commit_def demo_params_def init_def probe_token_def create_campaign_entry_def
  create_campaign_def create_campaign_inner_def validate_campaign_def pinned_token_def hash_text_def
  append_category_index_def append_creator_index_def new_campaign_def verify_campaign_def
  stored_admin_auth_def admin_verify_def mark_verified_def contribute_def apply_contribution_def
  check_transaction_contribution_cap_def check_contribution_caps_def check_personal_cap_def
  check_burst_guard_def update_contribution_accounting_def update_top_contributor_def
  withdraw_funds_def ceil_bps_def effective_platform_fee_def sub_or_trap_def vesting_params_def
  hold_reserve_def fee_recipient_or_admin_def cancel_campaign_def deduct_raised_def
  close_cancelled_def

section \<open>The history is reachable\<close>

lemma deployed_ok:
  "init (demo_env 1000) (Address 0) (Address 1) 300 (empty_state demo_balances) = Inr h_deployed"
  by (simp add: h_deployed_def eval_simps)

lemma reachable_deployed: "reachable demo_host 1000 h_deployed"
  using reachable.deployed [OF deployed_ok] by simp

lemma reachable_invoke:
  assumes "reachable demo_host now s" "now \<le> t"
  shows "reachable demo_host t (invoke (demo_env t) k s)"
  using reachable.called [OF assms(1), of "demo_env t" k] assms(2) by simp

lemma reachable_history:
  "reachable demo_host 2000 h_created" "reachable demo_host 3000 h_verified"
  "reachable demo_host 4000 h_backed" "reachable demo_host 5000 h_funded"
  "reachable demo_host 6000 h_withdrawn" "reachable demo_host 6000 h_cancelled"
proof -
  show created: "reachable demo_host 2000 h_created"
    unfolding h_created_def by (rule reachable_invoke [OF reachable_deployed]) simp
  show verified: "reachable demo_host 3000 h_verified"
    unfolding h_verified_def by (rule reachable_invoke [OF created]) simp
  show backed: "reachable demo_host 4000 h_backed"
    unfolding h_backed_def by (rule reachable_invoke [OF verified]) simp
  show funded: "reachable demo_host 5000 h_funded"
    unfolding h_funded_def by (rule reachable_invoke [OF backed]) simp
  show "reachable demo_host 6000 h_withdrawn"
    unfolding h_withdrawn_def by (rule reachable_invoke [OF funded]) simp
  show "reachable demo_host 6000 h_cancelled"
    unfolding h_cancelled_def by (rule reachable_invoke [OF backed]) simp
qed

section \<open>What it computes\<close>

definition h_campaign :: campaign where
  "h_campaign = demo_campaign
    \<lparr>c_category := Learner, c_has_revenue_sharing := False, c_revenue_share_percentage := 0,
     c_max_contribution_per_user := 70000\<rparr>"

lemma funded_facts:
  "get_campaign h_funded 1 = Some h_campaign"
  "get_contribution h_funded 1 (Address 3) = 60000"
  "get_contribution h_funded 1 (Address 4) = 40001"
  "get_campaign_count h_funded = 1"
  by (simp_all add: history_defs h_campaign_def eval_simps)

lemma withdrawn_facts:
  "get_campaign h_withdrawn 1 = Some (h_campaign\<lparr>c_funds_withdrawn := True, c_is_active := False\<rparr>)"
  by (simp add: history_defs h_campaign_def eval_simps)

lemma dispatch_eq_invoke: "is_ok (dispatch e k s) \<Longrightarrow> dispatch e k s = Inr (invoke e k s)"
  by (cases "dispatch e k s") (simp_all add: invoke_def)

lemma withdraw_accepted: "is_ok (withdraw_funds (demo_env 6000) 1 h_funded)"
  by (simp only: withdraw_funds_def) (simp add: history_defs eval_simps)

lemma withdrawn_call: "dispatch (demo_env 6000) (FundCall (WithdrawFunds 1)) h_funded = Inr h_withdrawn"
  unfolding h_withdrawn_def
  by (rule dispatch_eq_invoke) (simp only: dispatch.simps run_fund_call.simps withdraw_accepted)

lemma cancelled_facts:
  "get_campaign h_cancelled 1 = Some (h_campaign\<lparr>c_is_cancelled := True, c_is_active := False,
     c_amount_raised := 60000, c_effective_amount_raised := 60000\<rparr>)"
  "get_contribution h_cancelled 1 (Address 3) = 60000"
  by (simp_all add: history_defs h_campaign_def eval_simps)

section \<open>The history, read\<close>

declare One_nat_def [simp del]

lemma verified_facts:
  "get_campaign h_verified 1 = Some (h_campaign\<lparr>c_amount_raised := 0, c_effective_amount_raised := 0\<rparr>)"
  "get_campaign_token h_verified 1 = Some (Address 1)" "st_world h_verified = demo_balances"
  "\<not> paused_flag h_verified" "get_max_contribution_per_transaction h_verified = 0"
  "get_lifetime_contribution h_verified 1 a = 0" "get_contribution h_verified 1 a = 0"
  "get_personal_cap h_verified 1 a = None" "get_contributor_count h_verified 1 = 0"
  "get_total_raised_global h_verified = 0"
  by (simp_all add: history_defs h_campaign_def eval_simps)

lemma cancelled_side:
  "get_campaign_token h_cancelled 1 = Some (Address 1)" "\<not> paused_flag h_cancelled"
  "st_world h_cancelled (Address 1, Address 99) = 60000"
  by (simp_all add: history_defs eval_simps)

end
