(* ===== verification/Buckets.thy ===== *)
theory Buckets
  imports Observers Example
begin

text \<open>
  The bucketed indexes of campaigns (by category, by creator, by tag) and the one routine of
  \<^verbatim>\<open>src/queries.rs\<close> that pages through them. An index is \<open>packed\<close> when every bucket before the
  last is full; then a page is a slice of the list of its entries. The locale \<open>bucket_index\<close> is
  what an index promises its readers; the three indexes interpret it.
\<close>

section \<open>Packed indexes\<close>

definition packed :: "nat \<Rightarrow> nat \<Rightarrow> (nat \<Rightarrow> 'a list) \<Rightarrow> bool" where
  "packed cap n bk \<longleftrightarrow> (\<forall>b. length (bk b) = min cap (n - b * cap))"

definition unpacked :: "nat \<Rightarrow> nat \<Rightarrow> (nat \<Rightarrow> 'a list) \<Rightarrow> 'a list" where
  "unpacked cap n bk = map (\<lambda>i. bk (i div cap) ! (i mod cap)) [0..<n]"

lemma length_unpacked [simp]: "length (unpacked cap n bk) = n"
  by (simp add: unpacked_def)

lemma nth_unpacked: "i < n \<Longrightarrow> unpacked cap n bk ! i = bk (i div cap) ! (i mod cap)"
  by (simp add: unpacked_def)

lemma packed_length: "packed cap n bk \<Longrightarrow> length (bk b) = min cap (n - b * cap)"
  by (simp add: packed_def)

text \<open>Where the next entry goes.\<close>

lemma packed_slot:
  assumes "packed cap n bk" "0 < cap"
  shows "length (bk (n div cap)) = n mod cap"
proof -
  have "n - n div cap * cap = n mod cap" by (simp add: minus_div_mult_eq_mod)
  then show ?thesis using assms mod_less_divisor [OF assms(2), of n] by (simp add: packed_def)
qed

lemma packed_append:
  assumes p: "packed cap n bk" "0 < cap"
    and bk': "bk' = bk(n div cap := bk (n div cap) @ [x])"
  shows "packed cap (n + 1) bk'" "unpacked cap (n + 1) bk' = unpacked cap n bk @ [x]"
proof -
  have slot: "length (bk (n div cap)) = n mod cap" by (rule packed_slot [OF p])
  have split: "n = n div cap * cap + n mod cap" by simp
  have small: "n mod cap < cap" using p(2) by simp
  show "packed cap (n + 1) bk'"
    unfolding packed_def
  proof
    fix b
    show "length (bk' b) = min cap (n + 1 - b * cap)"
    proof (cases "b = n div cap")
      case True
      have "n + 1 - n div cap * cap = n mod cap + 1" using split by linarith
      then show ?thesis using True slot small by (simp add: bk')
    next
      case False
      then have eq: "length (bk' b) = min cap (n - b * cap)" using p(1) by (simp add: bk' packed_def)
      show ?thesis
      proof (cases "b < n div cap")
        case True
        then have "(b + 1) * cap \<le> n div cap * cap" by (intro mult_le_mono1) simp
        then have "cap \<le> n - b * cap" using split by (simp only: distrib_right mult_1)
        then show ?thesis using eq by simp
      next
        case False
        then have "(n div cap + 1) * cap \<le> b * cap" using \<open>b \<noteq> n div cap\<close> by (intro mult_le_mono1) simp
        then have "n + 1 \<le> b * cap" using split small by (simp only: distrib_right)
        then show ?thesis using eq by simp
      qed
    qed
  qed
  have "bk' (i div cap) ! (i mod cap) = bk (i div cap) ! (i mod cap)" if "i < n" for i
  proof (cases "i div cap = n div cap")
    case True
    then have "i mod cap < n mod cap"
      using that split div_mult_mod_eq [of i cap] by (metis add_less_cancel_left)
    then show ?thesis using True slot by (simp add: bk' nth_append)
  qed (simp add: bk')
  moreover have "bk' (n div cap) ! (n mod cap) = x" by (simp add: bk' slot nth_append)
  ultimately show "unpacked cap (n + 1) bk' = unpacked cap n bk @ [x]"
    by (intro nth_equalityI) (auto simp: nth_unpacked nth_append less_Suc_eq)
qed

section \<open>Paging\<close>

lemma walk_bucket_eq:
  "walk_bucket s bucket idx pos fin acc =
    (let k = min (length bucket - idx) (fin - pos) in
     (acc @ List.map_filter (get_campaign s) (take k (drop idx bucket)), idx + k, pos + k))"
proof (induction s bucket idx pos fin acc rule: walk_bucket.induct)
  case (1 s bucket idx pos fin acc)
  show ?case
  proof (cases "idx < length bucket \<and> pos < fin")
    case True
    define k where "k = min (length bucket - (idx + 1)) (fin - (pos + 1))"
    have k: "min (length bucket - idx) (fin - pos) = Suc k" using True unfolding k_def by linarith
    have "take (Suc k) (drop idx bucket) = bucket ! idx # take k (drop (idx + 1) bucket)"
      using True by (simp add: Cons_nth_drop_Suc [symmetric])
    then show ?thesis
      using 1 [OF True, folded k_def] True
      by (subst walk_bucket.simps) (simp add: k Let_def List.map_filter_simps split: option.split)
  qed (auto simp: walk_bucket.simps Let_def List.map_filter_simps)
qed

lemma bucket_loop_page:
  assumes p: "packed cap n bk" "0 < cap" and fin: "fin \<le> n" "n \<le> u32_max"
  shows "bucket_loop s bk cap fin pos acc =
    Some (Ok (acc @ List.map_filter (get_campaign s) (take (fin - pos) (drop pos (unpacked cap n bk)))))"
proof (induction "fin - pos" arbitrary: pos acc rule: less_induct)
  case less
  show ?case
  proof (cases "pos < fin")
    case False
    then show ?thesis by (simp add: bucket_loop.simps List.map_filter_simps)
  next
    case True
    define b where "b = pos div cap"
    define i where "i = pos mod cap"
    have pos: "pos = b * cap + i" "i < cap" using p(2) by (simp_all add: b_def i_def)
    have len: "length (bk b) = min cap (n - b * cap)" by (rule packed_length [OF p(1)])
    have i: "i < length (bk b)" using pos True fin(1) by (simp add: len)
    define k where "k = min (length (bk b) - i) (fin - pos)"
    have k: "0 < k" using i True by (simp add: k_def)
    have off: "pos - b * cap = i" using pos(1) by simp
    have slice: "take k (drop i (bk b)) = take k (drop pos (unpacked cap n bk))"
    proof (rule nth_equalityI)
      show "length (take k (drop i (bk b))) = length (take k (drop pos (unpacked cap n bk)))"
        using fin(1) by (simp add: k_def)
      fix j
      assume "j < length (take k (drop i (bk b)))"
      then have j: "j < k" "i + j < length (bk b)" unfolding length_take length_drop by linarith+
      have "i + j < cap" using j(2) len by simp
      then have "(pos + j) div cap = b" "(pos + j) mod cap = i + j" using pos by (simp_all add: add.assoc)
      moreover have "pos + j < n" using j(1) fin(1) unfolding k_def by linarith
      ultimately show "take k (drop i (bk b)) ! j = take k (drop pos (unpacked cap n bk)) ! j"
        using j by (simp add: nth_unpacked)
    qed
    have walk: "walk_bucket s (bk b) i pos fin acc =
        (acc @ List.map_filter (get_campaign s) (take k (drop pos (unpacked cap n bk))), i + k, pos + k)"
      by (simp add: walk_bucket_eq Let_def k_def [symmetric] slice)
    have next_pos: "b * cap + length (bk b) = pos + k" if "length (bk b) \<le> i + k"
      using that i pos(1) by (simp add: k_def)
    have "bucket_loop s bk cap fin pos acc = bucket_loop s bk cap fin (pos + k)
        (acc @ List.map_filter (get_campaign s) (take k (drop pos (unpacked cap n bk))))"
      using True i next_pos
      by (subst bucket_loop.simps) (auto simp: Let_def b_def [symmetric] off walk)
    also have "\<dots> = Some (Ok ((acc @ List.map_filter (get_campaign s) (take k (drop pos (unpacked cap n bk)))) @
        List.map_filter (get_campaign s) (take (fin - (pos + k)) (drop (pos + k) (unpacked cap n bk)))))"
      using True k by (intro less) simp
    moreover have "List.map_filter (get_campaign s) (take k (drop pos (unpacked cap n bk))) @
        List.map_filter (get_campaign s) (take (fin - (pos + k)) (drop (pos + k) (unpacked cap n bk))) =
        List.map_filter (get_campaign s) (take (fin - pos) (drop pos (unpacked cap n bk)))"
    proof -
      have "fin - pos = k + (fin - (pos + k))" using k_def by linarith
      then have "take (fin - pos) (drop pos (unpacked cap n bk)) =
          take k (drop pos (unpacked cap n bk)) @ take (fin - (pos + k)) (drop (pos + k) (unpacked cap n bk))"
        by (metis take_add drop_drop add.commute)
      then show ?thesis by (simp add: List.map_filter_def)
    qed
    ultimately show ?thesis by simp
  qed
qed

lemma page_of_packed:
  assumes "packed cap n bk" "0 < cap" "n \<le> u32_max"
  shows "get_campaigns_from_buckets s start limit n cap bk =
    Some (Ok (List.map_filter (get_campaign s) (take (min limit LIST_MAX_LIMIT) (drop start (unpacked cap n bk)))))"
proof (cases "n \<le> start \<or> min limit LIST_MAX_LIMIT = 0")
  case True
  then show ?thesis by (auto simp: get_campaigns_from_buckets_def Let_def List.map_filter_simps LIST_MAX_LIMIT_def)
next
  case False
  let ?m = "min limit LIST_MAX_LIMIT"
  let ?fin = "min (u32_saturating_add start ?m) n"
  have fin: "?fin = min (start + ?m) n" using assms(3) by (simp add: u32_saturating_add_def)
  have "take (?fin - start) (drop start (unpacked cap n bk)) = take ?m (drop start (unpacked cap n bk))"
    unfolding fin by (simp add: min_def take_all_iff)
  then show ?thesis
    using False bucket_loop_page [OF assms(1,2) _ assms(3), of ?fin s start "[]"]
    by (simp add: get_campaigns_from_buckets_def Let_def)
qed


text \<open>
  A bucket that ends early traps the pager: at its end the next position is the one it is at.
\<close>

lemma bucket_loop_stuck:
  "bucket_loop s bk cap fin pos acc = Some r \<Longrightarrow>
   length (bk b) = k \<Longrightarrow> 0 < k \<Longrightarrow> k < cap \<Longrightarrow> pos = b * cap + k \<Longrightarrow> fin \<le> pos"
proof (induction rule: bucket_loop.raw_induct [rotated, consumes 1])
  case (1 loop s bk cap fin pos acc r)
  show ?case
  proof (rule ccontr)
    assume "\<not> fin \<le> pos"
    moreover have "pos div cap = b" "pos - b * cap = k" using 1(4-6) by (simp_all add: \<open>pos = b * cap + k\<close>)
    ultimately have "loop s bk cap fin pos acc = Some r"
      using 1(2-6) by (simp add: walk_bucket.simps)
    with 1 \<open>\<not> fin \<le> pos\<close> show False by blast
  qed
qed

lemma bucket_loop_short:
  assumes short: "length (bk b) = k" "0 < k" "k < cap"
    and page: "b * cap \<le> start" "start \<le> b * cap + k" "b * cap + k < fin"
  shows "bucket_loop s bk cap fin start acc = None"
proof -
  have b: "start div cap = b" using page(1,2) short(3)
    by (metis add.commute div_nat_eqI le_neq_implies_less mult.commute mult_Suc nat_add_left_cancel_less order_le_less_trans)
  have stuck: "bucket_loop s bk cap fin (b * cap + k) acc' = None" for acc'
  proof (cases "bucket_loop s bk cap fin (b * cap + k) acc'")
    case (Some r)
    from bucket_loop_stuck [of s bk cap fin "b * cap + k" acc' r b k, OF Some short refl] page(3)
    show ?thesis by simp
  qed simp
  have m: "min (k - (start - b * cap)) (fin - start) = b * cap + k - start" using page by simp
  have "start < fin" "k \<le> start - b * cap + (b * cap + k - start)" using page by simp_all
  then show ?thesis
    using short(1,2) b
    by (subst bucket_loop.simps) (simp add: Let_def walk_bucket_eq m stuck)
qed

lemma page_stuck:
  assumes short: "length (bk b) = k" "0 < k" "k < cap"
    and page: "b * cap \<le> start" "start \<le> b * cap + k" "b * cap + k < n"
      "b * cap + k < start + min limit LIST_MAX_LIMIT" "n \<le> u32_max"
  shows "get_campaigns_from_buckets s start limit n cap bk = None"
proof -
  let ?fin = "min (u32_saturating_add start (min limit LIST_MAX_LIMIT)) n"
  have "b * cap + k < ?fin" using page(3-5) by (simp add: u32_saturating_add_def)
  from bucket_loop_short [of bk, OF short page(1,2) this]
  have "bucket_loop s bk cap ?fin start [] = None" .
  moreover have "\<not> (n \<le> start \<or> min limit LIST_MAX_LIMIT = 0)" using page by auto
  ultimately show ?thesis by (simp add: get_campaigns_from_buckets_def Let_def)
qed


section \<open>The interface of an index\<close>

locale bucket_index =
  fixes count :: "'w state \<Rightarrow> u32" and bucket :: "'w state \<Rightarrow> u32 \<Rightarrow> u32 list" and cap :: u32
    and push :: "u32 \<Rightarrow> 'w state \<Rightarrow> (error, 'w state) res"
  assumes cap: "0 < cap"
    and push_count: "push x s = Inr s' \<Longrightarrow> count s' = count s + 1"
    and push_bucket: "push x s = Inr s' \<Longrightarrow>
      bucket s' = (bucket s)(count s div cap := bucket s (count s div cap) @ [x])"
begin

abbreviation entries :: "'w state \<Rightarrow> u32 list" where
  "entries s \<equiv> unpacked cap (count s) (bucket s)"

abbreviation well_packed :: "'w state \<Rightarrow> bool" where
  "well_packed s \<equiv> packed cap (count s) (bucket s)"

lemma push_packed: "push x s = Inr s' \<Longrightarrow> well_packed s \<Longrightarrow> well_packed s'"
  using packed_append(1) [OF _ cap push_bucket] by (simp add: push_count)

lemma push_entries: "push x s = Inr s' \<Longrightarrow> well_packed s \<Longrightarrow> entries s' = entries s @ [x]"
  using packed_append(2) [OF _ cap push_bucket] by (simp add: push_count)

lemma page:
  "well_packed s \<Longrightarrow> count s \<le> u32_max \<Longrightarrow>
   get_campaigns_from_buckets s start limit (count s) cap (bucket s) =
     Some (Ok (List.map_filter (get_campaign s) (take (min limit LIST_MAX_LIMIT) (drop start (entries s)))))"
  by (rule page_of_packed [OF _ cap])

lemma empty_packed: "count s = 0 \<Longrightarrow> (\<And>b. bucket s b = []) \<Longrightarrow> well_packed s \<and> entries s = []"
  by (simp add: packed_def unpacked_def)

end

lemma add_to_creator_index_eq: "add_to_creator_index a cid s = append_creator_index a cid s"
  by (simp add: append_creator_index_def add_to_creator_index_def Let_def)

interpretation category_index: bucket_index
  "\<lambda>s. get_category_campaign_count s cat" "\<lambda>s. get_category_campaign_bucket s cat"
  CATEGORY_CAMPAIGNS_BUCKET_SIZE "append_category_index cat" for cat
  by unfold_locales (auto simp: append_category_index_ok store_defs const_defs fun_eq_iff)

interpretation creator_index: bucket_index
  "\<lambda>s. get_creator_campaign_count s a" "\<lambda>s. get_creator_campaign_bucket s a"
  CREATOR_CAMPAIGNS_BUCKET_SIZE "append_creator_index a" for a
  by unfold_locales (auto simp: append_creator_index_ok store_defs const_defs fun_eq_iff)

interpretation tag_index: bucket_index
  "\<lambda>s. get_tag_campaign_count s h" "\<lambda>s. get_tag_campaigns_bucket s h"
  TAG_CAMPAIGNS_BUCKET_SIZE "append_campaign_to_tag h" for h
  by unfold_locales (auto simp: append_campaign_to_tag_def Let_def res_simps store_defs const_defs fun_eq_iff)

section \<open>A transfer breaks the old creator's listing\<close>

lemma remove_from_creator_index_frame:
  assumes "remove_from_creator_index a cid s = Inr s'" "get_creator_campaign_position s a cid = Some (b, i)"
  shows "get_creator_campaign_count s' a = get_creator_campaign_count s a - 1"
    "length (get_creator_campaign_bucket s' a b) = length (get_creator_campaign_bucket s a b) - 1"
  using assms
  by (auto simp: remove_from_creator_index_def get_creator_campaign_position_or_legacy_scan_def Let_def
      res_simps store_defs)

lemma creator_index_other:
  assumes "append_creator_index a' cid s = Inr s'" "a' \<noteq> a"
  shows "get_creator_campaign_count s' a = get_creator_campaign_count s a"
    "get_creator_campaign_bucket s' a = get_creator_campaign_bucket s a"
  using assms by (auto simp: append_creator_index_ok store_defs fun_eq_iff)

lemma accept_campaign_transfer_index:
  assumes "accept_campaign_transfer e cid s = Inr s'" "get_campaign s cid = Some c"
  obtains s1 s2 a where "c_pending_creator c = Pending a" "e_auth e a" "a \<noteq> c_creator c"
    "c_is_active c" "\<not> c_is_cancelled c"
    "remove_from_creator_index (c_creator c) cid s = Inr s1" "append_creator_index a cid s1 = Inr s2"
    "s' = publish [Sym ''campaign_transfer_completed'', U32 cid] [Addr (c_creator c), Addr a]
       (set_campaign cid (c\<lparr>c_creator := a, c_pending_creator := NoPending\<rparr>) (set_campaign_creator_index cid a s2))"
proof -
  have "pending_or_error c = Inr a \<longleftrightarrow> c_pending_creator c = Pending a" for a
    by (auto simp: pending_or_error_def split: maybe_pending_creator.splits)
  then have "\<exists>a s1 s2. c_pending_creator c = Pending a \<and> e_auth e a \<and> a \<noteq> c_creator c \<and>
    c_is_active c \<and> \<not> c_is_cancelled c \<and>
    remove_from_creator_index (c_creator c) cid s = Inr s1 \<and> append_creator_index a cid s1 = Inr s2 \<and>
    s' = publish [Sym ''campaign_transfer_completed'', U32 cid] [Addr (c_creator c), Addr a]
       (set_campaign cid (c\<lparr>c_creator := a, c_pending_creator := NoPending\<rparr>) (set_campaign_creator_index cid a s2))"
    using assms by (auto simp: accept_campaign_transfer_def Let_def res_simps add_to_creator_index_eq)
  then show thesis using that by blast
qed

text \<open>
  C38: A campaign transfer can make the old creator's listing loop forever. Take a creator whose
  index is packed and has entries beyond the bucket the campaign is in. Before the transfer
  \<open>get_creator_campaigns\<close> returns on every page; after \<open>accept_campaign_transfer\<close> of the campaign,
  whose swap-removal shortens a bucket that is not the last, the page over the end of that bucket
  never returns.
\<close>

theorem transfer_breaks_listing:
  assumes acc: "accept_campaign_transfer e cid s = Inr s'" "get_campaign s cid = Some c"
    and pos: "get_creator_campaign_position s (c_creator c) cid = Some (b, i)"
    and packed: "packed CREATOR_CAMPAIGNS_BUCKET_SIZE (get_creator_campaign_count s (c_creator c))
      (get_creator_campaign_bucket s (c_creator c))"
    and more: "b * 500 + 500 < get_creator_campaign_count s (c_creator c)"
      "get_creator_campaign_count s (c_creator c) \<le> u32_max"
  shows "(\<forall>start limit. get_creator_campaigns s (c_creator c) start limit \<noteq> None) \<and>
    get_creator_campaigns s' (c_creator c) (b * 500 + 450) 50 = None"
proof
  show "\<forall>start limit. get_creator_campaigns s (c_creator c) start limit \<noteq> None"
    using creator_index.page [OF packed more(2)] by (simp add: get_creator_campaigns_def)
next
  let ?a = "c_creator c"
  from accept_campaign_transfer_index [OF acc] obtain a s1 s2 where "a \<noteq> ?a"
    and rm: "remove_from_creator_index ?a cid s = Inr s1" and app: "append_creator_index a cid s1 = Inr s2"
    and s': "s' = publish [Sym ''campaign_transfer_completed'', U32 cid] [Addr ?a, Addr a]
       (set_campaign cid (c\<lparr>c_creator := a, c_pending_creator := NoPending\<rparr>) (set_campaign_creator_index cid a s2))"
    by metis
  note other = creator_index_other [OF app \<open>a \<noteq> ?a\<close>]
  have len: "length (get_creator_campaign_bucket s ?a b) = 500"
    using packed_length [OF packed, of b] more(1) by (simp add: CREATOR_CAMPAIGNS_BUCKET_SIZE_def)
  have "get_creator_campaign_count s' ?a = get_creator_campaign_count s ?a - 1"
    using remove_from_creator_index_frame(1) [OF rm pos] other(1) by (simp add: s' store_defs)
  moreover have "length (get_creator_campaign_bucket s' ?a b) = 499"
  proof -
    have "get_creator_campaign_bucket s' ?a = get_creator_campaign_bucket s2 ?a"
      by (simp add: s' store_defs fun_eq_iff)
    then show ?thesis using remove_from_creator_index_frame(2) [OF rm pos] other(2) len by simp
  qed
  ultimately show "get_creator_campaigns s' ?a (b * 500 + 450) 50 = None"
    using more unfolding get_creator_campaigns_def
    by (intro page_stuck [where b = b and k = 499]) (simp_all add: const_defs)
qed

declare One_nat_def [simp del]

text \<open>A creator with 501 campaigns, the first of them offered to address 5.\<close>

definition crowded_state :: "balances state" where
  "crowded_state = set_campaign 1 (demo_campaign\<lparr>c_pending_creator := Pending (Address 5)\<rparr>)
    (set_creator_campaign_count (Address 2) 501 (set_creator_campaign_position (Address 2) 1 0 0
    (set_creator_campaign_bucket (Address 2) 0 [1..<501]
    (set_creator_campaign_bucket (Address 2) 1 [501] demo_state))))"

lemma crowded_facts:
  "get_campaign crowded_state 1 = Some (demo_campaign\<lparr>c_pending_creator := Pending (Address 5)\<rparr>)"
  "get_creator_campaign_position crowded_state (Address 2) 1 = Some (0, 0)"
  "get_creator_campaign_count crowded_state (Address 2) = 501"
  "get_creator_campaign_bucket crowded_state (Address 2) b = (if b = 0 then [1..<501] else if b = 1 then [501] else [])"
  "get_creator_campaign_count crowded_state (Address 5) = 0"
  "paused_flag crowded_state = False" "auto_paused_flag crowded_state = False"
  by (simp_all add: crowded_state_def demo_state_def base_eval)

lemma crowded_packed: "packed CREATOR_CAMPAIGNS_BUCKET_SIZE 501 (get_creator_campaign_bucket crowded_state (Address 2))"
  unfolding packed_def crowded_facts CREATOR_CAMPAIGNS_BUCKET_SIZE_def
proof
  fix b :: nat
  consider "b = 0" | "b = 1" | "2 \<le> b" by linarith
  then show "length (if b = 0 then [1..<501] else if b = 1 then [501] else []) = min 500 (501 - b * 500)"
    by cases auto
qed

lemma crowded_transfer: "is_ok (accept_campaign_transfer (demo_env 5000) 1 crowded_state)"
proof -
  have "is_ok (remove_from_creator_index (Address 2) 1 crowded_state)"
    by (simp add: remove_from_creator_index_def get_creator_campaign_position_or_legacy_scan_def crowded_facts
        vec_get_def Let_def)
  from is_okE [OF this] obtain s1 where s1: "remove_from_creator_index (Address 2) 1 crowded_state = Inr s1" .
  then have "get_creator_campaign_count s1 (Address 5) = 0"
    using crowded_facts(5)
    by (auto simp: remove_from_creator_index_def Let_def res_simps store_defs)
  then obtain s2 where "append_creator_index (Address 5) 1 s1 = Inr s2"
    by (simp add: append_creator_index_ok u32_max_def)
  with s1 show ?thesis
    by (simp add: accept_campaign_transfer_def get_campaign_or_error_def require_active_campaign_def
        require_not_paused_def pending_or_error_def require_auth_def crowded_facts demo_campaign_fields
        add_to_creator_index_eq)
qed

theorem transfer_breaks_listing_witness:
  "\<exists>s'. accept_campaign_transfer (demo_env 5000) 1 crowded_state = Inr s' \<and>
    get_creator_campaigns s' (Address 2) 450 50 = None"
proof -
  obtain s' where acc: "accept_campaign_transfer (demo_env 5000) 1 crowded_state = Inr s'" using is_okE [OF crowded_transfer] .
  have "get_creator_campaigns s' (c_creator (demo_campaign\<lparr>c_pending_creator := Pending (Address 5)\<rparr>)) (0 * 500 + 450) 50 = None"
    by (rule conjunct2 [OF transfer_breaks_listing [OF acc crowded_facts(1), where b = 0 and i = 0]])
      (simp_all add: demo_campaign_fields crowded_facts(2,3) crowded_packed u32_max_def)
  with acc show ?thesis by (simp add: demo_campaign_fields)
qed

end
