(* ===== verification/Listings.thy ===== *)
theory Listings
  imports History Buckets
begin

text \<open>
  The catalogue of campaigns over reachable states: the terms a creation fixes, and the listing
  by category, which always returns and is exactly a slice of the ids in the order of creation.
\<close>

section \<open>What a creation fixes\<close>

definition fixed_terms :: "campaign \<Rightarrow> u32 \<times> address \<times> i128 \<times> category \<times> bool \<times> u32 \<times> i128" where
  "fixed_terms c = (c_id c, c_first_creator c, c_funding_goal c, c_category c, c_has_revenue_sharing c,
     c_revenue_share_percentage c, c_max_contribution_per_user c)"

text \<open>Every campaign of \<open>k\<close> is in \<open>k'\<close>, with its terms; and there are no others when the counts agree.\<close>

definition keeps_terms :: "core \<Rightarrow> core \<Rightarrow> bool" where
  "keeps_terms k k' \<longleftrightarrow> k_count k \<le> k_count k' \<and>
     (\<forall>cid c. k_camp k cid = Some c \<longrightarrow> (\<exists>c'. k_camp k' cid = Some c' \<and> fixed_terms c' = fixed_terms c))"

lemma keeps_terms_one:
  "k_camp k cid = Some c \<Longrightarrow> k_camp k' = (k_camp k)(cid \<mapsto> c') \<Longrightarrow> k_count k' = k_count k \<Longrightarrow>
   fixed_terms c' = fixed_terms c \<Longrightarrow> keeps_terms k k'"
  by (auto simp: keeps_terms_def)

lemma keeps_terms_trans: "keeps_terms k1 k2 \<Longrightarrow> keeps_terms k2 k3 \<Longrightarrow> keeps_terms k1 k3"
  unfolding keeps_terms_def by (elim conjE, intro conjI) (rule order_trans, assumption+, metis)

lemma core_step_keeps_terms:
  assumes "core_step now k k'" "core_inv now k"
  shows "keeps_terms k k'"
  using assms(1)
proof cases
  case (created c)
  then show ?thesis using core_inv_next [OF assms(2)] by (auto simp: keeps_terms_def k_create_def)
next
  case (edit cid c c')
  then have "fixed_terms c' = fixed_terms c" by (simp add: edited_def fixed_terms_def)
  then show ?thesis by (intro keeps_terms_one [OF edit(2), of _ c']) (simp_all add: edit(1) put_def)
qed (auto intro!: keeps_terms_one simp: move_defs fixed_terms_def)

lemma core_steps_keep_terms:
  assumes "core_steps now k k'" "core_inv now k"
  shows "keeps_terms k k'"
  using assms
proof (induction rule: rtranclp_induct)
  case (step k1 k2)
  then have "core_inv now k1" using core_steps_inv by blast
  with step core_step_keeps_terms [OF step(2)] have "keeps_terms k k1" "keeps_terms k1 k2" by simp_all
  then show ?case by (rule keeps_terms_trans)
qed (simp add: keeps_terms_def)

section \<open>The catalogue\<close>

record catalogue =
  ct_count :: u32
  ct_size :: "category \<Rightarrow> u32"
  ct_bucket :: "category \<Rightarrow> u32 \<Rightarrow> u32 list"

definition catalogue :: "'w state \<Rightarrow> catalogue" where
  "catalogue s = \<lparr>ct_count = get_campaign_count s, ct_size = get_category_campaign_count s,
     ct_bucket = get_category_campaign_bucket s\<rparr>"

lemma catalogue_fields:
  "ct_count (catalogue s) = get_campaign_count s" "ct_size (catalogue s) = get_category_campaign_count s"
  "ct_bucket (catalogue s) = get_category_campaign_bucket s"
  by (simp_all add: catalogue_def)

interpretation catalogue_calls: call_observer catalogue
  by unfold_locales (simp_all add: catalogue_def store_defs fun_eq_iff)

interpretation catalogue_settings: config_observer catalogue
  by unfold_locales (simp_all add: catalogue_def store_defs fun_eq_iff)

definition ids_of_category :: "'w state \<Rightarrow> category \<Rightarrow> u32 list" where
  "ids_of_category s cat =
    [i \<leftarrow> [1..<get_campaign_count s + 1]. (case get_campaign s i of None \<Rightarrow> False | Some c \<Rightarrow> c_category c = cat)]"

definition catalogued :: "'w state \<Rightarrow> bool" where
  "catalogued s \<longleftrightarrow> (\<forall>cat.
     packed CATEGORY_CAMPAIGNS_BUCKET_SIZE (get_category_campaign_count s cat) (get_category_campaign_bucket s cat) \<and>
     unpacked CATEGORY_CAMPAIGNS_BUCKET_SIZE (get_category_campaign_count s cat) (get_category_campaign_bucket s cat) =
       ids_of_category s cat \<and> get_category_campaign_count s cat \<le> u32_max)"

lemma ids_of_category_cong:
  assumes "get_campaign_count s' = get_campaign_count s" "keeps_terms (core s) (core s')" "core_inv now (core s)"
  shows "ids_of_category s' cat = ids_of_category s cat"
  unfolding ids_of_category_def assms(1)
proof (rule filter_cong [OF refl])
  fix i
  assume "i \<in> set [1..<get_campaign_count s + 1]"
  then have "i \<in> dom (get_campaign s)"
    using core_inv_dom [OF assms(3)] by (auto simp: core_fields)
  then obtain c where c: "get_campaign s i = Some c" by auto
  then obtain c' where "get_campaign s' i = Some c'" "fixed_terms c' = fixed_terms c"
    using assms(2) by (auto simp: keeps_terms_def core_fields)
  then show "(case get_campaign s' i of None \<Rightarrow> False | Some c \<Rightarrow> c_category c = cat) =
      (case get_campaign s i of None \<Rightarrow> False | Some c \<Rightarrow> c_category c = cat)"
    using c by (simp add: fixed_terms_def)
qed

lemma catalogued_cong:
  assumes "catalogue s' = catalogue s" "keeps_terms (core s) (core s')" "core_inv now (core s)" "catalogued s"
  shows "catalogued s'"
proof -
  have eq: "get_campaign_count s' = get_campaign_count s" "get_category_campaign_count s' = get_category_campaign_count s"
    "get_category_campaign_bucket s' = get_category_campaign_bucket s"
    using assms(1) by (simp_all add: catalogue_fields [symmetric])
  show ?thesis
    using assms(4) ids_of_category_cong [OF eq(1) assms(2,3)] unfolding catalogued_def eq by simp
qed


section \<open>A creation extends it\<close>

lemma catalogue_writes:
  "catalogue (set_campaign_count n s) = (catalogue s)\<lparr>ct_count := n\<rparr>"
  "catalogue (set_category_campaign_count cat n s) = (catalogue s)\<lparr>ct_size := (ct_size (catalogue s))(cat := n)\<rparr>"
  "catalogue (set_category_campaign_bucket cat b xs s) =
     (catalogue s)\<lparr>ct_bucket := (ct_bucket (catalogue s))(cat := (ct_bucket (catalogue s) cat)(b := xs))\<rparr>"
  by (simp_all add: catalogue_def store_defs category_code_inj fun_eq_iff)

lemma catalogue_increment:
  "increment_active_campaign_count s = Inr s' \<Longrightarrow> catalogue s' = catalogue s"
  by (auto simp: res_simps catalogue_calls.obs_simps catalogue_calls.obs_creator)

definition catalogue_add :: "u32 \<Rightarrow> category \<Rightarrow> catalogue \<Rightarrow> catalogue" where
  "catalogue_add n cat k =
    (let size0 = ct_size k cat; b = size0 div CATEGORY_CAMPAIGNS_BUCKET_SIZE in
     k\<lparr>ct_count := n, ct_size := (ct_size k)(cat := size0 + 1),
       ct_bucket := (ct_bucket k)(cat := (ct_bucket k cat)(b := ct_bucket k cat b @ [n]))\<rparr>)"

lemma append_category_index_catalogue:
  "append_category_index cat n s = Inr s' \<Longrightarrow>
   ct_size (catalogue s) cat + 1 \<le> u32_max \<and> catalogue s' = (catalogue s)
     \<lparr>ct_size := (ct_size (catalogue s))(cat := ct_size (catalogue s) cat + 1),
      ct_bucket := (ct_bucket (catalogue s))(cat := (ct_bucket (catalogue s) cat)
        (ct_size (catalogue s) cat div CATEGORY_CAMPAIGNS_BUCKET_SIZE :=
           ct_bucket (catalogue s) cat (ct_size (catalogue s) cat div CATEGORY_CAMPAIGNS_BUCKET_SIZE) @ [n]))\<rparr>"
  by (auto simp: append_category_index_ok catalogue_writes) (auto simp: catalogue_fields)

lemma append_creator_index_catalogue: "append_creator_index a n s = Inr s' \<Longrightarrow> catalogue s' = catalogue s"
  by (auto simp: append_creator_index_ok catalogue_calls.obs_simps catalogue_calls.obs_creator)

lemma create_campaign_inner_catalogue:
  assumes "create_campaign_inner e p tok s = Inr (n, s')"
  shows "catalogue s' = catalogue_add n (p_category p) (catalogue s)"
    "get_category_campaign_count s (p_category p) + 1 \<le> u32_max"
proof -
  have "catalogue s' = catalogue_add n (p_category p) (catalogue s) \<and>
      ct_size (catalogue s) (p_category p) + 1 \<le> u32_max"
    using assms
    apply (simp only: create_campaign_inner_def Let_def res_simps prod.inject)
    apply clarify
    apply (drule append_category_index_catalogue append_creator_index_catalogue)+
    apply (simp add: catalogue_calls.obs_simps catalogue_calls.obs_creator catalogue_writes catalogue_add_def Let_def
        split: option.splits)
    done
  then show "catalogue s' = catalogue_add n (p_category p) (catalogue s)"
    "get_category_campaign_count s (p_category p) + 1 \<le> u32_max" by (simp_all add: catalogue_fields)
qed

lemma created_catalogued:
  assumes cat: "catalogue s' = catalogue_add n (p_category p) (catalogue s)"
      "get_category_campaign_count s (p_category p) + 1 \<le> u32_max"
    and new: "n = get_campaign_count s + 1" "get_campaign s' n = Some c" "c_category c = p_category p"
    and keeps: "keeps_terms (core s) (core s')" "core_inv now (core s)" and ok: "catalogued s"
  shows "catalogued s'"
  unfolding catalogued_def
proof
  fix k
  let ?cat = "p_category p" and ?size = "CATEGORY_CAMPAIGNS_BUCKET_SIZE"
  have old: "packed ?size (get_category_campaign_count s k) (get_category_campaign_bucket s k)"
    "unpacked ?size (get_category_campaign_count s k) (get_category_campaign_bucket s k) = ids_of_category s k"
    "get_category_campaign_count s k \<le> u32_max"
    using ok by (simp_all add: catalogued_def)
  have count: "get_campaign_count s' = n" "get_category_campaign_count s' k =
      get_category_campaign_count s k + (if k = ?cat then 1 else 0)"
    by (simp_all add: catalogue_fields [symmetric] cat(1) catalogue_add_def Let_def)
  have bucket: "get_category_campaign_bucket s' k = (if k = ?cat
      then (get_category_campaign_bucket s k)(get_category_campaign_count s k div ?size :=
        get_category_campaign_bucket s k (get_category_campaign_count s k div ?size) @ [n])
      else get_category_campaign_bucket s k)"
    by (simp add: catalogue_fields [symmetric] cat(1) catalogue_add_def Let_def)
  have same: "(case get_campaign s' i of None \<Rightarrow> False | Some c \<Rightarrow> c_category c = k) =
      (case get_campaign s i of None \<Rightarrow> False | Some c \<Rightarrow> c_category c = k)"
    if "i \<in> set [1..<get_campaign_count s + 1]" for i
  proof -
    from that have "i \<in> dom (get_campaign s)" using core_inv_dom [OF keeps(2)] by (auto simp: core_fields)
    then obtain c where c: "get_campaign s i = Some c" by auto
    then obtain c' where "get_campaign s' i = Some c'" "fixed_terms c' = fixed_terms c"
      using keeps(1) by (auto simp: keeps_terms_def core_fields)
    then show ?thesis using c by (simp add: fixed_terms_def)
  qed
  have ids: "ids_of_category s' k = ids_of_category s k @ (if k = ?cat then [n] else [])"
  proof -
    have "[1..<Suc n] = [1..<n] @ [n]" using new(1) by (intro upt_Suc_append) simp
    then have "[1..<n + 1] = [1..<get_campaign_count s + 1] @ [n]" by (simp only: Suc_eq_plus1 new(1))
    moreover have "[i \<leftarrow> [1..<get_campaign_count s + 1]. (case get_campaign s' i of None \<Rightarrow> False | Some c \<Rightarrow> c_category c = k)] =
        ids_of_category s k"
      unfolding ids_of_category_def by (rule filter_cong [OF refl same])
    ultimately show ?thesis
      unfolding ids_of_category_def [of s'] count(1) using new(2,3) by simp
  qed
  have "0 < ?size" by (simp add: CATEGORY_CAMPAIGNS_BUCKET_SIZE_def)
  then show "packed ?size (get_category_campaign_count s' k) (get_category_campaign_bucket s' k) \<and>
    unpacked ?size (get_category_campaign_count s' k) (get_category_campaign_bucket s' k) = ids_of_category s' k \<and>
    get_category_campaign_count s' k \<le> u32_max"
    using old cat(2) packed_append [OF old(1) _ refl, of n]
    unfolding count(2) bucket ids by (cases "k = ?cat") simp_all
qed


lemma create_call_catalogue:
  assumes k: "run_campaign_call e k s = Inr s'" "k = CreateCampaign p \<or> k = CreateCampaignWithToken p tok"
    and caps: "\<forall>d. get_category_duration_cap s (p_category p) = Some d \<longrightarrow> d \<le> 365"
  obtains n c where "n = get_campaign_count s + 1" "get_campaign s' n = Some c" "c_category c = p_category p"
    "catalogue s' = catalogue_add n (p_category p) (catalogue s)"
    "get_category_campaign_count s (p_category p) + 1 \<le> u32_max"
proof -
  from k obtain n t s1 where c: "create_campaign_inner e p t s = Inr (n, s1)"
    and s': "increment_active_campaign_count s1 = Inr s'"
    by (auto simp: create_campaign_entry_def create_campaign_def create_campaign_with_token_entry_def
        create_campaign_with_token_def res_simps)
  from create_campaign_inner_core [OF c caps] obtain share where n: "n = get_campaign_count s + 1"
    and "core s1 = (core s)\<lparr>k_count := n,
       k_camp := (get_campaign s)(n \<mapsto>
         new_campaign p n share (e_timestamp e + p_duration_days p * SECONDS_PER_DAY)),
       k_start := (get_campaign_start_time s)(n \<mapsto> e_timestamp e)\<rparr>" .
  moreover have "get_campaign s' = get_campaign s1" using s' by (auto simp: res_simps store_defs)
  ultimately have "get_campaign s' n = Some (new_campaign p n share (e_timestamp e + p_duration_days p * SECONDS_PER_DAY))"
    by (simp add: core_fields [symmetric])
  then show thesis
    using create_campaign_inner_catalogue [OF c] catalogue_increment [OF s']
    by (intro that [OF n, of "new_campaign p n share (e_timestamp e + p_duration_days p * SECONDS_PER_DAY)"])
      (simp_all add: new_campaign_def)
qed

lemma dispatch_keeps_terms:
  assumes "dispatch e k s = Inr s'" "config_ok (config s)" "core_inv (e_timestamp e) (core s)"
  shows "keeps_terms (core s) (core s')"
proof (cases "\<exists>cid. accepts k cid")
  case True
  then obtain cid where "hand_over cid (core s) (core s')" using dispatch_hands_over [OF assms(1)] by metis
  then show ?thesis by cases (auto intro!: keeps_terms_one simp: put_def fixed_terms_def)
next
  case False
  then show ?thesis by (intro core_steps_keep_terms [OF dispatch_refines [OF assms(1, 2)] assms(3)]) blast
qed

lemma catalogued_call:
  assumes "dispatch e k s = Inr s'" "config_ok (config s)" "core_inv (e_timestamp e) (core s)" "catalogued s"
  shows "catalogued s'"
proof -
  have keeps: "keeps_terms (core s) (core s')"
    by (rule dispatch_keeps_terms [OF assms(1-3)])
  note same = catalogued_cong [OF _ keeps assms(3,4)]
  show ?thesis
  proof (cases k)
    case (CampaignCall c)
    with assms(1) have run: "run_campaign_call e c s = Inr s'" by simp
    show ?thesis
    proof (cases "\<exists>p tok. c = CreateCampaign p \<or> c = CreateCampaignWithToken p tok")
      case True
      then obtain p tok where "c = CreateCampaign p \<or> c = CreateCampaignWithToken p tok" by blast
      from create_call_catalogue [OF run this] config_okD(6) [OF assms(2)] show ?thesis
        by (metis created_catalogued [OF _ _ _ _ _ keeps assms(3,4)])
    next
      case False
      then show ?thesis using catalogue_calls.campaign_call_obs [OF run] by (intro same) blast
    qed
  next
    case (FundCall c)
    with assms(1) show ?thesis by (intro same) (simp add: catalogue_calls.fund_call_obs)
  next
    case (ReviewCall c)
    with assms(1) show ?thesis by (intro same) (simp add: catalogue_calls.review_call_obs)
  next
    case (ConfigCall c)
    with assms(1) config_okD(1) [OF assms(2)] show ?thesis
      by (intro same) (simp add: catalogue_settings.config_call_obs)
  next
    case (AdminCall c)
    with assms(1) show ?thesis by (intro same) (simp add: catalogue_settings.admin_call_obs)
  qed
qed

lemma init_catalogued: "init e a tok fee (empty_state wd) = Inr s \<Longrightarrow> catalogued s"
  by (auto simp: init_def Let_def res_simps catalogued_def packed_def unpacked_def ids_of_category_def
      empty_state_def store_defs)

lemma catalogued_world: "catalogued s \<Longrightarrow> catalogued (s\<lparr>st_world := wd\<rparr>)"
proof -
  have "get_campaign_count (s\<lparr>st_world := wd\<rparr>) = get_campaign_count s"
    "get_campaign (s\<lparr>st_world := wd\<rparr>) = get_campaign s"
    "get_category_campaign_count (s\<lparr>st_world := wd\<rparr>) = get_category_campaign_count s"
    "get_category_campaign_bucket (s\<lparr>st_world := wd\<rparr>) = get_category_campaign_bucket s"
    by (simp_all add: store_defs fun_eq_iff)
  then show "catalogued s \<Longrightarrow> catalogued (s\<lparr>st_world := wd\<rparr>)"
    by (simp add: catalogued_def ids_of_category_def)
qed

interpretation catalogue_invariant: contract_invariant "\<lambda>now. catalogued"
  by unfold_locales (simp_all add: init_catalogued catalogued_call catalogued_world)

section \<open>Properties\<close>

declare One_nat_def [simp del]

text \<open>
  C18: What a creation fixes. Whatever call is made, an existing campaign stays, with its id, its first
  creator, its goal, its category, its revenue sharing and share and its per-user cap as they were.
\<close>

theorem campaign_terms_fixed:
  assumes "reachable h now s" "now \<le> e_timestamp e" "get_campaign s cid = Some c"
  shows "\<exists>c'. get_campaign (invoke e k s) cid = Some c' \<and> fixed_terms c' = fixed_terms c"
proof (cases "dispatch e k s")
  case (Inl f)
  then show ?thesis using assms(3) by (simp add: invoke_def)
next
  case (Inr s')
  have "core_inv (e_timestamp e) (core s)" by (rule core_inv_later [OF reachable_core [OF assms(1)] assms(2)])
  from dispatch_keeps_terms [OF Inr reachable_config [OF assms(1)] this]
  show ?thesis using assms(3) Inr by (simp add: keeps_terms_def core_fields invoke_def)
qed

theorem campaign_terms_fixed_witness:
  "\<exists>c'. get_campaign h_withdrawn 1 = Some c' \<and> c_funding_goal c' = 100000 \<and> c_first_creator c' = Address 2"
proof -
  have "\<exists>c'. get_campaign h_withdrawn 1 = Some c' \<and> fixed_terms c' = fixed_terms h_campaign"
    unfolding h_withdrawn_def
    by (rule campaign_terms_fixed [OF reachable_history(4) _ funded_facts(1)]) simp
  then show ?thesis by (auto simp: fixed_terms_def h_campaign_def demo_campaign_def)
qed

text \<open>
  C19: Listing by category. In every reachable state \<open>get_campaigns_by_category\<close> returns, whatever the
  offset and the limit, and its answer is the slice of at most \<open>LIST_MAX_LIMIT\<close> campaigns that starts
  at the offset in the list of all campaigns of that category in the order of their ids.
\<close>

theorem category_listing:
  assumes "reachable h now s"
  shows "get_campaigns_by_category s cat offset limit =
    Some (Ok (map (\<lambda>i. the (get_campaign s i))
      (take (min limit LIST_MAX_LIMIT) (drop offset (ids_of_category s cat)))))"
proof -
  have cat: "catalogued s" using catalogue_invariant.reachable_all [OF assms] by simp
  have "List.map_filter (get_campaign s) xs = map (\<lambda>i. the (get_campaign s i)) xs"
    if "set xs \<subseteq> set (ids_of_category s cat)" for xs
    using that
    by (induction xs) (auto simp: List.map_filter_simps ids_of_category_def split: option.splits)
  moreover have "set (take m (drop offset (ids_of_category s cat))) \<subseteq> set (ids_of_category s cat)" for m
    by (meson order_trans set_drop_subset set_take_subset)
  ultimately show ?thesis
    using cat category_index.page [of s cat offset limit]
    by (simp add: catalogued_def get_campaigns_by_category_def)
qed

theorem category_listing_witness:
  "get_campaigns_by_category h_funded Learner 0 5 = Some (Ok [h_campaign]) \<and>
   get_campaigns_by_category h_funded Publisher 0 5 = Some (Ok [])"
proof -
  have ids: "ids_of_category h_funded Learner = [1]" "ids_of_category h_funded Publisher = []"
    by (simp_all add: ids_of_category_def funded_facts h_campaign_def demo_campaign_def upt_rec)
  show ?thesis
    using category_listing [OF reachable_history(4), of Learner 0 5]
      category_listing [OF reachable_history(4), of Publisher 0 5]
    by (simp add: ids funded_facts LIST_MAX_LIMIT_def)
qed

end
