(* ===== verification/Views.thy ===== *)
theory Views
  imports Listings
begin

text \<open>
  The read-only entry points of \<^verbatim>\<open>src/lib.rs\<close>: a view is a value, \<open>run_view\<close> answers it. The
  ones that read single entries are \<open>field_view\<close>, the listings and statistics \<open>listing_view\<close>.
  (\<open>list_active_campaigns\<close> publishes an event, so it is a \<open>review_call\<close> of \<^verbatim>\<open>Contract\<close>.)
\<close>

section \<open>Views and answers\<close>

datatype answer =
    ANat nat
  | AInt i128
  | ABool bool
  | AAddress address
  | AMaybeAddress "address option"
  | AAddresses "address list"
  | AIds "u32 list"
  | ACampaign campaign
  | AMaybeCampaign "campaign option"
  | ACampaigns "campaign list"
  | AMilestones "milestone list"
  | AMaybeReserve "campaign_reserve option"
  | AMaybeCensure "comment_censure option"
  | APlatformStats platform_stats
  | APlatformReport platform_report
  | ACreatorStats creator_stats
  | ACampaignStats campaign_stats
  | APortfolio "(u32 \<times> i128 \<times> string \<times> bool) list"

datatype field_view =
    GetCampaign u32
  | GetCampaignOptional u32
  | GetCampaignCount
  | GetTotalRaisedGlobal
  | GetTotalContributorsCount u32
  | GetContribution u32 address
  | GetLifetimeContribution u32 address
  | GetRevenuePool u32
  | GetRevenueClaimed u32 address
  | GetVersion
  | ContractVersion
  | GetAdmin
  | GetPendingAdmin
  | GetToken
  | GetPlatformFee
  | GetMaxContributionPerTx
  | GetBpsDenominator
  | GetTokenUpdateDelaySecs
  | GetMinCampaignFundingGoal
  | GetMaxCampaignFundingGoal
  | GetMinVotingBalance
  | GetApproveVotes u32
  | GetRejectVotes u32
  | HasVoted u32 address
  | GetMinVotesQuorum
  | GetApprovalThresholdBps
  | GetPersonalCap u32 address
  | GetCampaignReserve u32
  | HasPendingCampaignTransfer u32
  | IsCampaignCreator u32 address

datatype side_view =
    GetCampaignToken u32
  | IsTokenAllowed address
  | GetMilestones u32
  | IsMilestoneClaimed u32 u32
  | GetEmergencyPauseSigners
  | IsPaused
  | IsCreationDisabled
  | GetCategoryVotingThreshold category

datatype listing_view =
    ListCampaigns u32 u32
  | GetCampaignsByCategory category u32 u32
  | GetCreatorCampaigns address u32 u32
  | GetPlatformStats
  | GetPlatformReport
  | GetCreatorStats address
  | GetCampaignStats u32
  | GetContributorPortfolio address

datatype wallet_view =
    GetSavedCampaigns address
  | GetSavedCampaignsCount address
  | IsCommentCensured u32 bytes32
  | GetCommentCensure u32 bytes32
  | GetCensuredCommentCount u32

section \<open>Answering\<close>

primrec run_field_view :: "field_view \<Rightarrow> 'w state \<Rightarrow> (error, answer) res" where
  "run_field_view (GetCampaign cid) s = and_then (get_campaign_or_error s cid) (\<lambda>c. Ok (ACampaign c))"
| "run_field_view (GetCampaignOptional cid) s = Ok (AMaybeCampaign (get_campaign s cid))"
| "run_field_view GetCampaignCount s = Ok (ANat (get_campaign_count s))"
| "run_field_view GetTotalRaisedGlobal s = Ok (AInt (get_total_raised_global s))"
| "run_field_view (GetTotalContributorsCount cid) s = Ok (ANat (get_contributor_count s cid))"
| "run_field_view (GetContribution cid a) s = Ok (AInt (get_contribution s cid a))"
| "run_field_view (GetLifetimeContribution cid a) s = Ok (AInt (get_lifetime_contribution s cid a))"
| "run_field_view (GetRevenuePool cid) s = Ok (AInt (get_revenue_pool s cid))"
| "run_field_view (GetRevenueClaimed cid a) s = Ok (AInt (get_revenue_claimed s cid a))"
| "run_field_view GetVersion s = Ok (ANat (get_version s))"
| "run_field_view ContractVersion s = Ok (ANat CONTRACT_VERSION)"
| "run_field_view GetAdmin s = and_then (admin_or_trap s) (\<lambda>a. Ok (AAddress a))"
| "run_field_view GetPendingAdmin s = Ok (AMaybeAddress (get_pending_admin s))"
| "run_field_view GetToken s = and_then (token_or_trap s) (\<lambda>a. Ok (AAddress a))"
| "run_field_view GetPlatformFee s = Ok (ANat (get_platform_fee s))"
| "run_field_view GetMaxContributionPerTx s = Ok (AInt (get_max_contribution_per_transaction s))"
| "run_field_view GetBpsDenominator s = Ok (ANat BPS_DENOMINATOR)"
| "run_field_view GetTokenUpdateDelaySecs s = Ok (ANat (get_token_update_delay_secs s TOKEN_UPDATE_DELAY_SECS))"
| "run_field_view GetMinCampaignFundingGoal s = Ok (AInt (get_min_campaign_funding_goal s CAMPAIGN_FUNDING_GOAL_MIN))"
| "run_field_view GetMaxCampaignFundingGoal s = Ok (AInt (get_max_campaign_funding_goal s CAMPAIGN_FUNDING_GOAL_MAX))"
| "run_field_view GetMinVotingBalance s = Ok (AInt (get_min_voting_balance s))"
| "run_field_view (GetApproveVotes cid) s = Ok (ANat (get_approve_votes s cid))"
| "run_field_view (GetRejectVotes cid) s = Ok (ANat (get_reject_votes s cid))"
| "run_field_view (HasVoted cid a) s = Ok (ABool (get_has_voted s cid a))"
| "run_field_view GetMinVotesQuorum s = Ok (ANat (get_min_votes_quorum s DEFAULT_MIN_VOTES_QUORUM))"
| "run_field_view GetApprovalThresholdBps s = Ok (ANat (get_approval_threshold_bps s DEFAULT_APPROVAL_THRESHOLD_BPS))"
| "run_field_view (GetPersonalCap cid a) s = Ok (AInt (get_personal_cap_entry s cid a))"
| "run_field_view (GetCampaignReserve cid) s = Ok (AMaybeReserve (get_campaign_reserve s cid))"
| "run_field_view (HasPendingCampaignTransfer cid) s = Ok (ABool (has_pending_campaign_transfer s cid))"
| "run_field_view (IsCampaignCreator cid a) s = Ok (ABool (is_campaign_creator s cid a))"

primrec run_side_view :: "side_view \<Rightarrow> 'w state \<Rightarrow> (error, answer) res" where
  "run_side_view (GetCampaignToken cid) s = and_then (unwrap (get_campaign_token s cid)) (\<lambda>a. Ok (AAddress a))"
| "run_side_view (IsTokenAllowed a) s = and_then (is_token_allowed s a) (\<lambda>b. Ok (ABool b))"
| "run_side_view (GetMilestones cid) s = Ok (AMilestones (get_campaign_milestones s cid))"
| "run_side_view (IsMilestoneClaimed cid mid) s = Ok (ABool (is_milestone_claimed s cid mid))"
| "run_side_view GetEmergencyPauseSigners s = Ok (AAddresses (get_emergency_pause_signers s))"
| "run_side_view IsPaused s = Ok (ABool (is_paused s))"
| "run_side_view IsCreationDisabled s = Ok (ABool (get_creation_disabled s))"
| "run_side_view (GetCategoryVotingThreshold cat) s = Ok (ANat (effective_approval_threshold_bps s cat))"

text \<open>A listing may not return (\<open>None\<close>), and the statistics trap when an unchecked sum overflows.\<close>

primrec run_listing_view ::
  "('w, 'm) env_scheme \<Rightarrow> listing_view \<Rightarrow> 'w state \<Rightarrow> (error, answer) res option" where
  "run_listing_view e (ListCampaigns start limit) s = Some (Ok (ACampaigns (list_campaigns s start limit)))"
| "run_listing_view e (GetCampaignsByCategory cat offset limit) s =
     map_option (\<lambda>r. and_then r (\<lambda>cs. Ok (ACampaigns cs))) (get_campaigns_by_category s cat offset limit)"
| "run_listing_view e (GetCreatorCampaigns a start limit) s =
     map_option (\<lambda>r. and_then r (\<lambda>cs. Ok (ACampaigns cs))) (get_creator_campaigns s a start limit)"
| "run_listing_view e GetPlatformStats s = Some (Ok (APlatformStats (get_platform_stats s)))"
| "run_listing_view e GetPlatformReport s =
     Some (and_then (get_platform_report s) (\<lambda>r. Ok (APlatformReport r)))"
| "run_listing_view e (GetCreatorStats a) s =
     Some (and_then (get_creator_stats s a) (\<lambda>r. Ok (ACreatorStats r)))"
| "run_listing_view e (GetCampaignStats cid) s = Some (Ok (ACampaignStats (get_campaign_stats s cid)))"
| "run_listing_view e (GetContributorPortfolio a) s =
     Some (Ok (APortfolio (get_contributor_portfolio e s a)))"

primrec run_wallet_view :: "wallet_view \<Rightarrow> 'w state \<Rightarrow> (error, answer) res" where
  "run_wallet_view (GetSavedCampaigns a) s = Ok (AIds (get_saved s a))"
| "run_wallet_view (GetSavedCampaignsCount a) s = Ok (ANat (get_saved_count s a))"
| "run_wallet_view (IsCommentCensured cid h) s = Ok (ABool (comment_is_censured s cid h))"
| "run_wallet_view (GetCommentCensure cid h) s = Ok (AMaybeCensure (comment_censure_record s cid h))"
| "run_wallet_view (GetCensuredCommentCount cid) s = Ok (ANat (campaign_censured_comment_count s cid))"

section \<open>Properties\<close>

declare One_nat_def [simp del]

text \<open>
  The views of single entries always answer. In every reachable state every view of \<open>field_view\<close> and
  \<open>side_view\<close> returns a value, except that \<open>get_campaign\<close> of an id beyond the campaign count, or of id
  0, returns \<open>CampaignNotFound\<close>; in particular the admin, the platform token and the currency of a campaign are
  never missing, and the platform token is always an allowed currency.
\<close>

lemma views_answer:
  assumes "reachable h now s"
  shows "(\<forall>v. is_ok (run_field_view v s) \<longleftrightarrow>
      \<not> (\<exists>cid. v = GetCampaign cid \<and> (cid < 1 \<or> get_campaign_count s < cid))) \<and>
    (\<forall>cid. cid < 1 \<or> get_campaign_count s < cid \<longrightarrow>
      run_field_view (GetCampaign cid) s = Err CampaignNotFound) \<and>
    (\<forall>v. is_ok (run_side_view v s)) \<and>
    (\<forall>a. run_field_view GetToken s = Ok (AAddress a) \<longrightarrow> run_side_view (IsTokenAllowed a) s = Ok (ABool True))"
proof -
  have camp: "get_campaign s cid \<noteq> None \<longleftrightarrow> 1 \<le> cid \<and> cid \<le> get_campaign_count s" for cid
    using reachable_core [OF assms] by (simp add: core_inv_def core_fields)
  obtain a t where adm: "get_admin s = Some a" "get_token s = Some t"
    using config_okD(2,3) [OF reachable_config [OF assms]] by blast
  have ct: "\<exists>tok. get_campaign_token s cid = Some tok" for cid
    by (simp add: get_campaign_token_def adm(2) split: option.split)
  have get: "is_ok (run_field_view (GetCampaign cid) s) \<longleftrightarrow> \<not> (cid < 1 \<or> get_campaign_count s < cid)" for cid
    using camp [of cid] by (cases "get_campaign s cid") (auto simp: get_campaign_or_error_def)
  have field: "is_ok (run_field_view v s) \<longleftrightarrow>
      \<not> (\<exists>cid. v = GetCampaign cid \<and> (cid < 1 \<or> get_campaign_count s < cid))" for v
  proof (cases "\<exists>cid. v = GetCampaign cid")
    case True
    then show ?thesis using get by blast
  next
    case False
    then show ?thesis by (cases v) (simp_all add: admin_or_trap_def token_or_trap_def adm)
  qed
  have none: "run_field_view (GetCampaign cid) s = Err CampaignNotFound"
    if "cid < 1 \<or> get_campaign_count s < cid" for cid
    using camp [of cid] that by (auto simp: get_campaign_or_error_def)
  have side: "is_ok (run_side_view v s)" for v
    using ct by (cases v) (auto simp: is_token_allowed_def adm unwrap_def is_ok_def split: option.split)
  have token: "run_side_view (IsTokenAllowed a) s = Ok (ABool True)"
    if "run_field_view GetToken s = Ok (AAddress a)" for a
    using that by (simp add: token_or_trap_def is_token_allowed_def adm)
  from field none side token show ?thesis by blast
qed

end
