(* ===== verification/Stewardship.thy ===== *)
theory Stewardship
  imports History
begin

text \<open>
  Who holds the contract: the admin and the pending admin, the platform token and the pending one.
  One view of the state, \<open>stewardship\<close>, that no campaign, funding, review or configuration call writes;
  what the administration calls do to it; and the two handovers as properties of every call.
\<close>

section \<open>The view\<close>

record stewardship =
  w_admin :: "address option"
  w_pending_admin :: "address option"
  w_token :: "address option"
  w_pending_token :: "address option"
  w_release :: "u64 option"

definition stewardship :: "'w state \<Rightarrow> stewardship" where
  "stewardship s = \<lparr>w_admin = get_admin s, w_pending_admin = get_pending_admin s, w_token = get_token s,
     w_pending_token = get_pending_token s, w_release = get_pending_token_release s\<rparr>"

lemma stewardship_fields:
  "w_admin (stewardship s) = get_admin s" "w_pending_admin (stewardship s) = get_pending_admin s"
  "w_token (stewardship s) = get_token s" "w_pending_token (stewardship s) = get_pending_token s"
  "w_release (stewardship s) = get_pending_token_release s"
  by (simp_all add: stewardship_def)

interpretation stewardship_view: escrow_observer stewardship
  by unfold_locales (simp_all add: stewardship_def store_defs)

interpretation stewardship_calls: call_observer stewardship
  by unfold_locales (simp_all add: stewardship_def store_defs)

lemma stewardship_ignores:
  "stewardship (set_paused b s) = stewardship s" "stewardship (set_auto_paused b s) = stewardship s"
  "stewardship (set_token_update_delay_secs n s) = stewardship s" "stewardship (set_version n s) = stewardship s"
  "stewardship (set_emergency_pause_signers xs s) = stewardship s" "stewardship (set_platform_fee n s) = stewardship s"
  "stewardship (set_max_contribution_per_transaction_value i s) = stewardship s"
  "stewardship (set_min_campaign_funding_goal i s) = stewardship s"
  "stewardship (set_max_campaign_funding_goal i s) = stewardship s"
  "stewardship (set_withdraw_release_delay_days n s) = stewardship s"
  "stewardship (set_withdraw_reserve_percentage n s) = stewardship s"
  "stewardship (set_creation_disabled b s) = stewardship s" "stewardship (set_token_allowed a b s) = stewardship s"
  "stewardship (set_category_duration_cap cat n s) = stewardship s"
  "stewardship (remove_category_duration_cap cat s) = stewardship s"
  "stewardship (set_min_votes_quorum n s) = stewardship s" "stewardship (set_approval_threshold_bps n s) = stewardship s"
  "stewardship (set_min_voting_balance i s) = stewardship s"
  "stewardship (set_category_voting_threshold_bps cat n s) = stewardship s"
  "stewardship (remove_category_voting_threshold_bps cat s) = stewardship s"
  by (simp_all add: stewardship_def store_defs)

lemma stewardship_writes:
  "stewardship (set_admin a s) = (stewardship s)\<lparr>w_admin := Some a\<rparr>"
  "stewardship (set_pending_admin a s) = (stewardship s)\<lparr>w_pending_admin := Some a\<rparr>"
  "stewardship (remove_pending_admin s) = (stewardship s)\<lparr>w_pending_admin := None\<rparr>"
  "stewardship (set_token a s) = (stewardship s)\<lparr>w_token := Some a\<rparr>"
  "stewardship (set_pending_token a s) = (stewardship s)\<lparr>w_pending_token := Some a\<rparr>"
  "stewardship (set_pending_token_release n s) = (stewardship s)\<lparr>w_release := Some n\<rparr>"
  "stewardship (remove_pending_token s) = (stewardship s)\<lparr>w_pending_token := None, w_release := None\<rparr>"
  by (simp_all add: stewardship_def store_defs)

lemma stewardship_campaign_calls:
  assumes "run_campaign_call e k s = Inr s'"
  shows "stewardship s' = stewardship s"
  using assms stewardship_calls.campaign_call_obs [OF assms]
  by (cases k)
    (auto simp: create_campaign_entry_def create_campaign_def create_campaign_with_token_entry_def
      create_campaign_with_token_def res_simps stewardship_view.obs_simps stewardship_view.obs_creator
      dest!: stewardship_view.create_campaign_inner_obs)

lemma stewardship_config_calls:
  "run_config_call e k s = Inr s' \<Longrightarrow> is_initialized s \<Longrightarrow> stewardship s' = stewardship s"
  by (cases k)
     (auto simp: init_initialized set_vesting_params_def set_token_allowed_fn_def
       set_creation_disabled_fn_def update_platform_fee_def set_max_contribution_per_transaction_def
       set_campaign_fee_override_def set_category_duration_cap_fn_def
       remove_category_duration_cap_fn_def set_min_campaign_funding_goal_fn_def
       set_max_campaign_funding_goal_fn_def set_voting_params_def set_params_def
       set_min_voting_balance_fn_def set_category_voting_threshold_def
       remove_category_voting_threshold_def Let_def res_simps stewardship_view.obs_simps stewardship_ignores
       split: if_splits)

section \<open>The administration calls\<close>

text \<open>The possible effects of an administration call on the view.\<close>

definition steward_move :: "('w, 'm) env_scheme \<Rightarrow> admin_call \<Rightarrow> 'w state \<Rightarrow> stewardship \<Rightarrow> bool" where
  "steward_move e k s v \<longleftrightarrow>
     v = stewardship s \<or>
     (\<exists>a. k = AcceptAdminTransfer \<and> get_pending_admin s = Some a \<and> e_auth e a \<and>
        v = (stewardship s)\<lparr>w_admin := Some a, w_pending_admin := None\<rparr>) \<or>
     (\<exists>a. get_admin s = Some a \<and> e_auth e a \<and>
        ((\<exists>b. b \<noteq> a \<and> v = (stewardship s)\<lparr>w_pending_admin := Some b\<rparr> \<and>
            (k = InitiateAdminTransfer a b \<or> k = UpdateAdmin b)) \<or>
         v = (stewardship s)\<lparr>w_pending_admin := None\<rparr> \<and> k = CancelAdminTransfer a \<or>
         (\<exists>tok. v = (stewardship s)\<lparr>w_pending_token := Some tok,
              w_release := Some (e_timestamp e + get_token_update_delay_secs s TOKEN_UPDATE_DELAY_SECS)\<rparr> \<and>
            k = ProposeTokenUpdate a tok \<and> h_decimals e tok (st_world s) \<noteq> None) \<or>
         v = (stewardship s)\<lparr>w_pending_token := None, w_release := None\<rparr> \<and> k = CancelTokenUpdate a \<or>
         (\<exists>tok t. get_pending_token s = Some tok \<and> get_pending_token_release s = Some t \<and> t \<le> e_timestamp e \<and>
            get_active_campaign_count s = 0 \<and> get_total_raised_global s = 0 \<and> k = AcceptTokenUpdate a \<and>
            v = (stewardship s)\<lparr>w_token := Some tok, w_pending_token := None, w_release := None\<rparr>)))"

lemma steward_moves:
  assumes "run_admin_call e k s = Inr s'"
  shows "steward_move e k s (stewardship s')"
  using assms unfolding steward_move_def
  by (cases k)
     (auto simp: pause_def unpause_def emergency_pause_def set_emergency_pause_signers_fn_def
       resume_campaign_def propose_token_update_def accept_token_update_def cancel_token_update_def
       set_token_update_delay_secs_fn_def initiate_admin_transfer_def accept_admin_transfer_def
       cancel_admin_transfer_def update_admin_def migrate_def not_less
       Let_def res_simps stewardship_view.obs_simps stewardship_ignores stewardship_writes split: option.splits)

lemma stewardship_cases:
  assumes "dispatch e k s = Inr s'" "is_initialized s"
  obtains "stewardship s' = stewardship s" | c where "k = AdminCall c" "steward_move e c s (stewardship s')"
proof (cases k)
  case (CampaignCall c)
  with assms that show ?thesis using stewardship_campaign_calls by fastforce
next
  case (FundCall c)
  with assms that show ?thesis using stewardship_calls.fund_call_obs by fastforce
next
  case (ReviewCall c)
  with assms that show ?thesis using stewardship_calls.review_call_obs by fastforce
next
  case (ConfigCall c)
  with assms that show ?thesis using stewardship_config_calls by fastforce
next
  case (AdminCall c)
  with assms that steward_moves show ?thesis by fastforce
qed

section \<open>Properties\<close>

declare One_nat_def [simp del]

text \<open>
  C33: The admin changes only by a two-step transfer. In a reachable state the only call that changes the admin is
  \<open>accept_admin_transfer\<close>, signed by the pending admin, who becomes the admin and is pending no more; and
  the only calls that name a pending admin are \<open>initiate_admin_transfer\<close> and \<open>update_admin\<close>,
  signed by the current admin, for somebody else.
\<close>

theorem admin_handover:
  assumes "reachable h now s" "dispatch e k s = Inr s'"
  shows "(get_admin s' \<noteq> get_admin s \<longrightarrow>
      (\<exists>a. k = AdminCall AcceptAdminTransfer \<and> get_pending_admin s = Some a \<and> e_auth e a \<and>
         get_admin s' = Some a \<and> get_pending_admin s' = None)) \<and>
    (\<forall>b. get_pending_admin s' = Some b \<and> get_pending_admin s \<noteq> Some b \<longrightarrow>
      (\<exists>a. get_admin s = Some a \<and> e_auth e a \<and> b \<noteq> a \<and> get_admin s' = Some a \<and>
         (k = AdminCall (InitiateAdminTransfer a b) \<or> k = AdminCall (UpdateAdmin b))))"
  using assms(2) config_okD(1) [OF reachable_config [OF assms(1)]]
proof (cases rule: stewardship_cases)
  case 1
  then show ?thesis by (simp add: stewardship_fields [symmetric])
next
  case (2 c)
  then show ?thesis
    unfolding stewardship_fields [symmetric] steward_move_def by (elim disjE exE conjE) simp_all
qed

lemma handover_history:
  "get_admin h_funded = Some (Address 0)" "get_pending_admin h_funded = None"
  by (simp_all add: history_defs eval_simps)

theorem admin_handover_witness:
  "\<exists>s1 s2. dispatch (demo_env 7000) (AdminCall (UpdateAdmin (Address 5))) h_funded = Inr s1 \<and>
     get_admin s1 = Some (Address 0) \<and>
     dispatch (demo_env 8000) (AdminCall AcceptAdminTransfer) s1 = Inr s2 \<and>
     get_admin s2 = Some (Address 5) \<and> get_pending_admin s2 = None"
proof -
  define s1 where "s1 = publish [Sym ''admin_transfer_initiated''] [Addr (Address 0), Addr (Address 5)]
    (set_pending_admin (Address 5) h_funded)"
  have d1: "dispatch (demo_env 7000) (AdminCall (UpdateAdmin (Address 5))) h_funded = Inr s1"
    by (simp add: update_admin_def initiate_admin_transfer_def admin_or_trap_def assert_admin_def
        require_auth_def handover_history s1_def)
  have a1: "get_admin s1 = Some (Address 0)" "get_pending_admin s1 = Some (Address 5)"
    using handover_history(1) by (simp_all add: s1_def store_defs)
  define s2 where "s2 = publish [Sym ''admin_updated'', Addr (Address 0)] [Addr (Address 5)]
    (remove_pending_admin (set_admin (Address 5) s1))"
  have d2: "dispatch (demo_env 8000) (AdminCall AcceptAdminTransfer) s1 = Inr s2"
    by (simp add: accept_admin_transfer_def admin_or_trap_def require_auth_def a1 s2_def)
  have a2: "get_admin s2 = Some (Address 5)" by (simp add: s2_def store_defs)
  have "reachable demo_host 7000 s1"
    using reachable_invoke [OF reachable_history(4), of 7000 "AdminCall (UpdateAdmin (Address 5))"] d1
    by (simp add: invoke_def)
  from admin_handover [OF this d2] a1 a2 have "get_pending_admin s2 = None" by simp
  with d1 d2 a1 a2 show ?thesis by blast
qed

text \<open>
  C34: The token changes only after its time lock. In a reachable state the only call that changes the
  platform token is \<open>accept_token_update\<close>, signed by the admin, to the proposed token, not before the
  release time and with no active campaign and a running total of zero; and the only call that sets a release
  time is a proposal signed by the admin of a contract that answers \<open>decimals\<close>, which sets it a
  positive delay into the future.
\<close>

theorem token_update_timelock:
  assumes "reachable h now s" "dispatch e k s = Inr s'"
  shows "(get_token s' \<noteq> get_token s \<longrightarrow>
      (\<exists>a tok t. k = AdminCall (AcceptTokenUpdate a) \<and> get_admin s = Some a \<and> e_auth e a \<and>
         get_pending_token s = Some tok \<and> get_token s' = Some tok \<and>
         get_pending_token_release s = Some t \<and> t \<le> e_timestamp e \<and>
         get_active_campaign_count s = 0 \<and> get_total_raised_global s = 0)) \<and>
    (\<forall>t. get_pending_token_release s' = Some t \<and> get_pending_token_release s \<noteq> Some t \<longrightarrow>
      (\<exists>a tok. k = AdminCall (ProposeTokenUpdate a tok) \<and> get_admin s = Some a \<and> e_auth e a \<and>
         get_pending_token s' = Some tok \<and> h_decimals e tok (st_world s) \<noteq> None \<and> e_timestamp e < t))"
proof -
  have delay: "0 < get_token_update_delay_secs s TOKEN_UPDATE_DELAY_SECS"
    using reachable_config [OF assms(1)] by (simp add: config_ok_def config_fields)
  show ?thesis
    using assms(2) config_okD(1) [OF reachable_config [OF assms(1)]]
  proof (cases rule: stewardship_cases)
    case 1
    then show ?thesis by (simp add: stewardship_fields [symmetric])
  next
    case (2 c)
    then show ?thesis using delay
      unfolding stewardship_fields [symmetric] steward_move_def by (elim disjE exE conjE) simp_all
  qed
qed

lemma deployed_tokens:
  "get_admin h_deployed = Some (Address 0)" "get_pending_token h_deployed = None"
  "get_pending_token_release h_deployed = None" "get_token h_deployed = Some (Address 1)"
  "get_token_update_delay_secs h_deployed TOKEN_UPDATE_DELAY_SECS = TOKEN_UPDATE_DELAY_SECS"
  "get_active_campaign_count h_deployed = 0" "get_total_raised_global h_deployed = 0"
  by (simp_all add: history_defs eval_simps)

theorem token_update_timelock_witness:
  "\<exists>s1 s2. dispatch (demo_env 2000) (AdminCall (ProposeTokenUpdate (Address 0) (Address 8))) h_deployed = Inr s1 \<and>
     dispatch (demo_env 1000000) (AdminCall (AcceptTokenUpdate (Address 0))) s1 = Inr s2 \<and>
     get_token s1 = Some (Address 1) \<and> get_token s2 = Some (Address 8) \<and>
     (\<exists>t. get_pending_token_release s1 = Some t \<and> 2000 < t \<and> t \<le> 1000000)"
proof -
  define s1 where "s1 = publish [Sym ''token_update_proposed''] [Addr (Address 8), U64 (2000 + TOKEN_UPDATE_DELAY_SECS)]
    (set_pending_token_release (2000 + TOKEN_UPDATE_DELAY_SECS) (set_pending_token (Address 8) h_deployed))"
  have d1: "dispatch (demo_env 2000) (AdminCall (ProposeTokenUpdate (Address 0) (Address 8))) h_deployed = Inr s1"
    by (simp add: propose_token_update_def assert_admin_def admin_or_trap_def require_auth_def probe_token_def deployed_tokens
        Let_def checked_simps s1_def) (simp add: const_defs u64_max_def)
  have r1: "get_admin s1 = Some (Address 0)" "get_token s1 = Some (Address 1)" "get_pending_token s1 = Some (Address 8)"
    "get_pending_token_release s1 = Some (2000 + TOKEN_UPDATE_DELAY_SECS)"
    "get_active_campaign_count s1 = 0" "get_total_raised_global s1 = 0"
    using deployed_tokens by (simp_all add: s1_def store_defs)
  define s2 where "s2 = publish [Sym ''token_update_accepted''] [Addr (Address 1), Addr (Address 8)]
    (remove_pending_token (set_token (Address 8) s1))"
  have d2: "dispatch (demo_env 1000000) (AdminCall (AcceptTokenUpdate (Address 0))) s1 = Inr s2"
    by (simp add: accept_token_update_def assert_admin_def admin_or_trap_def require_auth_def token_or_trap_def r1 s2_def)
      (simp add: const_defs)
  have t2: "get_token s2 = Some (Address 8)" by (simp add: s2_def store_defs)
  have reach: "reachable demo_host 2000 s1"
    using reachable_invoke [OF reachable_deployed, of 2000 "AdminCall (ProposeTokenUpdate (Address 0) (Address 8))"] d1
    by (simp add: invoke_def)
  from token_update_timelock [OF reach d2] r1 t2
  have "2000 + TOKEN_UPDATE_DELAY_SECS \<le> 1000000" by simp
  moreover from token_update_timelock [OF reachable_deployed d1] r1 deployed_tokens
  have "2000 < 2000 + TOKEN_UPDATE_DELAY_SECS" by simp
  ultimately show ?thesis using d1 d2 r1 t2 by blast
qed

end
