(* ===== verification/Till.thy ===== *)
theory Till
  imports History
begin

text \<open>
  The money side of every campaign, in one record: the \<open>till\<close> holds the token contracts, the currency of
  each campaign and its drawer (what it raised and whether that was withdrawn, its reserve, its
  revenue pool, what the creator took of the pool). \<open>liabilities\<close> sums what is owed over the
  campaigns of a currency; each funding call is shown to change the drawer of one campaign and to
  move exactly the difference.
\<close>

section \<open>The till\<close>

lemma purse_campaign_token [purse_frame]:
  "purse (set_campaign_token cid tok s) = (purse s)\<lparr>p_token := (p_token (purse s))(cid \<mapsto> tok)\<rparr>"
  by (cases "get_token s") (auto simp: purse_def store_defs fun_eq_iff)

record 'w till =
  l_world :: 'w
  l_count :: u32
  l_token :: "u32 \<Rightarrow> address option"
  l_raised :: "u32 \<Rightarrow> (bool \<times> i128) option"
  l_reserve :: "u32 \<Rightarrow> campaign_reserve option"
  l_pool :: "u32 \<Rightarrow> i128"
  l_taken :: "u32 \<Rightarrow> i128"

definition raised_view :: "campaign \<Rightarrow> bool \<times> i128" where
  "raised_view c = (c_funds_withdrawn c, c_effective_amount_raised c)"

definition till_of :: "core \<Rightarrow> 'w purse \<Rightarrow> 'w till" where
  "till_of k p =
    \<lparr>l_world = p_world p, l_count = k_count k, l_token = p_token p,
     l_raised = (\<lambda>cid. map_option raised_view (k_camp k cid)),
     l_reserve = p_reserve p, l_pool = p_pool p, l_taken = p_creator_claimed p\<rparr>"

definition till :: "'w state \<Rightarrow> 'w till" where
  "till s = till_of (core s) (purse s)"

lemma till_fields:
  "l_world (till s) = st_world s" "l_count (till s) = get_campaign_count s"
  "l_token (till s) = get_campaign_token s"
  "l_raised (till s) cid = map_option raised_view (get_campaign s cid)"
  "l_reserve (till s) = get_campaign_reserve s" "l_pool (till s) = get_revenue_pool s"
  "l_taken (till s) = get_creator_revenue_claimed s"
  by (simp_all add: till_def till_of_def purse_fields core_fields)

lemmas till_frame = till_def till_of_def purse_frame core_frame

section \<open>Calls that leave the till alone\<close>

lemma update_till:
  "update_campaign e cid t d s = Inr s' \<Longrightarrow> till s' = till s"
  "update_campaign_description e cid d s = Inr s' \<Longrightarrow> till s' = till s"
  "extend_campaign_deadline e cid days s = Inr s' \<Longrightarrow> till s' = till s"
  by (auto simp: update_campaign_def update_campaign_description_def extend_campaign_deadline_def Let_def
      res_simps till_frame raised_view_def fun_eq_iff)

lemma creator_index_purse:
  "remove_from_creator_index a cid s = Inr s' \<Longrightarrow> purse s' = purse s"
  "add_to_creator_index a cid s = Inr s' \<Longrightarrow> purse s' = purse s"
  by (auto simp: remove_from_creator_index_def add_to_creator_index_def Let_def res_simps purse_frame)

lemma ownership_till:
  "initiate_campaign_transfer e cid a s = Inr s' \<Longrightarrow> till s' = till s"
  "accept_campaign_transfer e cid s = Inr s' \<Longrightarrow> till s' = till s"
  "cancel_campaign_transfer e cid s = Inr s' \<Longrightarrow> till s' = till s"
  subgoal
    by (auto simp: initiate_campaign_transfer_def Let_def res_simps till_frame raised_view_def fun_eq_iff)
  subgoal
    by (simp only: accept_campaign_transfer_def Let_def res_simps, clarify,
        frule creator_index_core(1), frule creator_index_core(2), drule creator_index_purse(1),
        drule creator_index_purse(2))
      (simp add: till_frame raised_view_def fun_eq_iff)
  by (auto simp: cancel_campaign_transfer_def Let_def res_simps till_frame raised_view_def fun_eq_iff)

lemma milestone_plan_till:
  "set_milestones e cid ms s = Inr s' \<Longrightarrow> till s' = till s"
  "verify_milestone e a cid mid s = Inr s' \<Longrightarrow> till s' = till s"
  by (auto simp: set_milestones_def verify_milestone_def Let_def res_simps till_frame)

lemma personal_cap_till:
  "set_personal_cap_fn e cid a i s = Inr s' \<Longrightarrow> till s' = till s"
  "remove_personal_cap_fn e cid a s = Inr s' \<Longrightarrow> till s' = till s"
  by (auto simp: set_personal_cap_fn_def remove_personal_cap_fn_def Let_def res_simps till_frame)


interpretation till_reviews: review_observer till
  by unfold_locales (auto simp: till_frame raised_view_def fun_eq_iff)

interpretation till_settings: settings_observer till
  by unfold_locales (auto simp: till_frame raised_view_def fun_eq_iff)

lemma accept_token_till:
  "accept_token_update e a s = Inr s' \<Longrightarrow> till s' = (till s)\<lparr>l_token := l_token (till s')\<rparr>"
  by (auto simp: accept_token_update_def Let_def res_simps till_fields fun_eq_iff till_def till_of_def
    store_defs purse_def core_def split: option.splits)

section \<open>What is owed\<close>

text \<open>The drawer of a campaign: what it raised (and whether that was withdrawn), reserve, pool, creator's part.\<close>

type_synonym drawer = "(bool \<times> i128) option \<times> campaign_reserve option \<times> i128 \<times> i128"

definition drawer :: "'w till \<Rightarrow> u32 \<Rightarrow> drawer" where
  "drawer t cid = (l_raised t cid, l_reserve t cid, l_pool t cid, l_taken t cid)"

fun due :: "drawer \<Rightarrow> i128" where
  "due (raised, reserve, pool, taken) =
    (case raised of None \<Rightarrow> 0 | Some r \<Rightarrow> if fst r then 0 else snd r) +
    (case reserve of None \<Rightarrow> 0 | Some r \<Rightarrow> if r_released r then 0 else r_amount r) +
    (pool - taken)"

definition owed :: "'w till \<Rightarrow> u32 \<Rightarrow> i128" where
  "owed t cid = due (drawer t cid)"

lemma drawer_ignores: "drawer (t\<lparr>l_world := w\<rparr>) = drawer t" "drawer (t\<lparr>l_token := m\<rparr>) = drawer t"
  by (simp_all add: drawer_def fun_eq_iff)

lemma drawer_upd:
  assumes "\<And>i. i \<noteq> cid \<Longrightarrow> drawer t' i = drawer t i"
  shows "drawer t' = (drawer t)(cid := drawer t' cid)"
  using assms by (auto simp: fun_eq_iff)

definition liabilities :: "'w till \<Rightarrow> address \<Rightarrow> i128" where
  "liabilities t tok = (\<Sum>cid \<in> {1..l_count t}. if l_token t cid = Some tok then owed t cid else 0)"

lemma liabilities_cong:
  "l_count t' = l_count t \<Longrightarrow> l_token t' = l_token t \<Longrightarrow> drawer t' = drawer t \<Longrightarrow> liabilities t' = liabilities t"
  by (rule ext) (simp add: liabilities_def owed_def cong: if_cong)

lemma liabilities_upd:
  assumes "l_count t' = l_count t" "l_token t' = l_token t" "drawer t' = (drawer t)(cid := d)"
    and "1 \<le> cid" "cid \<le> l_count t"
  shows "liabilities t' tok = liabilities t tok + (if l_token t cid = Some tok then due d - owed t cid else 0)"
proof -
  let ?f = "\<lambda>t i. if l_token t i = Some tok then owed t i else 0"
  have rest: "sum (?f t') ({1..l_count t} - {cid}) = sum (?f t) ({1..l_count t} - {cid})"
    using assms(2, 3) by (intro sum.cong) (auto simp: owed_def)
  have "liabilities t' tok = ?f t' cid + sum (?f t') ({1..l_count t} - {cid})"
    unfolding liabilities_def assms(1) using assms(4, 5) by (intro sum.remove) auto
  moreover have "liabilities t tok = ?f t cid + sum (?f t) ({1..l_count t} - {cid})"
    unfolding liabilities_def using assms(4, 5) by (intro sum.remove) auto
  ultimately show ?thesis using rest assms(2, 3) by (simp add: owed_def)
qed

section \<open>Tokens that keep their books\<close>

definition balance_of :: "('w, 'm) host_scheme \<Rightarrow> address \<Rightarrow> address \<Rightarrow> 'w \<Rightarrow> i128" where
  "balance_of h tok a w = (case h_balance h tok a w of None \<Rightarrow> 0 | Some b \<Rightarrow> b)"

text \<open>
  The documented behaviour of \<open>transfer\<close> in the token interface: it takes the amount from one
  account and adds it to the other, and touches no other account and no other token.
\<close>

definition keeps_books :: "('w, 'm) host_scheme \<Rightarrow> bool" where
  "keeps_books h \<longleftrightarrow>
     (\<forall>tok frm to amt w w'. h_transfer h tok frm to amt w = Some w' \<longrightarrow>
        (\<forall>t a. balance_of h t a w' = balance_of h t a w
           + (if t = tok \<and> a = to then amt else 0) - (if t = tok \<and> a = frm then amt else 0)))"

lemma keeps_booksD:
  assumes "keeps_books h" "h_transfer h tok frm to amt w = Some w'"
  shows "balance_of h t a w' = balance_of h t a w
    + (if t = tok \<and> a = to then amt else 0) - (if t = tok \<and> a = frm then amt else 0)"
  using assms unfolding keeps_books_def by blast

lemma paid_out:
  assumes "keeps_books h" "h_transfer h tok (h_self h) to amt w = Some w'" "0 \<le> amt"
  shows "balance_of h t (h_self h) w - (if t = tok then amt else 0) \<le> balance_of h t (h_self h) w'"
  using keeps_booksD [OF assms(1, 2), of t "h_self h"] assms(3) by (auto split: if_splits)

lemma paid_in:
  assumes "keeps_books h" "h_transfer h tok frm (h_self h) amt w = Some w'" "frm \<noteq> h_self h"
  shows "balance_of h t (h_self h) w' = balance_of h t (h_self h) w + (if t = tok then amt else 0)"
  using keeps_booksD [OF assms(1, 2), of t "h_self h"] assms(3) by (auto split: if_splits)

definition covered :: "('w, 'm) host_scheme \<Rightarrow> 'w till \<Rightarrow> bool" where
  "covered h t \<longleftrightarrow> (\<forall>tok. liabilities t tok \<le> balance_of h tok (h_self h) (l_world t))"

text \<open>A call on one campaign keeps the balance if it pays in what the campaign's entry grows by.\<close>

lemma covered_upd:
  assumes "covered h t" "l_count t' = l_count t" "l_token t' = l_token t" "drawer t' = (drawer t)(cid := d)"
    and "1 \<le> cid" "cid \<le> l_count t" "l_token t cid = Some tok"
    and "\<And>tk. balance_of h tk (h_self h) (l_world t) + (if tk = tok then due d - owed t cid else 0)
           \<le> balance_of h tk (h_self h) (l_world t')"
  shows "covered h t'"
  unfolding covered_def
proof
  fix tk
  have "liabilities t tk \<le> balance_of h tk (h_self h) (l_world t)" using assms(1) by (simp add: covered_def)
  then show "liabilities t' tk \<le> balance_of h tk (h_self h) (l_world t')"
    using assms(8) [of tk] liabilities_upd [OF assms(2-6), of tk] assms(7) by (auto split: if_splits)
qed

section \<open>The drawers of a campaign\<close>

text \<open>
  In every reachable state: a campaign that does not exist holds nothing, one not yet withdrawn holds
  neither a reserve nor a pool, the creator never took more than the pool, and no entry is negative.
\<close>

fun drawer_ok :: "drawer \<Rightarrow> bool" where
  "drawer_ok (raised, reserve, pool, taken) \<longleftrightarrow>
     0 \<le> taken \<and> taken \<le> pool \<and>
     (\<forall>r. reserve = Some r \<longrightarrow> 0 \<le> r_amount r) \<and>
     ((\<forall>n. raised \<noteq> Some (True, n)) \<longrightarrow> pool = 0 \<and> reserve = None)"

definition drawers_ok :: "'w till \<Rightarrow> bool" where
  "drawers_ok t \<longleftrightarrow> (\<forall>cid. drawer_ok (drawer t cid))"

lemma drawers_ok_upd: "drawers_ok t \<Longrightarrow> drawer t' = (drawer t)(cid := d) \<Longrightarrow> drawer_ok d \<Longrightarrow> drawers_ok t'"
  by (simp add: drawers_ok_def)

lemma drawers_okD:
  assumes "drawers_ok t"
  shows "0 \<le> l_taken t cid" "l_taken t cid \<le> l_pool t cid" "l_reserve t cid = Some r \<Longrightarrow> 0 \<le> r_amount r"
    "(\<And>n. l_raised t cid \<noteq> Some (True, n)) \<Longrightarrow> l_pool t cid = 0 \<and> l_reserve t cid = None \<and> l_taken t cid = 0"
  using assms [unfolded drawers_ok_def, rule_format, of cid] by (auto simp: drawer_def)

section \<open>What each funding call does to the till\<close>

lemma live_raised:
  assumes "core_inv now (core s)" "get_campaign s cid = Some c" "c_is_active c \<or> refundable now c"
  shows "l_raised (till s) cid = Some (False, c_effective_amount_raised c)" "1 \<le> cid" "cid \<le> l_count (till s)"
proof -
  have c: "flags_ok c" "1 \<le> cid" "cid \<le> get_campaign_count s"
    using core_invD [OF assms(1), of cid c] assms(2) by (simp_all add: core_fields)
  with assms(3) have "\<not> c_funds_withdrawn c" by (auto simp: flags_ok_def refundable_def)
  with assms(2) c show "l_raised (till s) cid = Some (False, c_effective_amount_raised c)" "1 \<le> cid" "cid \<le> l_count (till s)"
    by (simp_all add: till_fields raised_view_def)
qed

lemma apply_contribution_till:
  assumes "apply_contribution e cid who amt s = Inr s'" "core_inv (e_timestamp e) (core s)"
  obtains n where "l_raised (till s) cid = Some (False, n)" "1 \<le> cid" "cid \<le> l_count (till s)"
    "till s' = (till s)\<lparr>l_raised := (l_raised (till s))(cid \<mapsto> (False, n + amt))\<rparr>"
proof -
  from apply_contribution_core [OF assms(1)] obtain c where c: "get_campaign s cid = Some c"
    "open_for (e_timestamp e) (core s) cid c who amt" "core s' = k_contribute cid c who amt (core s)" .
  from apply_contribution_purse [OF assms(1)] obtain fee where
    p: "purse s' = (purse s)\<lparr>p_total := get_total_raised_global s + amt, p_fee_to := fee\<rparr>" .
  have live: "c_is_active c \<or> refundable (e_timestamp e) c" using c(2) by (simp add: open_for_def)
  note r = live_raised [OF assms(2) c(1) live]
  have "till s' = (till s)\<lparr>l_raised := (l_raised (till s))(cid \<mapsto> (False, c_effective_amount_raised c + amt))\<rparr>"
    using r(1) c(1) unfolding till_def till_of_def c(3) p
    by (auto simp: k_contribute_def raised_view_def core_fields fun_eq_iff)
  with r that show thesis by blast
qed

lemma contribute_till:
  assumes "contribute e cid who amt s = Inr s'" "core_inv (e_timestamp e) (core s)"
  obtains n tok where "l_raised (till s) cid = Some (False, n)" "1 \<le> cid" "cid \<le> l_count (till s)"
    "l_token (till s) cid = Some tok" "e_auth e who"
    "h_transfer e tok who (h_self e) amt (l_world (till s)) = Some (l_world (till s'))"
    "till s' = (till s)\<lparr>l_world := l_world (till s'), l_raised := (l_raised (till s))(cid \<mapsto> (False, n + amt))\<rparr>"
proof -
  from contribute_purse [OF assms(1)] obtain s1 tok w fee where
    s1: "apply_contribution e cid who amt s = Inr s1" and k: "e_auth e who" "get_campaign_token s cid = Some tok"
    "h_transfer e tok who (h_self e) amt (st_world s) = Some w" "core s' = core s1"
    "purse s' = (purse s)\<lparr>p_world := w, p_total := get_total_raised_global s + amt, p_fee_to := fee\<rparr>" by metis
  from apply_contribution_till [OF s1 assms(2)] obtain n where
    n: "l_raised (till s) cid = Some (False, n)" "1 \<le> cid" "cid \<le> l_count (till s)"
    "till s1 = (till s)\<lparr>l_raised := (l_raised (till s))(cid \<mapsto> (False, n + amt))\<rparr>" .
  from n(4) have "l_raised (till s1) = (l_raised (till s))(cid \<mapsto> (False, n + amt))"
    "l_count (till s1) = l_count (till s)" by simp_all
  then have "till s' = (till s)\<lparr>l_world := w, l_raised := (l_raised (till s))(cid \<mapsto> (False, n + amt))\<rparr>"
    using k(4, 5) by (simp add: till_def till_of_def)
  moreover from this have "l_world (till s') = w" by simp
  ultimately show thesis using that [OF n(1-3) _ k(1)] k(2, 3) by (simp add: till_fields)
qed

lemma claim_refund_till:
  assumes "claim_refund e cid who s = Inr s'" "core_inv (e_timestamp e) (core s)"
  obtains n x tok where "l_raised (till s) cid = Some (False, n)" "1 \<le> cid" "cid \<le> l_count (till s)" "0 \<le> x"
    "l_token (till s) cid = Some tok"
    "h_transfer e tok (h_self e) who x (l_world (till s)) = Some (l_world (till s'))"
    "till s' = (till s)\<lparr>l_world := l_world (till s'), l_raised := (l_raised (till s))(cid \<mapsto> (False, n - x))\<rparr>"
proof -
  let ?x = "get_contribution s cid who"
  from claim_refund_purse [OF assms(1)] obtain c tok w where c: "get_campaign s cid = Some c"
    "refundable (e_timestamp e) c" "get_campaign_token s cid = Some tok"
    "h_transfer e tok (h_self e) who ?x (st_world s) = Some w"
    "core s' = k_refund cid c who (core s)"
    and p: "purse s' = (purse s)\<lparr>p_world := w,
       p_total := (if c_is_cancelled c then get_total_raised_global s else get_total_raised_global s - ?x),
       p_claimed := (get_revenue_claimed s)(cid := (get_revenue_claimed s cid)(who := 0))\<rparr>" by metis
  note r = live_raised [OF assms(2) c(1) disjI2 [OF c(2)]]
  have "0 \<le> ?x" using core_invD(4) [OF assms(2), of cid c] books_okD(3) c(1) by (auto simp: core_fields)
  have eq: "till s' = (till s)\<lparr>l_world := w, l_raised := (l_raised (till s))(cid \<mapsto> (False, c_effective_amount_raised c - ?x))\<rparr>"
    using r(1) c(1) unfolding till_def till_of_def c(5) p
    by (auto simp: k_refund_def raised_view_def core_fields fun_eq_iff)
  then have "l_world (till s') = w" by simp
  with eq that [OF r \<open>0 \<le> ?x\<close>] c(3, 4) show thesis by (simp add: till_fields)
qed

lemma withdraw_funds_drawers:
  assumes "withdraw_funds e cid s = Inr s'"
  shows "p_token (purse s') = p_token (purse s) \<and> p_pool (purse s') = p_pool (purse s) \<and>
    p_creator_claimed (purse s') = p_creator_claimed (purse s)"
  using assms
  apply (simp only: withdraw_funds_def Let_def res_simps not_not)
  apply clarify
  apply (drule hold_reserve_eq)
  apply (simp add: purse_frame)
  done

lemma withdraw_funds_till:
  assumes "withdraw_funds e cid s = Inr s'" "core_inv (e_timestamp e) (core s)" "config_ok (config s)"
    and vest: "\<forall>v. get_campaign_vesting s cid = Some v \<longrightarrow> snd v \<le> BPS_DENOMINATOR"
  obtains n fee reserve pay tok to who w where "l_raised (till s) cid = Some (False, n)" "1 \<le> cid" "cid \<le> l_count (till s)"
    "0 \<le> fee" "0 \<le> reserve" "0 \<le> pay" "n = fee + reserve + pay" "l_token (till s) cid = Some tok"
    "h_transfer e tok (h_self e) to fee (l_world (till s)) = Some w"
    "h_transfer e tok (h_self e) who pay w = Some (l_world (till s'))"
    "l_raised (till s') = (l_raised (till s))(cid \<mapsto> (True, n))" "l_count (till s') = l_count (till s)"
    "l_token (till s') = l_token (till s)" "l_pool (till s') = l_pool (till s)" "l_taken (till s') = l_taken (till s)"
    "if 0 < reserve then \<exists>t. l_reserve (till s') = (l_reserve (till s))(cid \<mapsto>
       \<lparr>r_amount = reserve, r_release_timestamp = t, r_released = False\<rparr>) else l_reserve (till s') = l_reserve (till s)"
proof -
  from withdraw_funds_core [OF assms(1)] obtain c where c: "get_campaign s cid = Some c"
    "c_is_verified c" "\<not> c_is_cancelled c" "\<not> c_funds_withdrawn c" "core s' = k_withdraw cid c (core s)" .
  note inv = core_invD [OF assms(2), of cid c, unfolded core_fields, OF c(1)]
  have "c_is_active c" using inv(2) c(3, 4) by (simp add: flags_ok_def)
  note r = live_raised [OF assms(2) c(1) disjI1 [OF this]]
  let ?eff = "c_effective_amount_raised c"
  from withdraw_funds_purse [OF assms(1) c(1)] obtain fee reserve tok to w where
    fee: "ceil_bps ?eff (effective_platform_fee c s) = Inr fee"
    and res: "ceil_bps (?eff - fee) (snd (vesting_params cid s)) = Inr reserve"
    and tok: "get_campaign_token s cid = Some tok" "h_transfer e tok (h_self e) to fee (st_world s) = Some w"
    "h_transfer e tok (h_self e) (c_creator c) (?eff - fee - reserve) w = Some (st_world s')"
    and held: "get_campaign_reserve s' = (if 0 < reserve then (get_campaign_reserve s)(cid \<mapsto>
       \<lparr>r_amount = reserve, r_release_timestamp = e_timestamp e + fst (vesting_params cid s) * SECONDS_PER_DAY,
        r_released = False\<rparr>) else get_campaign_reserve s)" by metis
  have "effective_platform_fee c s \<le> BPS_DENOMINATOR"
    using inv(3) config_okD(5) [OF assms(3)]
    by (auto simp: effective_platform_fee_def terms_ok_def BPS_DENOMINATOR_def split: option.splits)
  from ceil_bps_bounds [OF fee _ this] books_ok_bounds(1) [OF inv(4)] have f: "0 \<le> fee" "fee \<le> ?eff" by simp_all
  have "snd (vesting_params cid s) \<le> BPS_DENOMINATOR"
    using vest config_okD(8) [OF assms(3)] by (auto simp: vesting_params_def BPS_DENOMINATOR_def split: option.splits)
  from ceil_bps_bounds [OF res _ this] f have "0 \<le> reserve" "0 \<le> ?eff - fee - reserve" by simp_all
  moreover have "l_raised (till s') = (l_raised (till s))(cid \<mapsto> (True, ?eff))" "l_count (till s') = l_count (till s)"
    using c(1) by (auto simp: till_def till_of_def c(5) k_withdraw_def raised_view_def fun_eq_iff core_fields)
  moreover have "l_token (till s') = l_token (till s) \<and> l_pool (till s') = l_pool (till s) \<and> l_taken (till s') = l_taken (till s)"
    using assms(1) withdraw_funds_drawers by (simp add: till_def till_of_def)
  moreover have "if 0 < reserve then \<exists>t. l_reserve (till s') = (l_reserve (till s))(cid \<mapsto>
       \<lparr>r_amount = reserve, r_release_timestamp = t, r_released = False\<rparr>) else l_reserve (till s') = l_reserve (till s)"
    unfolding till_fields held by auto
  ultimately show thesis
    using that [OF r f(1), of reserve "?eff - fee - reserve" tok to w "c_creator c"] tok by (simp add: till_fields(1, 3))
qed

lemma withdraw_reserve_till:
  assumes "withdraw_reserve e cid s = Inr s'"
  obtains r tok to where "get_campaign s cid \<noteq> None" "l_reserve (till s) cid = Some r" "\<not> r_released r"
    "l_token (till s) cid = Some tok"
    "h_transfer e tok (h_self e) to (r_amount r) (l_world (till s)) = Some (l_world (till s'))"
    "till s' = (till s)\<lparr>l_world := l_world (till s'), l_reserve := (l_reserve (till s))(cid \<mapsto> r\<lparr>r_released := True\<rparr>)\<rparr>"
proof -
  have "\<exists>r tok to. get_campaign s cid \<noteq> None \<and> l_reserve (till s) cid = Some r \<and> \<not> r_released r \<and>
    l_token (till s) cid = Some tok \<and>
    h_transfer e tok (h_self e) to (r_amount r) (l_world (till s)) = Some (l_world (till s')) \<and>
    till s' = (till s)\<lparr>l_world := l_world (till s'), l_reserve := (l_reserve (till s))(cid \<mapsto> r\<lparr>r_released := True\<rparr>)\<rparr>"
    using assms
    by (simp only: withdraw_reserve_def Let_def res_simps not_not not_less purse_reads, clarify)
      (auto simp: till_frame)
  with that show thesis by blast
qed

lemma deposit_revenue_till:
  assumes "deposit_revenue e cid amt s = Inr s'"
  obtains c tok frm where "get_campaign s cid = Some c" "c_funds_withdrawn c" "0 < amt" "e_auth e frm"
    "l_token (till s) cid = Some tok"
    "h_transfer e tok frm (h_self e) amt (l_world (till s)) = Some (l_world (till s'))"
    "till s' = (till s)\<lparr>l_world := l_world (till s'), l_pool := (l_pool (till s))(cid := l_pool (till s) cid + amt)\<rparr>"
proof -
  have "\<exists>c tok frm. get_campaign s cid = Some c \<and> c_funds_withdrawn c \<and> 0 < amt \<and> e_auth e frm \<and>
    l_token (till s) cid = Some tok \<and>
    h_transfer e tok frm (h_self e) amt (l_world (till s)) = Some (l_world (till s')) \<and>
    till s' = (till s)\<lparr>l_world := l_world (till s'), l_pool := (l_pool (till s))(cid := l_pool (till s) cid + amt)\<rparr>"
    using assms
    by (simp only: deposit_revenue_def Let_def res_simps not_not not_less not_le purse_reads, clarify)
      (auto simp: till_frame)
  with that show thesis by blast
qed

lemma claim_creator_revenue_till:
  assumes "claim_creator_revenue e cid s = Inr s'"
  obtains c tok to share x where "get_campaign s cid = Some c" "0 < x" "c_revenue_share_percentage c \<le> BPS_DENOMINATOR"
    "creator_share (l_pool (till s) cid) (c_revenue_share_percentage c) = Inr share"
    "x = share - l_taken (till s) cid" "l_token (till s) cid = Some tok"
    "h_transfer e tok (h_self e) to x (l_world (till s)) = Some (l_world (till s'))"
    "till s' = (till s)\<lparr>l_world := l_world (till s'), l_taken := (l_taken (till s))(cid := share)\<rparr>"
proof -
  have "\<exists>c tok to share x. get_campaign s cid = Some c \<and> 0 < x \<and> c_revenue_share_percentage c \<le> BPS_DENOMINATOR \<and>
    creator_share (l_pool (till s) cid) (c_revenue_share_percentage c) = Inr share \<and>
    x = share - l_taken (till s) cid \<and> l_token (till s) cid = Some tok \<and>
    h_transfer e tok (h_self e) to x (l_world (till s)) = Some (l_world (till s')) \<and>
    till s' = (till s)\<lparr>l_world := l_world (till s'), l_taken := (l_taken (till s))(cid := share)\<rparr>"
    using assms
    by (simp only: claim_creator_revenue_def Let_def res_simps not_not not_less not_le purse_reads, clarify)
      (auto simp: till_frame)
  with that show thesis by blast
qed

lemma claim_revenue_till:
  "claim_revenue e cid who s = Inr s' \<Longrightarrow> till s' = (till s)\<lparr>l_world := l_world (till s')\<rparr>"
  by (simp only: claim_revenue_def Let_def res_simps, safe) (simp_all add: till_frame)

lemma claim_milestone_drawer_fields:
  assumes "claim_milestone e cid mid s = Inr s'"
  shows "p_reserve (purse s') = p_reserve (purse s) \<and> p_pool (purse s') = p_pool (purse s) \<and>
    p_creator_claimed (purse s') = p_creator_claimed (purse s) \<and> p_token (purse s') = p_token (purse s)"
  using assms
  apply (simp only: claim_milestone_def Let_def res_simps not_not)
  apply clarify
  apply (auto simp: purse_frame split: if_splits)
  done

lemma claim_milestone_till:
  assumes "claim_milestone e cid mid s = Inr s'"
  obtains n r where "l_raised (till s) cid = Some (False, n)"
    "l_raised (till s') = (l_raised (till s))(cid \<mapsto> r)" "l_reserve (till s') = l_reserve (till s)"
    "l_pool (till s') = l_pool (till s)" "l_taken (till s') = l_taken (till s)"
proof -
  from claim_milestone_core [OF assms] obtain c where c: "get_campaign s cid = Some c" "\<not> c_funds_withdrawn c"
    "core s' = core s \<or> core s' = k_withdraw cid c (core s)" .
  note claim_milestone_drawer_fields [OF assms]
  then have same: "l_reserve (till s') = l_reserve (till s)" "l_pool (till s') = l_pool (till s)"
    "l_taken (till s') = l_taken (till s)" by (simp_all add: till_def till_of_def)
  have r: "l_raised (till s) cid = Some (False, c_effective_amount_raised c)"
    using c(1, 2) by (simp add: till_fields raised_view_def)
  from c(3) have "\<exists>r. l_raised (till s') = (l_raised (till s))(cid \<mapsto> r)"
  proof
    assume "core s' = core s"
    then have "l_raised (till s') = l_raised (till s)" by (simp add: till_def till_of_def)
    with r show ?thesis by (metis fun_upd_triv)
  next
    assume "core s' = k_withdraw cid c (core s)"
    then show ?thesis by (auto simp: till_def till_of_def k_withdraw_def fun_eq_iff)
  qed
  with that r same show thesis by blast
qed

lemma cancel_campaign_till:
  assumes "cancel_campaign e cid s = Inr s'" "drawers_ok (till s)"
  shows "till s' = till s"
proof -
  from cancel_campaign_core [OF assms(1)] obtain c where c: "get_campaign s cid = Some c" "\<not> c_funds_withdrawn c"
    "core s' = k_cancel cid c (core s)" .
  have "l_raised (till s) cid \<noteq> Some (True, n)" for n using c(1, 2) by (simp add: till_fields raised_view_def)
  then have "get_revenue_pool s cid = 0" using drawers_okD(4) [OF assms(2), of cid] by (simp add: till_fields)
  with assms(1) have "purse s' = (purse s)\<lparr>p_total := p_total (purse s')\<rparr>"
    apply (simp only: cancel_campaign_def Let_def res_simps)
    apply clarify
    apply (drule deduct_close_purse)+
    apply (simp add: purse_frame)
    done
  then show ?thesis using c(1) by (cases "purse s'", cases "purse s") (auto simp: till_def till_of_def c(3) k_cancel_def raised_view_def core_fields fun_eq_iff)
qed

lemma admin_cancel_campaign_till:
  assumes "admin_cancel_campaign e a cid reason s = Inr s'"
  shows "till s' = till s"
proof -
  from admin_cancel_campaign_core [OF assms(1)] obtain c where c: "get_campaign s cid = Some c"
    "core s' = k_cancel cid c (core s)" .
  from assms have "purse s' = (purse s)\<lparr>p_total := p_total (purse s')\<rparr>"
    apply (simp only: admin_cancel_campaign_def Let_def res_simps)
    apply clarify
    apply (drule deduct_close_purse)+
    apply (simp add: purse_frame)
    done
  then show ?thesis using c(1) by (cases "purse s'", cases "purse s") (auto simp: till_def till_of_def c(2) k_cancel_def raised_view_def core_fields fun_eq_iff)
qed

lemma vesting_frame:
  "get_campaign_vesting (publish tp v s) = get_campaign_vesting s"
  "get_campaign_vesting (set_category_campaign_count cat i s) = get_campaign_vesting s"
  "get_campaign_vesting (set_category_campaign_bucket cat b xs s) = get_campaign_vesting s"
  "get_campaign_vesting (set_creator_campaign_count a i s) = get_campaign_vesting s"
  "get_campaign_vesting (set_creator_campaign_bucket a b xs s) = get_campaign_vesting s"
  "get_campaign_vesting (set_creator_campaign_position a cid b i s) = get_campaign_vesting s"
  "get_campaign_vesting (set_creator_title_index a h cid s) = get_campaign_vesting s"
  "get_campaign_vesting (set_campaign_creator_index cid a s) = get_campaign_vesting s"
  by (simp_all add: store_defs fun_eq_iff)

lemma create_inner_till:
  assumes "create_campaign_inner e p tok s = Inr (n, s')"
  shows "n = l_count (till s) + 1" "l_world (till s') = l_world (till s)" "l_count (till s') = n"
    "l_raised (till s') = (l_raised (till s))(n \<mapsto> (False, 0))" "l_reserve (till s') = l_reserve (till s)"
    "l_pool (till s') = (l_pool (till s))(n := 0)" "l_taken (till s') = l_taken (till s)"
    "cid \<noteq> n \<Longrightarrow> l_token (till s') cid = l_token (till s) cid"
    "get_campaign_vesting s' = (get_campaign_vesting s)
       (n \<mapsto> (get_withdraw_release_delay_days s, get_withdraw_reserve_percentage s))"
proof -
  from create_campaign_inner_writes [OF assms] obtain share h pinned s1 s2 where n: "n = get_campaign_count s + 1"
    and a: "append_category_index (p_category p) n
       (opened e n (new_campaign p n share (e_timestamp e + p_duration_days p * SECONDS_PER_DAY)) pinned s) = Inr s1"
      "append_creator_index (p_creator p) n s1 = Inr s2"
    and s': "s' = publish [Sym ''campaign_created'', U32 n, Addr (p_creator p)]
        [Str (p_title p), U32 (category_code (p_category p))]
        (set_creator_title_index (p_creator p) h n (set_campaign_creator_index n (p_creator p) s2))" by metis
  let ?o = "opened e n (new_campaign p n share (e_timestamp e + p_duration_days p * SECONDS_PER_DAY)) pinned s"
  have t: "till s' = till ?o" "get_campaign_vesting s' = get_campaign_vesting ?o"
    using a unfolding s' append_category_index_ok append_creator_index_ok
    by (elim conjE, hypsubst, simp add: till_frame vesting_frame)+
  have "l_world (till ?o) = l_world (till s)" "l_count (till ?o) = n"
    "l_raised (till ?o) = (l_raised (till s))(n \<mapsto> (False, 0))" "l_reserve (till ?o) = l_reserve (till s)"
    "l_pool (till ?o) = (l_pool (till s))(n := 0)" "l_taken (till ?o) = l_taken (till s)"
    by (auto simp: opened_def Let_def till_frame raised_view_def new_campaign_def fun_eq_iff split: option.split)
  then show "n = l_count (till s) + 1" "l_world (till s') = l_world (till s)" "l_count (till s') = n"
    "l_raised (till s') = (l_raised (till s))(n \<mapsto> (False, 0))" "l_reserve (till s') = l_reserve (till s)"
    "l_pool (till s') = (l_pool (till s))(n := 0)" "l_taken (till s') = l_taken (till s)"
    by (simp_all add: t n till_fields)
  show "l_token (till s') cid = l_token (till s) cid" if "cid \<noteq> n"
    using that unfolding t
    by (auto simp: opened_def Let_def till_fields get_campaign_token_def store_defs split: option.split)
  show "get_campaign_vesting s' = (get_campaign_vesting s)
       (n \<mapsto> (get_withdraw_release_delay_days s, get_withdraw_reserve_percentage s))"
    unfolding t by (auto simp: opened_def Let_def store_defs fun_eq_iff split: option.split)
qed

lemma create_till:
  assumes "run_campaign_call e k s = Inr s'" "k = CreateCampaign p \<or> k = CreateCampaignWithToken p tok"
  obtains n opt s1 where "create_campaign_inner e p opt s = Inr (n, s1)" "till s' = till s1"
    "get_campaign_vesting s' = get_campaign_vesting s1"
proof -
  from assms obtain n opt s1 where "create_campaign_inner e p opt s = Inr (n, s1)"
    and inc: "increment_active_campaign_count s1 = Inr s'"
    by (auto simp: create_campaign_entry_def create_campaign_def create_campaign_with_token_entry_def
        create_campaign_with_token_def res_simps)
  moreover have "till s' = till s1" using purse_increments(2) [OF inc] inc
    by (auto simp: till_def till_of_def increment_active_campaign_count_def Let_def res_simps core_frame)
  moreover have "get_campaign_vesting s' = get_campaign_vesting s1"
    using inc by (auto simp: increment_active_campaign_count_def Let_def res_simps store_defs fun_eq_iff)
  ultimately show thesis using that by blast
qed

section \<open>The drawers stay in order\<close>

interpretation vesting_calls: fund_call_observer get_campaign_vesting
  by unfold_locales (simp_all add: store_defs fun_eq_iff)

interpretation vesting_settings: config_observer get_campaign_vesting
  by unfold_locales (simp_all add: store_defs fun_eq_iff)

definition vesting_ok :: "'w state \<Rightarrow> bool" where
  "vesting_ok s \<longleftrightarrow> (\<forall>cid v. get_campaign_vesting s cid = Some v \<longrightarrow> fst v \<le> 365 \<and> snd v \<le> BPS_DENOMINATOR)"

lemma vesting_call:
  assumes "dispatch e k s = Inr s'" "config_ok (config s)" "vesting_ok s"
  shows "vesting_ok s'"
proof (cases k)
  case (CampaignCall c)
  with assms(1) have run: "run_campaign_call e c s = Inr s'" by simp
  consider p tok where "c = CreateCampaign p \<or> c = CreateCampaignWithToken p tok"
    | cid where "c = AcceptCampaignTransfer cid"
    | "\<And>p. c \<noteq> CreateCampaign p" "\<And>p tok. c \<noteq> CreateCampaignWithToken p tok" "\<And>cid. c \<noteq> AcceptCampaignTransfer cid"
    by blast
  then show ?thesis
  proof cases
    case 1
    from create_till [OF run this] obtain n opt s1 where "create_campaign_inner e p opt s = Inr (n, s1)"
      and "get_campaign_vesting s' = get_campaign_vesting s1" by metis
    then show ?thesis using assms(3) config_okD(7, 8) [OF assms(2)]
      by (auto simp: vesting_ok_def BPS_DENOMINATOR_def dest!: create_inner_till(9) split: if_splits)
  next
    case 2
    with run have "get_campaign_vesting s' = get_campaign_vesting s"
      by (auto simp: accept_campaign_transfer_def remove_from_creator_index_def add_to_creator_index_def
          Let_def res_simps store_defs fun_eq_iff)
    with assms(3) show ?thesis by (simp add: vesting_ok_def)
  next
    case 3
    with vesting_calls.edit_call_obs [OF run] assms(3) show ?thesis by (simp add: vesting_ok_def)
  qed
next
  case (FundCall c)
  with assms vesting_calls.fund_call_obs [of e c s s'] show ?thesis by (simp add: vesting_ok_def)
next
  case (ReviewCall c)
  with assms vesting_calls.review_call_obs [of e c s s'] show ?thesis by (simp add: vesting_ok_def)
next
  case (ConfigCall c)
  with assms vesting_settings.config_call_obs [of e c s s'] config_okD(1) [OF assms(2)] show ?thesis
    by (simp add: vesting_ok_def)
next
  case (AdminCall c)
  with assms vesting_settings.admin_call_obs [of e c s s'] show ?thesis by (simp add: vesting_ok_def)
qed

lemma drawer_raised:
  "l_raised t' = (l_raised t)(cid \<mapsto> r) \<Longrightarrow> l_reserve t' = l_reserve t \<Longrightarrow> l_pool t' = l_pool t \<Longrightarrow>
   l_taken t' = l_taken t \<Longrightarrow> drawer t' = (drawer t)(cid := (Some r, l_reserve t cid, l_pool t cid, l_taken t cid))"
  by (auto simp: drawer_def fun_eq_iff)

lemma batch_items_till:
  assumes "batch_contribute_items e who items owed0 tot s = Inr (owed', tot', s')"
    "core_inv (e_timestamp e) (core s)" "drawers_ok (till s)"
  shows "drawers_ok (till s') \<and> l_world (till s') = l_world (till s) \<and> l_count (till s') = l_count (till s) \<and>
    l_token (till s') = l_token (till s) \<and>
    liabilities (till s') tk = liabilities (till s) tk + owed_in s tk items"
  using assms
proof (induction items arbitrary: owed0 tot s)
  case Nil
  then show ?case by (simp add: owed_in_def)
next
  case (Cons it its)
  let ?pub = "publish [Sym ''contribution_made'', U32 (fst it), Addr who] [I128 (snd it)]"
  from Cons.prems(1) obtain s1 o1 t1 where s1: "apply_contribution e (fst it) who (snd it) s = Inr s1"
    and rest: "batch_contribute_items e who its o1 t1 (?pub s1) = Inr (owed', tot', s')"
    by (simp only: batch_contribute_items.simps res_simps) blast
  from apply_contribution_till [OF s1 Cons.prems(2)] obtain n where
    n: "l_raised (till s) (fst it) = Some (False, n)" "1 \<le> fst it" "fst it \<le> l_count (till s)"
    and t: "till s1 = (till s)\<lparr>l_raised := (l_raised (till s))(fst it \<mapsto> (False, n + snd it))\<rparr>" .
  have pub: "till (?pub s1) = till s1" "core (?pub s1) = core s1" by (simp_all add: till_frame)
  have d: "drawer (till s1) = (drawer (till s))(fst it := (Some (False, n + snd it), l_reserve (till s) (fst it),
      l_pool (till s) (fst it), l_taken (till s) (fst it)))"
    by (rule drawer_raised) (simp_all add: t)
  have same: "l_world (till s1) = l_world (till s)" "l_count (till s1) = l_count (till s)"
    "l_token (till s1) = l_token (till s)" by (simp_all add: t)
  have ok: "drawers_ok (till s1)"
    by (rule drawers_ok_upd [OF Cons.prems(3) d]) (use drawers_okD [OF Cons.prems(3), of "fst it"] n(1) in auto)
  have step: "liabilities (till s1) tk = liabilities (till s) tk + (if get_campaign_token s (fst it) = Some tk then snd it else 0)"
    using liabilities_upd [OF same(2, 3) d n(2, 3), of tk] n(1) by (simp add: owed_def drawer_def till_fields(3))
  have "core_inv (e_timestamp e) (core (?pub s1))"
    unfolding pub by (rule core_step_inv [OF apply_contribution_step [OF s1] Cons.prems(2)])
  from Cons.IH [OF rest this, unfolded pub, OF ok]
  have ih: "drawers_ok (till s') \<and> l_world (till s') = l_world (till s1) \<and> l_count (till s') = l_count (till s1) \<and>
    l_token (till s') = l_token (till s1) \<and> liabilities (till s') tk = liabilities (till s1) tk + owed_in (?pub s1) tk its" .
  have "owed_in (?pub s1) tk its = owed_in s tk its"
    using same(3) pub(1) by (simp add: owed_in_def till_fields(3) [symmetric])
  with ih step same show ?case by (simp add: owed_in_def)
qed

text \<open>The transfers of a batch, one per currency.\<close>

lemma transfer_owed_till:
  assumes "transfer_owed e who owed0 s = Inr s'"
  shows "drawer (till s') = drawer (till s)" "l_token (till s') = l_token (till s)" "l_count (till s') = l_count (till s)"
proof -
  have "drawer (till s') = drawer (till s) \<and> l_token (till s') = l_token (till s) \<and> l_count (till s') = l_count (till s)"
    using assms
  proof (induction owed0 arbitrary: s)
    case (Cons p ps)
    then obtain w where "transfer_owed e who ps (s\<lparr>st_world := w\<rparr>) = Inr s'" by (auto simp: res_simps)
    from Cons.IH [OF this] show ?case by (simp add: till_frame drawer_def fun_eq_iff)
  qed simp
  then show "drawer (till s') = drawer (till s)" "l_token (till s') = l_token (till s)" "l_count (till s') = l_count (till s)"
    by simp_all
qed

lemma transfer_owed_balance:
  assumes "transfer_owed e who owed0 s = Inr s'" "keeps_books e" "who \<noteq> h_self e"
  shows "balance_of e tk (h_self e) (l_world (till s')) = balance_of e tk (h_self e) (l_world (till s)) +
      sum_list (map snd (filter (\<lambda>p. fst p = tk) owed0))"
  using assms(1)
proof (induction owed0 arbitrary: s)
  case (Cons p ps)
  from Cons.prems obtain s1 w where w: "h_transfer e (fst p) who (h_self e) (snd p) (st_world s) = Some w"
    "s1 = s\<lparr>st_world := w\<rparr>" and rest: "transfer_owed e who ps s1 = Inr s'"
    by (auto simp: res_simps)
  have t1: "till s1 = (till s)\<lparr>l_world := w\<rparr>" by (simp add: w(2) till_frame)
  have "balance_of e tk (h_self e) w = balance_of e tk (h_self e) (st_world s) + (if tk = fst p then snd p else 0)"
    by (rule paid_in [OF assms(2) w(1) assms(3)])
  with Cons.IH [OF rest] t1 show ?case by (auto simp: till_fields)
qed simp

lemma owed_entry_sum:
  assumes "sorted_wrt (<) (map fst m)"
  shows "sum_list (map snd (filter (\<lambda>p. fst p = k) m)) = owed_entry m k"
  using assms
proof (induction m)
  case (Cons p m)
  then have ih: "sum_list (map snd (filter (\<lambda>p. fst p = k) m)) = owed_entry m k" by simp
  show ?case
  proof (cases "fst p = k")
    case True
    with Cons.prems have "filter (\<lambda>p. fst p = k) m = []" by (auto simp: filter_empty_conv)
    with True show ?thesis by (cases p) (simp add: owed_entry_def)
  next
    case False
    with ih show ?thesis by (cases p) (simp add: owed_entry_def)
  qed
qed (simp add: owed_entry_def)

lemma batch_contribute_till:
  assumes "batch_contribute e who items s = Inr s'" "core_inv (e_timestamp e) (core s)" "drawers_ok (till s)"
  shows "drawers_ok (till s')" "keeps_books e \<Longrightarrow> \<not> e_auth e (h_self e) \<Longrightarrow> covered e (till s) \<Longrightarrow> covered e (till s')"
proof -
  from assms(1) obtain m tot s1 s2 where auth: "e_auth e who"
    and items: "batch_contribute_items e who items [] 0 s = Inr (m, tot, s1)"
    and tr: "transfer_owed e who m s1 = Inr s2"
    and s': "s' = publish [Sym ''batch_contribution_made'', Addr who] [U32 (length items), I128 tot] s2"
    by (auto simp: batch_contribute_def res_simps)
  have t': "till s' = till s2" by (simp add: s' till_frame)
  note till1 = batch_items_till [OF items assms(2, 3)]
  note d = transfer_owed_till [OF tr]
  show "drawers_ok (till s')" using till1 d by (simp add: t' drawers_ok_def)
  assume k: "keeps_books e" "\<not> e_auth e (h_self e)" and cov: "covered e (till s)"
  from k(2) auth have who: "who \<noteq> h_self e" by auto
  show "covered e (till s')"
    unfolding covered_def t'
  proof
    fix tk
    have "owed_entry m tk = owed_in s tk items" "sorted_wrt (<) (map fst m)"
      using batch_items_purse [OF items] by (simp_all add: owed_entry_def)
    then have "balance_of e tk (h_self e) (l_world (till s2)) = balance_of e tk (h_self e) (l_world (till s1)) + owed_in s tk items"
      using transfer_owed_balance [OF tr k(1) who, of tk] owed_entry_sum by metis
    moreover have "liabilities (till s2) tk = liabilities (till s) tk + owed_in s tk items"
      using till1 liabilities_cong [OF d(3, 2, 1)] by simp
    ultimately show "liabilities (till s2) tk \<le> balance_of e tk (h_self e) (l_world (till s2))"
      using cov till1 by (simp add: covered_def)
  qed
qed

lemma drawers_cong:
  "drawers_ok t \<Longrightarrow> l_raised t' = l_raised t \<Longrightarrow> l_reserve t' = l_reserve t \<Longrightarrow> l_pool t' = l_pool t \<Longrightarrow>
   l_taken t' = l_taken t \<Longrightarrow> drawers_ok t'"
  by (simp add: drawers_ok_def drawer_def)

lemma raised_iff: "get_campaign s cid \<noteq> None \<longleftrightarrow> l_raised (till s) cid \<noteq> None"
  by (simp add: till_fields)

text \<open>The drawer a funding call on one campaign leaves, and what it pays.\<close>

lemma contribute_settles:
  assumes "contribute e cid who amt s = Inr s'" "core_inv (e_timestamp e) (core s)" "drawers_ok (till s)"
  shows "drawers_ok (till s')" "keeps_books e \<Longrightarrow> \<not> e_auth e (h_self e) \<Longrightarrow> covered e (till s) \<Longrightarrow> covered e (till s')"
proof -
  from contribute_till [OF assms(1, 2)] obtain n tok where n: "l_raised (till s) cid = Some (False, n)"
    "1 \<le> cid" "cid \<le> l_count (till s)" "l_token (till s) cid = Some tok" and auth: "e_auth e who"
    and tr: "h_transfer e tok who (h_self e) amt (l_world (till s)) = Some (l_world (till s'))"
    and t: "till s' = (till s)\<lparr>l_world := l_world (till s'), l_raised := (l_raised (till s))(cid \<mapsto> (False, n + amt))\<rparr>" .
  let ?d = "(Some (False, n + amt), l_reserve (till s) cid, l_pool (till s) cid, l_taken (till s) cid)"
  have d: "drawer (till s') = (drawer (till s))(cid := ?d)"
    by (rule drawer_raised, (subst t, simp)+)
  note old = drawers_okD [OF assms(3), of cid]
  show "drawers_ok (till s')" by (rule drawers_ok_upd [OF assms(3) d]) (use old n(1) in auto)
  assume k: "keeps_books e" "\<not> e_auth e (h_self e)" and cov: "covered e (till s)"
  from k(2) auth have who: "who \<noteq> h_self e" by auto
  show "covered e (till s')"
  proof (rule covered_upd [OF cov _ _ d n(2-4)])
    show "balance_of e tk (h_self e) (l_world (till s)) + (if tk = tok then due ?d - owed (till s) cid else 0)
        \<le> balance_of e tk (h_self e) (l_world (till s'))" for tk
      using paid_in [OF k(1) tr who, of tk] n(1) by (simp add: owed_def drawer_def)
  qed (subst t, simp)+
qed

lemma claim_refund_settles:
  assumes "claim_refund e cid who s = Inr s'" "core_inv (e_timestamp e) (core s)" "drawers_ok (till s)"
  shows "drawers_ok (till s')" "keeps_books e \<Longrightarrow> covered e (till s) \<Longrightarrow> covered e (till s')"
proof -
  from claim_refund_till [OF assms(1, 2)] obtain n x tok where n: "l_raised (till s) cid = Some (False, n)"
    "1 \<le> cid" "cid \<le> l_count (till s)" "l_token (till s) cid = Some tok" and x: "0 \<le> x"
    and tr: "h_transfer e tok (h_self e) who x (l_world (till s)) = Some (l_world (till s'))"
    and t: "till s' = (till s)\<lparr>l_world := l_world (till s'), l_raised := (l_raised (till s))(cid \<mapsto> (False, n - x))\<rparr>"
    by metis
  let ?d = "(Some (False, n - x), l_reserve (till s) cid, l_pool (till s) cid, l_taken (till s) cid)"
  have d: "drawer (till s') = (drawer (till s))(cid := ?d)"
    by (rule drawer_raised, (subst t, simp)+)
  note old = drawers_okD [OF assms(3), of cid]
  show "drawers_ok (till s')" by (rule drawers_ok_upd [OF assms(3) d]) (use old n(1) in auto)
  assume k: "keeps_books e" and cov: "covered e (till s)"
  show "covered e (till s')"
  proof (rule covered_upd [OF cov _ _ d n(2-4)])
    show "balance_of e tk (h_self e) (l_world (till s)) + (if tk = tok then due ?d - owed (till s) cid else 0)
        \<le> balance_of e tk (h_self e) (l_world (till s'))" for tk
      using paid_out [OF k tr x, of tk] n(1) by (simp add: owed_def drawer_def split: if_splits)
  qed (subst t, simp)+
qed

lemma withdraw_funds_settles:
  assumes "withdraw_funds e cid s = Inr s'" "core_inv (e_timestamp e) (core s)" "config_ok (config s)"
    "vesting_ok s" "drawers_ok (till s)"
  shows "drawers_ok (till s')" "keeps_books e \<Longrightarrow> covered e (till s) \<Longrightarrow> covered e (till s')"
proof -
  have "\<forall>v. get_campaign_vesting s cid = Some v \<longrightarrow> snd v \<le> BPS_DENOMINATOR"
    using assms(4) by (simp add: vesting_ok_def)
  from withdraw_funds_till [OF assms(1-3) this] obtain n fee reserve pay tok to who w where n: "l_raised (till s) cid = Some (False, n)" "1 \<le> cid" "cid \<le> l_count (till s)"
    and amounts: "0 \<le> fee" "0 \<le> reserve" "0 \<le> pay" "n = fee + reserve + pay" and tok: "l_token (till s) cid = Some tok"
    and tr: "h_transfer e tok (h_self e) to fee (l_world (till s)) = Some w"
      "h_transfer e tok (h_self e) who pay w = Some (l_world (till s'))"
    and t: "l_raised (till s') = (l_raised (till s))(cid \<mapsto> (True, n))" "l_count (till s') = l_count (till s)"
      "l_token (till s') = l_token (till s)" "l_pool (till s') = l_pool (till s)" "l_taken (till s') = l_taken (till s)"
      "if 0 < reserve then \<exists>t. l_reserve (till s') = (l_reserve (till s))(cid \<mapsto>
       \<lparr>r_amount = reserve, r_release_timestamp = t, r_released = False\<rparr>) else l_reserve (till s') = l_reserve (till s)"
    by metis
  let ?d = "drawer (till s') cid"
  have d: "drawer (till s') = (drawer (till s))(cid := ?d)"
    using t by (intro drawer_upd) (auto simp: drawer_def split: if_splits)
  have old: "l_pool (till s) cid = 0" "l_reserve (till s) cid = None" "l_taken (till s) cid = 0"
    using drawers_okD(4) [OF assms(5), of cid] n(1) by auto
  show "drawers_ok (till s')"
    by (rule drawers_ok_upd [OF assms(5) d]) (use old t amounts in \<open>auto simp: drawer_def split: if_splits\<close>)
  have dues: "due ?d = reserve" "owed (till s) cid = n"
    using old t amounts(2) n(1) by (auto simp: drawer_def owed_def split: if_splits)
  assume k: "keeps_books e" and cov: "covered e (till s)"
  show "covered e (till s')"
  proof (rule covered_upd [OF cov t(2, 3) d n(2, 3) tok])
    show "balance_of e tk (h_self e) (l_world (till s)) + (if tk = tok then due ?d - owed (till s) cid else 0)
        \<le> balance_of e tk (h_self e) (l_world (till s'))" for tk
      using paid_out [OF k tr(1) amounts(1), of tk] paid_out [OF k tr(2) amounts(3), of tk] amounts(4)
      by (auto simp: dues split: if_splits)
  qed
qed

lemma withdraw_reserve_settles:
  assumes "withdraw_reserve e cid s = Inr s'" "core_inv (e_timestamp e) (core s)" "drawers_ok (till s)"
  shows "drawers_ok (till s')" "keeps_books e \<Longrightarrow> covered e (till s) \<Longrightarrow> covered e (till s')"
proof -
  from withdraw_reserve_till [OF assms(1)] obtain r tok to where r: "get_campaign s cid \<noteq> None"
    "l_reserve (till s) cid = Some r" "\<not> r_released r" "l_token (till s) cid = Some tok"
    and tr: "h_transfer e tok (h_self e) to (r_amount r) (l_world (till s)) = Some (l_world (till s'))"
    and t: "till s' = (till s)\<lparr>l_world := l_world (till s'), l_reserve := (l_reserve (till s))(cid \<mapsto> r\<lparr>r_released := True\<rparr>)\<rparr>" .
  note old = drawers_okD [OF assms(3), of cid]
  have n: "1 \<le> cid" "cid \<le> l_count (till s)"
    using core_invD(5, 6) [OF assms(2), of cid] r(1) by (auto simp: core_fields till_fields)
  let ?d = "(l_raised (till s) cid, Some (r\<lparr>r_released := True\<rparr>), l_pool (till s) cid, l_taken (till s) cid)"
  have same: "l_raised (till s') = l_raised (till s)" "l_pool (till s') = l_pool (till s)"
    "l_taken (till s') = l_taken (till s)" "l_reserve (till s') = (l_reserve (till s))(cid \<mapsto> r\<lparr>r_released := True\<rparr>)"
    by (subst t, simp)+
  then have d: "drawer (till s') = (drawer (till s))(cid := ?d)" by (auto simp: drawer_def fun_eq_iff)
  show "drawers_ok (till s')" by (rule drawers_ok_upd [OF assms(3) d]) (use old r(2) in auto)
  assume k: "keeps_books e" and cov: "covered e (till s)"
  show "covered e (till s')"
  proof (rule covered_upd [OF cov _ _ d n r(4)])
    show "balance_of e tk (h_self e) (l_world (till s)) + (if tk = tok then due ?d - owed (till s) cid else 0)
        \<le> balance_of e tk (h_self e) (l_world (till s'))" for tk
      using paid_out [OF k tr old(3) [OF r(2)], of tk] r(2, 3) by (simp add: owed_def drawer_def split: if_splits)
  qed (subst t, simp)+
qed

lemma deposit_revenue_settles:
  assumes "deposit_revenue e cid amt s = Inr s'" "core_inv (e_timestamp e) (core s)" "drawers_ok (till s)"
  shows "drawers_ok (till s')" "keeps_books e \<Longrightarrow> \<not> e_auth e (h_self e) \<Longrightarrow> covered e (till s) \<Longrightarrow> covered e (till s')"
proof -
  from deposit_revenue_till [OF assms(1)] obtain c tok frm where c: "get_campaign s cid = Some c" "c_funds_withdrawn c"
    "0 < amt" "e_auth e frm" "l_token (till s) cid = Some tok"
    and tr: "h_transfer e tok frm (h_self e) amt (l_world (till s)) = Some (l_world (till s'))"
    and t: "till s' = (till s)\<lparr>l_world := l_world (till s'), l_pool := (l_pool (till s))(cid := l_pool (till s) cid + amt)\<rparr>" .
  note old = drawers_okD [OF assms(3), of cid]
  have n: "1 \<le> cid" "cid \<le> l_count (till s)" "l_raised (till s) cid = Some (True, c_effective_amount_raised c)"
    using core_invD(5, 6) [OF assms(2), of cid] c(1, 2) by (auto simp: core_fields till_fields raised_view_def)
  let ?d = "(l_raised (till s) cid, l_reserve (till s) cid, l_pool (till s) cid + amt, l_taken (till s) cid)"
  have "l_raised (till s') = l_raised (till s)" "l_reserve (till s') = l_reserve (till s)"
    "l_taken (till s') = l_taken (till s)" "l_pool (till s') = (l_pool (till s))(cid := l_pool (till s) cid + amt)"
    by (subst t, simp)+
  then have d: "drawer (till s') = (drawer (till s))(cid := ?d)" by (auto simp: drawer_def fun_eq_iff)
  show "drawers_ok (till s')" by (rule drawers_ok_upd [OF assms(3) d]) (use old c(3) n(3) in auto)
  assume k: "keeps_books e" "\<not> e_auth e (h_self e)" and cov: "covered e (till s)"
  from k(2) c(4) have who: "frm \<noteq> h_self e" by auto
  show "covered e (till s')"
  proof (rule covered_upd [OF cov _ _ d n(1, 2) c(5)])
    show "balance_of e tk (h_self e) (l_world (till s)) + (if tk = tok then due ?d - owed (till s) cid else 0)
        \<le> balance_of e tk (h_self e) (l_world (till s'))" for tk
      using paid_in [OF k(1) tr who, of tk] by (simp add: owed_def drawer_def split: if_splits)
  qed (subst t, simp)+
qed

lemma claim_creator_revenue_settles:
  assumes "claim_creator_revenue e cid s = Inr s'" "core_inv (e_timestamp e) (core s)" "drawers_ok (till s)"
  shows "drawers_ok (till s')" "keeps_books e \<Longrightarrow> covered e (till s) \<Longrightarrow> covered e (till s')"
proof -
  from claim_creator_revenue_till [OF assms(1)] obtain c tok to share x where c: "get_campaign s cid = Some c"
    and x: "0 < x" "x = share - l_taken (till s) cid"
    and share: "c_revenue_share_percentage c \<le> BPS_DENOMINATOR"
      "creator_share (l_pool (till s) cid) (c_revenue_share_percentage c) = Inr share"
    and tok: "l_token (till s) cid = Some tok"
    and tr: "h_transfer e tok (h_self e) to x (l_world (till s)) = Some (l_world (till s'))"
    and t: "till s' = (till s)\<lparr>l_world := l_world (till s'), l_taken := (l_taken (till s))(cid := share)\<rparr>" by metis
  note old = drawers_okD [OF assms(3), of cid]
  have n: "1 \<le> cid" "cid \<le> l_count (till s)"
    using core_invD(5, 6) [OF assms(2), of cid] c by (auto simp: core_fields till_fields)
  have "0 \<le> l_pool (till s) cid" using old(1, 2) by linarith
  from creator_share_eq(2, 3) [OF share(2) this share(1)] have le: "0 \<le> share" "share \<le> l_pool (till s) cid" .
  let ?d = "(l_raised (till s) cid, l_reserve (till s) cid, l_pool (till s) cid, share)"
  have "l_raised (till s') = l_raised (till s)" "l_reserve (till s') = l_reserve (till s)"
    "l_pool (till s') = l_pool (till s)" "l_taken (till s') = (l_taken (till s))(cid := share)"
    by (subst t, simp)+
  then have d: "drawer (till s') = (drawer (till s))(cid := ?d)" by (auto simp: drawer_def fun_eq_iff)
  show "drawers_ok (till s')" by (rule drawers_ok_upd [OF assms(3) d]) (use old le in auto)
  assume k: "keeps_books e" and cov: "covered e (till s)"
  show "covered e (till s')"
  proof (rule covered_upd [OF cov _ _ d n tok])
    show "balance_of e tk (h_self e) (l_world (till s)) + (if tk = tok then due ?d - owed (till s) cid else 0)
        \<le> balance_of e tk (h_self e) (l_world (till s'))" for tk
      using paid_out [OF k tr, of tk] x by (simp add: owed_def drawer_def split: if_splits)
  qed (subst t, simp)+
qed

lemma claim_milestone_drawers:
  assumes "claim_milestone e cid mid s = Inr s'" "drawers_ok (till s)"
  shows "drawers_ok (till s')"
proof -
  from claim_milestone_till [OF assms(1)] obtain n r where n: "l_raised (till s) cid = Some (False, n)"
    and t: "l_raised (till s') = (l_raised (till s))(cid \<mapsto> r)" "l_reserve (till s') = l_reserve (till s)"
    "l_pool (till s') = l_pool (till s)" "l_taken (till s') = l_taken (till s)" .
  show ?thesis
    by (rule drawers_ok_upd [OF assms(2) drawer_raised [OF t]])
      (use drawers_okD [OF assms(2), of cid] n in auto)
qed

lemma create_settles:
  assumes "create_campaign_inner e p opt s = Inr (n, s')" "core_inv (e_timestamp e) (core s)" "drawers_ok (till s)"
  shows "drawers_ok (till s')" "covered h (till s) \<Longrightarrow> covered h (till s')"
proof -
  note t = create_inner_till [OF assms(1)]
  have "get_campaign s n = None"
    using core_inv_next [OF assms(2)] t(1) by (simp add: core_fields till_fields)
  then have "l_raised (till s) n = None" by (simp add: till_fields)
  with drawers_okD(4) [OF assms(3), of n] have none: "l_pool (till s) n = 0" "l_reserve (till s) n = None" "l_taken (till s) n = 0"
    by auto
  have d: "drawer (till s') = (drawer (till s))(n := (Some (False, 0), None, 0, 0))"
    unfolding drawer_def t(4-7) using none by (auto simp: fun_eq_iff)
  show "drawers_ok (till s')" by (rule drawers_ok_upd [OF assms(3) d]) simp
  assume cov: "covered h (till s)"
  have "liabilities (till s') tk = liabilities (till s) tk" for tk
  proof -
    have "{1..l_count (till s')} = insert n {1..l_count (till s)}" using t(1, 3) by auto
    then have "liabilities (till s') tk = (\<Sum>cid \<in> {1..l_count (till s)}. if l_token (till s') cid = Some tk then owed (till s') cid else 0)"
      using t(1) d unfolding liabilities_def by (simp add: owed_def)
    also have "\<dots> = liabilities (till s) tk"
      unfolding liabilities_def using t(1, 8) d by (intro sum.cong) (auto simp: owed_def)
    finally show ?thesis .
  qed
  with cov show "covered h (till s')" by (simp add: covered_def t(2))
qed

end
