(* ===== verification/Stranded.thy ===== *)
theory Stranded
  imports Stewardship Till
begin

text \<open>
  What a token update does to refunds that are still owed. A campaign without a token of its own is paid
  in the platform's token of the moment; that token changes only by \<open>accept_token_update\<close>, whose
  guard looks at the active campaigns and the running total, and a cancellation takes a campaign out of both
  before anybody is refunded.
\<close>

section \<open>The token of a campaign\<close>

interpretation token_calls: fund_call_observer get_campaign_token
  by unfold_locales (simp_all add: store_defs get_campaign_token_def fun_eq_iff split: option.split)

interpretation token_settings: settings_observer get_campaign_token
  by unfold_locales (simp_all add: store_defs get_campaign_token_def fun_eq_iff split: option.split)

text \<open>Only an accepted token update changes the token of a campaign that exists.\<close>

lemma campaign_token_call:
  assumes "dispatch e k s = Inr s'" "is_initialized s" "cid \<le> get_campaign_count s"
    "\<forall>a. k \<noteq> AdminCall (AcceptTokenUpdate a)"
  shows "get_campaign_token s' cid = get_campaign_token s cid"
proof (cases k)
  case (CampaignCall c)
  with assms(1) have run: "run_campaign_call e c s = Inr s'" by simp
  consider p tok where "c = CreateCampaign p \<or> c = CreateCampaignWithToken p tok"
    | i where "c = AcceptCampaignTransfer i"
    | "\<And>p. c \<noteq> CreateCampaign p" "\<And>p tok. c \<noteq> CreateCampaignWithToken p tok" "\<And>i. c \<noteq> AcceptCampaignTransfer i"
    by blast
  then show ?thesis
  proof cases
    case 1
    from create_till [OF run this] obtain n opt s1 where inner: "create_campaign_inner e p opt s = Inr (n, s1)"
      and same: "till s' = till s1" by metis
    from create_inner_till(1) [OF inner] assms(3) have "cid \<noteq> n" by (simp add: till_fields)
    from create_inner_till(8) [OF inner this] same show ?thesis by (simp add: till_fields(3) [symmetric])
  next
    case 2
    with run have "till s' = till s" using ownership_till(2) [of e i s s'] by simp
    then show ?thesis by (simp add: till_fields(3) [symmetric])
  next
    case 3
    with token_calls.edit_call_obs [OF run] show ?thesis by simp
  qed
next
  case (FundCall c)
  with assms token_calls.fund_call_obs [of e c s s'] show ?thesis by simp
next
  case (ReviewCall c)
  with assms token_calls.review_call_obs [of e c s s'] show ?thesis by simp
next
  case (ConfigCall c)
  with assms token_settings.config_call_obs [of e c s s'] show ?thesis by simp
next
  case (AdminCall c)
  with assms token_settings.other_admin_call_obs [of e c s s'] show ?thesis by simp
qed

section \<open>A cancelled campaign\<close>

text \<open>What a cancelled campaign owes a contributor stays as it is until it is paid.\<close>

definition frozen :: "u32 \<Rightarrow> (address \<Rightarrow> i128) \<Rightarrow> core \<Rightarrow> bool" where
  "frozen cid debt k \<longleftrightarrow> (\<exists>c. k_camp k cid = Some c \<and> c_is_cancelled c) \<and>
     (\<forall>who. k_contrib k cid who \<noteq> 0 \<longrightarrow> k_contrib k cid who = debt who)"

lemma core_step_frozen:
  assumes "core_step now k k'" "core_inv now k" "frozen cid debt k"
  shows "frozen cid debt k'"
proof -
  from assms(3) obtain c where camp: "k_camp k cid = Some c" "c_is_cancelled c"
    and debt: "\<And>who. k_contrib k cid who \<noteq> 0 \<Longrightarrow> k_contrib k cid who = debt who"
    by (auto simp: frozen_def)
  have old: "cid \<noteq> k_count k + 1" using core_inv_next [OF assms(2)] camp(1) by auto
  from assms(1) show ?thesis
  proof cases
    case (contributed i d who amt)
    with camp have "i \<noteq> cid" by (auto simp: open_for_def)
    with contributed(1) camp debt show ?thesis by (auto simp: k_contribute_def frozen_def)
  next
    case (refunded i d who)
    with camp debt show ?thesis by (auto simp: k_refund_def frozen_def)
  next
    case (edit i d d')
    from edit(3) have "c_is_cancelled d' = c_is_cancelled d" unfolding edited_def by blast
    with edit(1, 2) camp debt show ?thesis by (auto simp: put_def frozen_def)
  qed (use camp debt old in \<open>auto simp: move_defs frozen_def\<close>)
qed

lemma core_steps_frozen:
  assumes "core_steps now k k'" "core_inv now k" "frozen cid debt k"
  shows "frozen cid debt k'"
  using assms
proof (induction rule: rtranclp_induct)
  case (step k1 k2)
  then show ?case using core_steps_inv core_step_frozen by blast
qed

lemma dispatch_frozen:
  assumes "dispatch e k s = Inr s'" "config_ok (config s)" "core_inv (e_timestamp e) (core s)" "frozen cid debt (core s)"
  shows "frozen cid debt (core s')"
proof (cases "\<exists>i. accepts k i")
  case True
  then obtain i where "hand_over i (core s) (core s')" using dispatch_hands_over [OF assms(1)] by blast
  then show ?thesis using assms(4) by cases (auto simp: put_def frozen_def)
next
  case False
  then show ?thesis by (intro core_steps_frozen [OF dispatch_refines [OF assms(1, 2)] assms(3, 4)]) simp_all
qed

section \<open>Runs without a token update\<close>

inductive same_token_run :: "'w host \<Rightarrow> u64 \<Rightarrow> 'w state \<Rightarrow> u64 \<Rightarrow> 'w state \<Rightarrow> bool" for h now s where
  same_start: "same_token_run h now s now s"
| same_call:
    "same_token_run h now s now' s' \<Longrightarrow> now' \<le> e_timestamp e \<Longrightarrow> host.truncate e = h \<Longrightarrow>
     \<forall>a. k \<noteq> AdminCall (AcceptTokenUpdate a) \<Longrightarrow> same_token_run h now s (e_timestamp (e :: 'w env)) (invoke e k s')"
| same_tokens: "same_token_run h now s now' s' \<Longrightarrow> same_token_run h now s now' (s'\<lparr>st_world := wd\<rparr>)"

lemma same_token_run_keeps:
  assumes "same_token_run h now s now' s'" "reachable h now s" "frozen cid debt (core s)"
  shows "reachable h now' s' \<and> frozen cid debt (core s') \<and> get_campaign_token s' cid = get_campaign_token s cid"
  using assms
proof induction
  case (same_call now' s' e k)
  then have reach: "reachable h now' s'" and froz: "frozen cid debt (core s')"
    and tok: "get_campaign_token s' cid = get_campaign_token s cid" by simp_all
  have after: "reachable h (e_timestamp e) (invoke e k s')" by (rule reachable.called [OF reach same_call(2, 3)])
  show ?case
  proof (cases "dispatch e k s'")
    case (Inr s2)
    note ok = reachable_config [OF reach] and inv = core_inv_later [OF reachable_core [OF reach] same_call(2)]
    from froz obtain c where "get_campaign s' cid = Some c" by (auto simp: frozen_def core_fields)
    then have "cid \<le> get_campaign_count s'" using books_of_reachable(6) [OF reach] by blast
    from campaign_token_call [OF Inr config_okD(1) [OF ok] this same_call(4)] dispatch_frozen [OF Inr ok inv froz]
    show ?thesis using after tok Inr by (simp add: invoke_def)
  qed (use after froz tok in \<open>simp add: invoke_def\<close>)
next
  case (same_tokens now' s' wd)
  then show ?case using reachable.tokens_moved
    by (auto simp: core_frame token_calls.obs_simps)
qed simp

section \<open>The gate of a token update\<close>

interpretation pinned_calls: fund_call_observer has_campaign_token
  by unfold_locales (simp_all add: store_defs fun_eq_iff)

lemma token_of_unpinned: "\<not> has_campaign_token s cid \<Longrightarrow> get_campaign_token s cid = get_token s"
  by (simp add: has_campaign_token_def get_campaign_token_def)

lemma cancel_zeroes_total:
  assumes "cancel_campaign e cid s = Inr s'" "get_campaign s cid = Some c" "get_total_raised_global s = c_amount_raised c"
    "0 \<le> c_amount_raised c"
  shows "get_total_raised_global s' = 0"
proof (cases "c_amount_raised c = 0")
  case True
  have "p_total (purse s') = p_total (purse s)"
    using assms(1, 2) True
    apply (simp only: cancel_campaign_def Let_def res_simps)
    apply clarify
    apply (drule deduct_close_purse)+
    apply (auto simp: purse_frame split: if_splits)
    done
  with True assms(3) show ?thesis by (simp add: purse_fields)
next
  case False
  with cancel_campaign_total [OF assms(1, 2)] assms(3, 4) show ?thesis by simp
qed

lemma backed_facts:
  "get_campaign h_backed 1 = Some (h_campaign\<lparr>c_amount_raised := 60000, c_effective_amount_raised := 60000\<rparr>)"
  "\<not> has_campaign_token h_backed 1" "get_active_campaign_count h_backed = 1" "get_total_raised_global h_backed = 60000"
  by (simp_all add: history_defs h_campaign_def eval_simps)

lemma backed_stewards:
  "get_admin h_backed = Some (Address 0)" "get_token h_backed = Some (Address 1)"
  "get_token_update_delay_secs h_backed TOKEN_UPDATE_DELAY_SECS = TOKEN_UPDATE_DELAY_SECS"
  "get_contribution h_backed 1 (Address 3) = 60000"
  by (simp_all add: history_defs eval_simps)

section \<open>Properties\<close>

declare One_nat_def [simp del]

text \<open>
  C35: Cancelling opens the token update while refunds are owed. Take a reachable state with one active
  campaign, which has no token of its own and whose raised amount is the whole running total (so no other
  campaign contributes to that total), and a proposed token update. Once the creator has cancelled the
  campaign, the update is accepted from its release time on, although no contribution has been refunded: the
  contributions stand as they were. As long as no further token update is accepted, whatever other calls are
  made and whatever the token contracts do, every refund of that campaign then pays what had been contributed
  in the old token out of the contract's balance of the new one.
\<close>

theorem cancelling_opens_token_update:
  assumes reach: "reachable h now s"
    and cancel: "cancel_campaign e cid s = Inr s1" "now \<le> e_timestamp e" "host.truncate (e :: 'w env) = h"
    and camp: "get_campaign s cid = Some c" "\<not> has_campaign_token s cid"
    and only: "get_active_campaign_count s = 1" "get_total_raised_global s = c_amount_raised c"
    and update: "get_admin s = Some a" "get_token s = Some old" "get_pending_token s = Some new"
      "get_pending_token_release s = Some t"
    and accept: "e_auth e' a" "t \<le> e_timestamp e'" "e_timestamp e \<le> e_timestamp e'" "host.truncate (e' :: 'w env) = h"
  shows "\<exists>s2. accept_token_update e' a s1 = Inr s2 \<and> get_contribution s2 = get_contribution s \<and>
    get_campaign_token s cid = Some old \<and> get_campaign_token s2 cid = Some new \<and>
    (\<forall>now' s3 (e'' :: 'w env) who s4. same_token_run h (e_timestamp e') s2 now' s3 \<longrightarrow>
       claim_refund e'' cid who s3 = Inr s4 \<longrightarrow> get_contribution s cid who \<noteq> 0 \<and>
       h_transfer e'' new (h_self e'') who (get_contribution s cid who) (st_world s3) = Some (st_world s4))"
proof -
  have same: "stewardship s1 = stewardship s" by (rule stewardship_calls.cancel_obs(1) [OF cancel(1)])
  then have keep: "get_admin s1 = Some a" "get_token s1 = Some old" "get_pending_token s1 = Some new"
    "get_pending_token_release s1 = Some t"
    using update by (simp_all add: stewardship_fields [symmetric])
  from cancel_campaign_core [OF cancel(1)] obtain c' where c': "get_campaign s cid = Some c'"
    "core s1 = k_cancel cid c' (core s)" .
  have gate: "get_active_campaign_count s1 = 0" "get_contribution s1 = get_contribution s"
    using only(1) by (simp_all add: core_fields [symmetric] c'(2) k_cancel_def)
  have "0 \<le> c_amount_raised c"
    using books_okD(2, 6) [OF books_of_reachable(1) [OF reach camp(1)]] support_sum_nonneg by metis
  then have zero: "get_total_raised_global s1 = 0" by (rule cancel_zeroes_total [OF cancel(1) camp(1) only(2)])
  let ?s2 = "publish [Sym ''token_update_accepted''] [Addr old, Addr new] (remove_pending_token (set_token new s1))"
  have accepted: "accept_token_update e' a s1 = Inr ?s2"
    using accept by (simp add: accept_token_update_def assert_admin_def admin_or_trap_def require_auth_def
        token_or_trap_def keep gate(1) zero)
  have unpinned: "\<not> has_campaign_token s1 cid" using camp(2) pinned_calls.cancel_obs(1) [OF cancel(1)] by simp
  then have token: "get_campaign_token ?s2 cid = Some new" by (simp add: store_defs)
  have contrib: "get_contribution ?s2 = get_contribution s" using gate(2) by (simp add: store_defs fun_eq_iff)
  have reach1: "reachable h (e_timestamp e) s1"
    using reachable.called [OF reach cancel(2, 3), of "CampaignCall (CancelCampaign cid)"] cancel(1)
    by (simp add: invoke_def)
  have reach2: "reachable h (e_timestamp e') ?s2"
    using reachable.called [OF reach1 accept(3, 4), of "AdminCall (AcceptTokenUpdate a)"] accepted
    by (simp add: invoke_def)
  have owed2: "frozen cid (get_contribution s cid) (core ?s2)"
  proof -
    have "core ?s2 = k_cancel cid c' (core s)" by (simp only: core_frame c'(2))
    then show ?thesis by (simp add: frozen_def k_cancel_def) (simp add: core_fields)
  qed
  have pays: "get_contribution s cid who \<noteq> 0 \<and>
      h_transfer e'' new (h_self e'') who (get_contribution s cid who) (st_world s3) = Some (st_world s4)"
    if run: "same_token_run h (e_timestamp e') ?s2 now' s3" and refund: "claim_refund e'' cid who s3 = Inr s4"
    for now' s3 and e'' :: "'w env" and who s4
  proof -
    from same_token_run_keeps [OF run reach2 owed2] token have "get_campaign_token s3 cid = Some new"
      and "frozen cid (get_contribution s cid) (core s3)" by simp_all
    with claim_refund_purse [OF refund] show ?thesis
      unfolding frozen_def core_fields by (metis option.inject)
  qed
  have before: "get_campaign_token s cid = Some old" using token_of_unpinned [OF camp(2)] update(2) by simp
  show ?thesis
    by (intro exI [of _ ?s2] conjI allI impI) (fact accepted, fact contrib, fact before, fact token, (drule (1) pays, blast)+)
qed

text \<open>The history with one backed campaign, a token update proposed, and the campaign cancelled.\<close>

definition h_proposed :: "balances state" where
  "h_proposed = publish [Sym ''token_update_proposed''] [Addr (Address 8), U64 (5000 + TOKEN_UPDATE_DELAY_SECS)]
    (set_pending_token_release (5000 + TOKEN_UPDATE_DELAY_SECS) (set_pending_token (Address 8) h_backed))"

lemma proposed_call: "dispatch (demo_env 5000) (AdminCall (ProposeTokenUpdate (Address 0) (Address 8))) h_backed = Inr h_proposed"
  by (simp add: propose_token_update_def assert_admin_def admin_or_trap_def require_auth_def probe_token_def backed_stewards
      Let_def checked_simps h_proposed_def) (simp add: const_defs u64_max_def)

lemma reachable_proposed: "reachable demo_host 5000 h_proposed"
  using reachable_invoke [OF reachable_history(3), of 5000 "AdminCall (ProposeTokenUpdate (Address 0) (Address 8))"] proposed_call
  by (simp add: invoke_def)

lemma proposed_facts:
  "get_campaign h_proposed = get_campaign h_backed" "\<not> has_campaign_token h_proposed 1"
  "get_active_campaign_count h_proposed = 1" "get_total_raised_global h_proposed = 60000"
  "get_admin h_proposed = Some (Address 0)" "get_token h_proposed = Some (Address 1)"
  "get_pending_token h_proposed = Some (Address 8)"
  "get_pending_token_release h_proposed = Some (5000 + TOKEN_UPDATE_DELAY_SECS)"
  "get_contribution h_proposed 1 (Address 3) = 60000"
  using backed_facts backed_stewards by (simp_all add: h_proposed_def store_defs fun_eq_iff)

lemma proposed_cancelled: "is_ok (cancel_campaign (demo_env 6000) 1 h_proposed)"
  by (simp only: cancel_campaign_def)
    (simp add: h_proposed_def history_defs deduct_raised_def close_cancelled_def prune_bookmarks_for_campaign_def
      eval_simps store_defs)

theorem cancelling_opens_token_update_witness:
  "\<exists>s1 s2. reachable demo_host 6000 s1 \<and> get_campaign_token s1 1 = Some (Address 1) \<and>
     accept_token_update (demo_env 1000000) (Address 0) s1 = Inr s2 \<and> get_campaign_token s2 1 = Some (Address 8) \<and>
     get_contribution s2 1 (Address 3) = 60000"
proof -
  from is_okE [OF proposed_cancelled] obtain s1 where s1: "cancel_campaign (demo_env 6000) 1 h_proposed = Inr s1" .
  have reach: "reachable demo_host 6000 s1"
    using reachable_invoke [OF reachable_proposed, of 6000 "CampaignCall (CancelCampaign 1)"] s1 by (simp add: invoke_def)
  have old: "get_campaign_token s1 1 = Some (Address 1)"
    using token_calls.cancel_obs(1) [OF s1] token_of_unpinned [OF proposed_facts(2)] proposed_facts(6) by simp
  obtain c where c: "get_campaign h_proposed 1 = Some c" "c_amount_raised c = 60000"
    using proposed_facts(1) backed_facts(1) by simp
  have late: "5000 + TOKEN_UPDATE_DELAY_SECS \<le> 1000000" by (simp add: const_defs)
  from cancelling_opens_token_update [OF reachable_proposed s1 _ _ c(1) proposed_facts(2, 3) _ proposed_facts(5-8),
      of "demo_env 1000000"] c(2) late proposed_facts(4, 9)
  obtain s2 where "accept_token_update (demo_env 1000000) (Address 0) s1 = Inr s2"
    "get_campaign_token s2 1 = Some (Address 8)" "get_contribution s2 1 (Address 3) = 60000" by auto
  with reach old show ?thesis by blast
qed

end
