(* ===== verification/Solvency.thy ===== *)
theory Solvency
  imports Till
begin

text \<open>
  Whether the contract can pay what it owes: the effects of the calls on the till, over \<open>dispatch\<close> and
  over runs of the contract. Honest runs keep every currency covered, so that refunds are always
  payable; a cancellation after a milestone claim is the example of a run that does not.
\<close>

section \<open>Every call\<close>

lemma campaign_call_settles:
  assumes "run_campaign_call e k s = Inr s'" "core_inv (e_timestamp e) (core s)" "drawers_ok (till s)"
  shows "drawers_ok (till s') \<and> (covered h (till s) \<longrightarrow> covered h (till s'))"
proof (cases "\<exists>p tok. k = CreateCampaign p \<or> k = CreateCampaignWithToken p tok")
  case True
  then obtain p tok where "k = CreateCampaign p \<or> k = CreateCampaignWithToken p tok" by blast
  from create_till [OF assms(1) this] obtain n opt s1 where
    "create_campaign_inner e p opt s = Inr (n, s1)" "till s' = till s1" by metis
  with create_settles [OF _ assms(2, 3)] show ?thesis by metis
next
  case False
  with assms(1) have "till s' = till s"
    by (cases k) (auto dest!: update_till ownership_till admin_cancel_campaign_till
        cancel_campaign_till [OF _ assms(3)])
  with assms(3) show ?thesis by simp
qed

lemma fund_call_drawers:
  assumes "run_fund_call e k s = Inr s'" "core_inv (e_timestamp e) (core s)" "config_ok (config s)"
    "vesting_ok s" "drawers_ok (till s)"
  shows "drawers_ok (till s')"
proof (cases k)
  case (ClaimRevenue cid a)
  with assms(1) have "claim_revenue e cid a s = Inr s'" by simp
  note eq = claim_revenue_till [OF this]
  have "drawer (till s') = drawer (till s)" by (subst eq) (rule drawer_ignores)
  with assms(5) show ?thesis by (simp add: drawers_ok_def)
next
  case (WithdrawFunds cid)
  with assms withdraw_funds_settles(1) show ?thesis by (metis run_fund_call.simps(4))
qed (use assms in \<open>auto intro: contribute_settles(1) claim_refund_settles(1) batch_contribute_till(1)
  withdraw_reserve_settles(1) deposit_revenue_settles(1) claim_creator_revenue_settles(1) claim_milestone_drawers
  dest!: milestone_plan_till personal_cap_till\<close>)

lemma review_config_till:
  "run_review_call e r s = Inr s' \<Longrightarrow> till s' = till s"
  "run_config_call e c s = Inr s' \<Longrightarrow> is_initialized s \<Longrightarrow> till s' = till s"
  by (rule till_reviews.review_call_obs till_settings.config_call_obs; assumption)+

lemma dispatch_drawers:
  assumes "dispatch e k s = Inr s'" "config_ok (config s)" "core_inv (e_timestamp e) (core s)"
    "vesting_ok s" "drawers_ok (till s)"
  shows "drawers_ok (till s')"
proof (cases k)
  case (CampaignCall c)
  with assms campaign_call_settles show ?thesis by (metis dispatch.simps(1))
next
  case (FundCall c)
  with assms fund_call_drawers show ?thesis by (metis dispatch.simps(2))
next
  case (ReviewCall c)
  with assms review_config_till show ?thesis by (metis dispatch.simps(3))
next
  case (ConfigCall c)
  with assms review_config_till config_okD(1) show ?thesis by (metis dispatch.simps(4))
next
  case (AdminCall c)
  with assms(1) have run: "run_admin_call e c s = Inr s'" by simp
  show ?thesis
  proof (cases "\<exists>a. c = AcceptTokenUpdate a")
    case True
    with run obtain a where "accept_token_update e a s = Inr s'" by auto
    note eq = accept_token_till [OF this]
    have "drawer (till s') = drawer (till s)" by (subst eq) (rule drawer_ignores)
    with assms(5) show ?thesis by (simp add: drawers_ok_def)
  next
    case False
    with till_settings.other_admin_call_obs [OF run] assms(5) show ?thesis by simp
  qed
qed

interpretation drawers_invariant: contract_invariant "\<lambda>now s. vesting_ok s \<and> drawers_ok (till s)"
proof unfold_locales
  show "vesting_ok s \<and> drawers_ok (till s)" if "init e a tok fee (empty_state wd) = Inr s"
    for e :: "'a env" and a tok fee wd s
    using that by (auto simp: init_def Let_def res_simps vesting_ok_def drawers_ok_def drawer_def till_fields
        empty_state_def store_defs)
qed (simp_all add: vesting_call dispatch_drawers, simp add: vesting_ok_def drawers_ok_def drawer_def till_fields store_defs)

text \<open>
  The calls whose effect on the balance is not covered by what the contract recorded: a revenue
  claim may pay the last claimant more than is left, a milestone claim leaves the refunds of its campaign
  as they were, and a change of the platform token changes the currency of what is owed.
\<close>

definition routine :: "call \<Rightarrow> bool" where
  "routine k =
    (case k of
       FundCall f \<Rightarrow> (case f of ClaimRevenue _ _ \<Rightarrow> False | ClaimMilestone _ _ \<Rightarrow> False | _ \<Rightarrow> True)
     | AdminCall a \<Rightarrow> (case a of AcceptTokenUpdate _ \<Rightarrow> False | _ \<Rightarrow> True)
     | _ \<Rightarrow> True)"

lemma fund_call_covered:
  assumes "run_fund_call e k s = Inr s'" "core_inv (e_timestamp e) (core s)" "config_ok (config s)"
    "vesting_ok s" "drawers_ok (till s)" "routine (FundCall k)"
    and "keeps_books e" "\<not> e_auth e (h_self e)" "covered e (till s)"
  shows "covered e (till s')"
proof (cases k)
  case (WithdrawFunds cid)
  with assms withdraw_funds_settles(2) show ?thesis by (metis run_fund_call.simps(4))
qed (use assms in \<open>auto simp: routine_def intro: contribute_settles(2) claim_refund_settles(2) batch_contribute_till(2)
  withdraw_reserve_settles(2) deposit_revenue_settles(2) claim_creator_revenue_settles(2)
  dest!: milestone_plan_till personal_cap_till\<close>)

lemma dispatch_covered:
  assumes "dispatch e k s = Inr s'" "config_ok (config s)" "core_inv (e_timestamp e) (core s)"
    "vesting_ok s" "drawers_ok (till s)" "routine k"
    and "keeps_books e" "\<not> e_auth e (h_self e)" "covered e (till s)"
  shows "covered e (till s')"
proof (cases k)
  case (CampaignCall c)
  with assms campaign_call_settles show ?thesis by (metis dispatch.simps(1))
next
  case (FundCall c)
  with assms fund_call_covered show ?thesis by (metis dispatch.simps(2))
next
  case (ReviewCall c)
  with assms review_config_till show ?thesis by (metis dispatch.simps(3))
next
  case (ConfigCall c)
  with assms review_config_till config_okD(1) show ?thesis by (metis dispatch.simps(4))
next
  case (AdminCall c)
  with assms(1, 6) have run: "run_admin_call e c s = Inr s'" "\<And>a. c \<noteq> AcceptTokenUpdate a"
    by (auto simp: routine_def)
  with till_settings.other_admin_call_obs [OF run] assms(9) show ?thesis by simp
qed

section \<open>Honest runs\<close>

text \<open>
  Runs in which every call is routine and not signed by the contract itself, and in which, between
  the calls, nobody takes tokens out of the contract's accounts.
\<close>

inductive honest_run :: "'w host \<Rightarrow> u64 \<Rightarrow> 'w state \<Rightarrow> bool" for h where
  opened_run:
    "init e admin tok fee (empty_state wd) = Inr s \<Longrightarrow> host.truncate e = h \<Longrightarrow>
     \<forall>t. 0 \<le> balance_of h t (h_self h) wd \<Longrightarrow> honest_run h (e_timestamp (e :: 'w env)) s"
| routine_call:
    "honest_run h now s \<Longrightarrow> now \<le> e_timestamp e \<Longrightarrow> host.truncate e = h \<Longrightarrow> routine k \<Longrightarrow>
     \<not> e_auth e (h_self h) \<Longrightarrow> honest_run h (e_timestamp (e :: 'w env)) (invoke e k s)"
| tokens_in:
    "honest_run h now s \<Longrightarrow> \<forall>t. balance_of h t (h_self h) (st_world s) \<le> balance_of h t (h_self h) wd \<Longrightarrow>
     honest_run h now (s\<lparr>st_world := wd\<rparr>)"

lemma honest_reachable: "honest_run h now s \<Longrightarrow> reachable h now s"
  by (induction rule: honest_run.induct) (auto intro: reachable.intros)

lemma truncate_host:
  assumes "host.truncate (e :: 'w env) = h"
  shows "h_self h = h_self e" "balance_of h = balance_of e" "keeps_books h = keeps_books e"
    "covered h = (covered e :: 'w till \<Rightarrow> bool)"
proof -
  show self: "h_self h = h_self e" using assms by (auto simp: host.defs)
  have tr: "h_transfer h = h_transfer e" and b: "h_balance h = h_balance e" using assms by (auto simp: host.defs)
  show bal: "balance_of h = balance_of e" by (simp add: balance_of_def b fun_eq_iff)
  show "keeps_books h = keeps_books e" unfolding keeps_books_def tr bal ..
  show "covered h = (covered e :: 'w till \<Rightarrow> bool)" unfolding fun_eq_iff covered_def self bal by simp
qed

lemma honest_covered:
  assumes "honest_run h now s" "keeps_books h"
  shows "covered h (till s)"
  using assms
proof induction
  case (opened_run e admin tok fee wd s)
  then have "l_count (till s) = 0" "st_world s = wd"
    by (auto simp: init_def Let_def res_simps till_fields empty_state_def store_defs)
  with opened_run(3) show ?case by (simp add: covered_def liabilities_def till_fields)
next
  case (routine_call now s e k)
  note reach = honest_reachable [OF routine_call(1)]
  have core: "core_inv (e_timestamp e) (core s)" by (rule core_inv_later [OF reachable_core [OF reach] routine_call(2)])
  show ?case
  proof (cases "dispatch e k s")
    case (Inl f)
    with routine_call show ?thesis by (simp add: invoke_def)
  next
    case (Inr s')
    with routine_call dispatch_covered [OF Inr reachable_config [OF reach] core]
      drawers_invariant.reachable_all [OF reach] truncate_host [OF routine_call(3)]
    show ?thesis by (simp add: invoke_def)
  qed
next
  case (tokens_in now s wd)
  have "liabilities (till (s\<lparr>st_world := wd\<rparr>)) = liabilities (till s)"
    by (rule liabilities_cong) (simp_all add: till_frame drawer_def fun_eq_iff)
  with tokens_in show ?case by (auto simp: covered_def till_fields intro: order_trans)
qed

lemma owed_nonneg:
  assumes "reachable h now s"
  shows "0 \<le> owed (till s) cid"
proof -
  note ok = drawers_okD [of "till s" cid]
  have d: "drawers_ok (till s)" using drawers_invariant.reachable_all [OF assms] by blast
  have "0 \<le> (case l_raised (till s) cid of None \<Rightarrow> 0 | Some r \<Rightarrow> if fst r then 0 else snd r)"
    using books_ok_bounds(1) [OF books_of_reachable(1) [OF assms]]
    by (auto simp: till_fields raised_view_def split: option.split)
  moreover have "0 \<le> (case l_reserve (till s) cid of None \<Rightarrow> 0 | Some r \<Rightarrow> if r_released r then 0 else r_amount r)"
    using ok(3) [OF d] by (auto split: option.split)
  ultimately show ?thesis using ok(1, 2) [OF d] by (simp add: owed_def drawer_def)
qed

lemma owed_covered:
  assumes "honest_run h now s" "keeps_books h" "get_campaign_token s cid = Some tok" "get_campaign s cid \<noteq> None"
  shows "owed (till s) cid \<le> balance_of h tok (h_self h) (st_world s)"
proof -
  note reach = honest_reachable [OF assms(1)]
  have "1 \<le> cid \<and> cid \<le> l_count (till s)" using books_of_reachable(5, 6) [OF reach] assms(4) by (auto simp: till_fields)
  then have "(if l_token (till s) cid = Some tok then owed (till s) cid else 0) \<le> liabilities (till s) tok"
    unfolding liabilities_def by (intro member_le_sum) (auto simp: owed_nonneg [OF reach])
  with honest_covered [OF assms(1, 2)] assms(3) show ?thesis by (auto simp: covered_def till_fields intro: order_trans)
qed

section \<open>Properties\<close>

declare One_nat_def [simp del]

text \<open>
  C2: The contract is solvent. Over any sequence of routine calls, with tokens that keep their books and
  that nobody takes from the contract between the calls, the contract's balance in every
  currency covers what it owes there: for each campaign in that currency, a non-negative sum made of the
  contributions neither withdrawn nor refunded, the reserve not yet released, and the revenue pool
  less what the creator took of it.
\<close>

theorem contract_is_solvent:
  assumes "honest_run h now s" "keeps_books h"
  shows "liabilities (till s) tok \<le> balance_of h tok (h_self h) (st_world s) \<and> 0 \<le> owed (till s) cid"
  using honest_covered [OF assms] owed_nonneg [OF honest_reachable [OF assms(1)]]
  by (simp add: covered_def till_fields)

text \<open>The demo tokens keep their books, and the history of \<^verbatim>\<open>History\<close> is an honest run.\<close>

lemma demo_keeps_books: "keeps_books demo_host"
  by (auto simp: keeps_books_def demo_host_def demo_transfer_def balance_of_def Let_def split: if_splits)

lemma honest_invoke:
  assumes "honest_run demo_host now s" "now \<le> t" "routine k"
  shows "honest_run demo_host t (invoke (demo_env t) k s)"
  using routine_call [OF assms(1), of "demo_env t" k] assms(2, 3) by (simp add: demo_host_def)

lemma honest_history:
  "honest_run demo_host 4000 h_backed" "honest_run demo_host 5000 h_funded" "honest_run demo_host 6000 h_cancelled"
proof -
  have "honest_run demo_host 1000 h_deployed"
    using opened_run [OF deployed_ok] by (simp add: balance_of_def demo_host_def demo_balances_def)
  then show backed: "honest_run demo_host 4000 h_backed"
    unfolding h_backed_def h_verified_def h_created_def
    by (intro honest_invoke [of 3000] honest_invoke [of 2000] honest_invoke [of 1000]) (simp_all add: routine_def)
  show "honest_run demo_host 5000 h_funded"
    unfolding h_funded_def by (rule honest_invoke [OF backed]) (simp_all add: routine_def)
  show "honest_run demo_host 6000 h_cancelled"
    unfolding h_cancelled_def by (rule honest_invoke [OF backed]) (simp_all add: routine_def)
qed

theorem contract_is_solvent_witness:
  "liabilities (till h_funded) (Address 1) \<le> balance_of demo_host (Address 1) (Address 99) (st_world h_funded)"
  using contract_is_solvent [OF honest_history(2) demo_keeps_books, of "Address 1"] by (simp add: demo_host_def)

text \<open>In every reachable state the only obstacle to a refund due is the token contract.\<close>

lemma refund_granted:
  assumes reach: "reachable h now s" and camp: "get_campaign s cid = Some c"
    and failed: "c_is_cancelled c \<or> c_deadline c < e_timestamp e \<and> c_amount_raised c < c_funding_goal c \<and>
      in_i128 (get_total_raised_global s - get_contribution s cid who)"
    and who: "e_auth e who" "get_contribution s cid who \<noteq> 0" "\<not> paused_flag s"
    and paid: "get_campaign_token s cid = Some tok"
      "h_transfer e tok (h_self e) who (get_contribution s cid who) (st_world s) = Some w"
  shows "is_ok (claim_refund e cid who s)"
proof -
  note books = books_of_reachable(1) [OF reach camp]
  have not_auto: "\<not> auto_paused_flag s" by (rule config_okD(4) [OF reachable_config [OF reach]])
  have "in_i128 (c_effective_amount_raised c - get_contribution s cid who)"
    using books_ok_bounds(1-3) [OF books] books_ok_bounds(5) [OF books, of who] books_okD(3) [OF books, of who]
    unfolding in_i128_def i128_min_def i128_max_def by linarith
  then show ?thesis
    using camp failed who paid not_auto
    by (auto simp: claim_refund_def Let_def require_auth_def require_not_paused_def get_campaign_or_error_def
        checked_simps transfer_def campaign_token_client_def purse_fields [symmetric] purse_frame)
qed

text \<open>
  C8: Refunds are covered. In an honest run, with a token contract that never refuses a transfer covered
  by the sender's balance, every contributor of a campaign that is cancelled or failed at
  its deadline obtains the refund by signing for it while the contract is not paused; that the
  contract holds the money is not a hypothesis but follows from its books. (The refund of a failed
  campaign is taken off the running total, which has to stay a 128-bit number.)
\<close>

theorem refunds_are_covered:
  assumes run: "honest_run h now s" and tokens: "keeps_books h"
    and pays: "\<And>tok to amt w. 0 \<le> amt \<Longrightarrow> amt \<le> balance_of h tok (h_self h) w \<Longrightarrow>
      h_transfer h tok (h_self h) to amt w \<noteq> None"
    and env: "host.truncate (e :: 'w env) = h" "e_auth e who" "\<not> paused_flag s"
    and camp: "get_campaign s cid = Some c" "get_contribution s cid who \<noteq> 0"
    and failed: "c_is_cancelled c \<or> c_deadline c < e_timestamp e \<and> c_amount_raised c < c_funding_goal c \<and>
      in_i128 (get_total_raised_global s - get_contribution s cid who)"
  shows "is_ok (claim_refund e cid who s)"
proof -
  note reach = honest_reachable [OF run]
  note books = books_of_reachable(1, 2) [OF reach camp(1)]
  obtain tok where tok: "get_campaign_token s cid = Some tok"
    using config_okD(3) [OF reachable_config [OF reach]]
    by (cases "ck_campaign_token (st_campaign s) cid") (auto simp: get_campaign_token_def)
  have live: "\<not> c_funds_withdrawn c" using books(2) failed by (auto simp: flags_ok_def)
  have d: "drawers_ok (till s)" using drawers_invariant.reachable_all [OF reach] by blast
  have raised: "l_raised (till s) cid = Some (False, c_effective_amount_raised c)"
    using camp(1) live by (simp add: till_fields raised_view_def)
  have "owed (till s) cid = c_effective_amount_raised c"
    using raised drawers_okD(4) [OF d, of cid] by (simp add: owed_def drawer_def)
  then have "get_contribution s cid who \<le> balance_of h tok (h_self h) (st_world s)"
    using owed_covered [OF run tokens tok] camp(1) books_ok_bounds(5) [OF books(1), of who] by simp
  then have "h_transfer h tok (h_self h) who (get_contribution s cid who) (st_world s) \<noteq> None"
    using books_okD(3) [OF books(1)] by (intro pays)
  then obtain w where w: "h_transfer e tok (h_self e) who (get_contribution s cid who) (st_world s) = Some w"
    using env(1) by (auto simp: host.defs)
  show ?thesis by (rule refund_granted [OF reach camp(1) failed env(2) camp(2) env(3) tok w])
qed

theorem refunds_are_covered_witness: "is_ok (claim_refund (demo_env 7000) 1 (Address 3) h_cancelled)"
  by (rule refunds_are_covered [OF honest_history(3) demo_keeps_books, of "demo_env 7000" "Address 3" 1
        "h_campaign\<lparr>c_is_cancelled := True, c_is_active := False, c_amount_raised := 60000,
           c_effective_amount_raised := 60000\<rparr>"])
    (simp_all add: cancelled_facts cancelled_side demo_host_def demo_transfer_def balance_of_def)

text \<open>
  Cancelling after a milestone leaves the refunds uncovered. When the creator has claimed a milestone and the
  admin then cancels the campaign, every contribution is still recorded in full and refundable, but
  what the milestone paid is gone: a contract that held exactly what it owed before the claim
  holds less than the refunds afterwards.
\<close>

lemma cancelled_milestones_underfund:
  assumes claim: "claim_milestone e cid mid s = Inr s1"
    and cancel: "admin_cancel_campaign e' a cid reason s1 = Inr s2"
    and camp: "get_campaign s cid = Some c" "get_campaign_token s cid = Some tok"
    and tokens: "keeps_books e" "c_creator c \<noteq> h_self e" "get_admin s \<noteq> Some (h_self e)"
    and exact: "balance_of e tok (h_self e) (st_world s) = liabilities (till s) tok"
  shows "balance_of e tok (h_self e) (st_world s2) < liabilities (till s2) tok \<and>
    get_contribution s2 cid = get_contribution s cid \<and>
    (\<exists>c2. get_campaign s2 cid = Some c2 \<and> c_is_cancelled c2 \<and>
       c_effective_amount_raised c2 = c_effective_amount_raised c)"
proof -
  from admin_cancel_campaign_core [OF cancel] obtain c1 where c1: "get_campaign s1 cid = Some c1" "c_is_active c1"
    "core s2 = k_cancel cid c1 (core s1)" .
  from claim_milestone_core [OF claim] obtain c' where c': "get_campaign s cid = Some c'"
    "core s1 = core s \<or> core s1 = k_withdraw cid c' (core s)" .
  have "core s1 \<noteq> k_withdraw cid c' (core s)"
  proof
    assume "core s1 = k_withdraw cid c' (core s)"
    then have "get_campaign s1 cid = Some (c'\<lparr>c_funds_withdrawn := True, c_is_active := False\<rparr>)"
      by (simp add: core_fields [symmetric] k_withdraw_def)
    with c1(1, 2) show False by auto
  qed
  with c'(2) have core1: "core s1 = core s" by blast
  then have "get_campaign s1 = get_campaign s" by (simp add: core_fields [symmetric])
  with c1(1) camp(1) have "c1 = c" by simp
  obtain c0 pay fee admin tok0 w where
    p: "get_campaign s cid = Some c0" "0 < pay" "get_admin s = Some admin" "get_campaign_token s cid = Some tok0"
    "if 0 < fee then h_transfer e tok0 (h_self e) admin fee (st_world s) = Some w else w = st_world s"
    "h_transfer e tok0 (h_self e) (c_creator c0) pay w = Some (st_world s1)"
    by (rule claim_milestone_purse [OF claim], rule that; assumption)
  with camp have eq: "c0 = c" "tok0 = tok" by simp_all
  have "balance_of e tok (h_self e) w \<le> balance_of e tok (h_self e) (st_world s)"
    using p(3, 5) tokens(3) keeps_booksD [OF tokens(1), of tok "h_self e" admin fee "st_world s" w tok "h_self e"]
    by (auto simp: eq split: if_splits)
  moreover have "balance_of e tok (h_self e) (st_world s1) = balance_of e tok (h_self e) w - pay"
    using keeps_booksD [OF tokens(1) p(6), of tok "h_self e"] tokens(2) by (simp add: eq)
  ultimately have less: "balance_of e tok (h_self e) (st_world s1) < liabilities (till s) tok"
    using exact p(2) by linarith
  have "drawer (till s1) = drawer (till s)" "l_token (till s1) = l_token (till s)"
    using claim_milestone_drawer_fields [OF claim] core1 by (simp_all add: drawer_def fun_eq_iff till_def till_of_def)
  moreover have "l_count (till s1) = l_count (till s)" by (simp add: till_def till_of_def core1)
  ultimately have "liabilities (till s1) = liabilities (till s)" by (intro liabilities_cong) simp_all
  moreover have t2: "till s2 = till s1" by (rule admin_cancel_campaign_till [OF cancel])
  moreover have "st_world s2 = st_world s1" using arg_cong [OF t2, of l_world] by (simp add: till_fields)
  moreover have "get_campaign s2 cid = Some (c\<lparr>c_is_cancelled := True, c_is_active := False\<rparr>)"
    "get_contribution s2 = get_contribution s"
    using c1(3) \<open>c1 = c\<close> core1 by (simp_all add: core_fields [symmetric] k_cancel_def)
  ultimately show ?thesis using less by simp
qed

end
