(* ===== verification/Owners.thy ===== *)
theory Owners
  imports Listings Buckets
begin

text \<open>
  The index of campaigns by creator across all calls: the position records and the slots of the
  buckets point at each other, they cover exactly the campaigns the address owns, and the count and the
  owner record agree with them. A transfer that was initiated can therefore always be accepted.
\<close>

section \<open>Positions and slots\<close>

text \<open>One creator's buckets and the positions recorded for the campaigns in them.\<close>

definition linked :: "(u32 \<Rightarrow> u32 list) \<Rightarrow> (u32 \<Rightarrow> (u32 \<times> u32) option) \<Rightarrow> bool" where
  "linked bucket pos \<longleftrightarrow> (\<forall>cid b i. pos cid = Some (b, i) \<longleftrightarrow> vec_get (bucket b) i = Some cid)"

lemma vec_get_snoc: "vec_get (xs @ [x]) i = (if i = length xs then Some x else vec_get xs i)"
  by (auto simp: vec_get_def nth_append)

lemma vec_get_update: "vec_get (xs[i := x]) j = (if j = i \<and> i < length xs then Some x else vec_get xs j)"
  by (auto simp: vec_get_def)

lemma vec_get_butlast: "vec_get (butlast xs) i = (if i < length xs - 1 then vec_get xs i else None)"
  by (auto simp: vec_get_def nth_butlast)

lemma linked_append:
  assumes "linked bucket pos" "pos cid = None"
  shows "linked (bucket(b := bucket b @ [cid])) (pos(cid \<mapsto> (b, length (bucket b))))"
proof -
  have "vec_get (bucket b') i \<noteq> Some cid" for b' i using assms unfolding linked_def by force
  moreover have "vec_get (bucket b) (length (bucket b)) = None" by (simp add: vec_get_def)
  ultimately show ?thesis using assms(1) by (auto simp: linked_def vec_get_snoc)
qed

lemma linked_remove:
  assumes link: "linked bucket pos" and at: "pos cid = Some (b, i)"
    and last: "vec_get (bucket b) (length (bucket b) - 1) = Some final"
  defines "bucket' \<equiv> bucket(b := butlast (if i \<noteq> length (bucket b) - 1 then (bucket b)[i := final] else bucket b))"
    and "pos' \<equiv> (if i \<noteq> length (bucket b) - 1 then pos(final \<mapsto> (b, i)) else pos)(cid := None)"
  shows "linked bucket' pos'"
proof -
  let ?n = "length (bucket b) - 1"
  have slot: "vec_get (bucket b) i = Some cid" using link at unfolding linked_def by blast
  then have i: "i < length (bucket b)" "i \<le> ?n" by (auto simp: vec_get_def split: if_splits)
  have final_at: "pos final = Some (b, ?n)" using link last unfolding linked_def by blast
  have get': "vec_get (bucket' b') j = (if b' = b then if j < ?n then if j = i then Some final else vec_get (bucket b) j
      else None else vec_get (bucket b') j)" for b' j
    using i by (auto simp: bucket'_def vec_get_butlast vec_get_update)
  have uniq: "vec_get (bucket b1) j1 = Some x \<Longrightarrow> vec_get (bucket b2) j2 = Some x \<Longrightarrow> b1 = b2 \<and> j1 = j2" for b1 j1 b2 j2 x
    using link unfolding linked_def by (metis option.inject prod.inject)
  have in_range: "vec_get (bucket b) j = Some x \<Longrightarrow> j \<le> ?n" for j x by (auto simp: vec_get_def split: if_splits)
  have pos: "pos x = Some (b', j) \<longleftrightarrow> vec_get (bucket b') j = Some x" for x b' j
    using link unfolding linked_def by blast
  have fin: "i = ?n" if "final = cid" using uniq [OF slot, of b ?n] last that by simp
  show ?thesis
    unfolding linked_def
  proof (intro allI)
    fix x b' j
    consider "x = cid" | "x \<noteq> cid" "x = final" | "x \<noteq> cid" "x \<noteq> final" by blast
    then show "pos' x = Some (b', j) \<longleftrightarrow> vec_get (bucket' b') j = Some x"
    proof cases
      case 1
      have "vec_get (bucket' b') j \<noteq> Some cid"
        using uniq [OF slot] uniq [OF last] fin i unfolding get' by (auto split: if_splits)
      then show ?thesis using 1 by (simp add: pos'_def)
    next
      case 2
      then have "i \<noteq> ?n" using slot last by auto
      with 2 i uniq [OF last] show ?thesis by (auto simp: pos'_def get')
    next
      case 3
      have "vec_get (bucket' b') j = Some x \<longleftrightarrow> vec_get (bucket b') j = Some x"
      proof (cases "b' = b")
        case True
        consider "j = i" | "j = ?n" "j \<noteq> i" | "j < ?n" "j \<noteq> i" | "?n < j" by linarith
        then show ?thesis
          using 3 slot last in_range [of j x] unfolding get' True by cases auto
      qed (simp add: get')
      with 3 pos [of x b' j] show ?thesis by (simp add: pos'_def)
    qed
  qed
qed

section \<open>The index\<close>

record desk =
  d_count :: "address \<Rightarrow> u32"
  d_bucket :: "address \<Rightarrow> u32 \<Rightarrow> u32 list"
  d_position :: "address \<Rightarrow> u32 \<Rightarrow> (u32 \<times> u32) option"
  d_owner :: "u32 \<Rightarrow> address option"

definition desk :: "'w state \<Rightarrow> desk" where
  "desk s = \<lparr>d_count = get_creator_campaign_count s, d_bucket = get_creator_campaign_bucket s,
     d_position = get_creator_campaign_position s, d_owner = get_campaign_creator_index s\<rparr>"

lemma desk_fields:
  "d_count (desk s) = get_creator_campaign_count s" "d_bucket (desk s) = get_creator_campaign_bucket s"
  "d_position (desk s) = get_creator_campaign_position s" "d_owner (desk s) = get_campaign_creator_index s"
  by (simp_all add: desk_def)

interpretation desk_calls: fund_call_observer desk
  by unfold_locales (simp_all add: desk_def store_defs fun_eq_iff)

interpretation desk_settings: config_observer desk
  by unfold_locales (simp_all add: desk_def store_defs fun_eq_iff)

lemma desk_frame:
  "desk (publish tp v s) = desk s" "desk (set_campaign cid c s) = desk s"
  "desk (set_creator_title_index a h n s) = desk s" "desk (set_category_campaign_count cat n s) = desk s"
  "desk (set_category_campaign_bucket cat b xs s) = desk s" "desk (set_active_campaign_count n s) = desk s"
  "desk (opened e n c pinned s) = desk s"
  by (simp_all add: desk_def store_defs fun_eq_iff opened_def Let_def split: option.split)

lemma desk_writes:
  "desk (set_creator_campaign_count a n s) = (desk s)\<lparr>d_count := (d_count (desk s))(a := n)\<rparr>"
  "desk (set_creator_campaign_bucket a b xs s) =
     (desk s)\<lparr>d_bucket := (d_bucket (desk s))(a := (d_bucket (desk s) a)(b := xs))\<rparr>"
  "desk (set_creator_campaign_position a cid b i s) =
     (desk s)\<lparr>d_position := (d_position (desk s))(a := (d_position (desk s) a)(cid \<mapsto> (b, i)))\<rparr>"
  "desk (remove_creator_campaign_position a cid s) =
     (desk s)\<lparr>d_position := (d_position (desk s))(a := (d_position (desk s) a)(cid := None))\<rparr>"
  "desk (set_campaign_creator_index cid a s) = (desk s)\<lparr>d_owner := (d_owner (desk s))(cid \<mapsto> a)\<rparr>"
  by (auto simp: desk_def store_defs fun_eq_iff)

text \<open>Who owns which campaign, from the campaigns themselves.\<close>

definition owners :: "core \<Rightarrow> u32 \<Rightarrow> address option" where
  "owners k cid = map_option c_creator (k_camp k cid)"

definition indexed :: "desk \<Rightarrow> (u32 \<Rightarrow> address option) \<Rightarrow> bool" where
  "indexed d own \<longleftrightarrow>
     (\<forall>a. linked (d_bucket d a) (d_position d a) \<and>
        (\<forall>cid. d_position d a cid \<noteq> None \<longleftrightarrow> own cid = Some a) \<and>
        d_count d a = card {cid. own cid = Some a})"

lemma indexedD:
  assumes "indexed d own"
  shows "linked (d_bucket d a) (d_position d a)" "d_position d a cid \<noteq> None \<longleftrightarrow> own cid = Some a"
    "d_count d a = card {i. own i = Some a}"
  using assms unfolding indexed_def by blast+

section \<open>The two writes of the index\<close>

lemma append_index_desk:
  assumes "append_creator_index a cid s = Inr s'"
  shows "desk s' = (let d = desk s; b = d_count d a div CREATOR_CAMPAIGNS_BUCKET_SIZE in
      d\<lparr>d_count := (d_count d)(a := d_count d a + 1),
        d_bucket := (d_bucket d)(a := (d_bucket d a)(b := d_bucket d a b @ [cid])),
        d_position := (d_position d)(a := (d_position d a)(cid \<mapsto> (b, length (d_bucket d a b))))\<rparr>)"
    "get_creator_campaign_count s a < u32_max"
  using assms
  by (auto simp: append_creator_index_ok desk_writes Let_def) (simp_all add: desk_fields)

lemma append_index_ok:
  "is_ok (append_creator_index a cid s) \<longleftrightarrow> get_creator_campaign_count s a < u32_max"
  by (auto simp: append_creator_index_def Let_def checked_simps)

lemma remove_index_at:
  assumes "get_creator_campaign_position s a cid = Some (b, i)"
    and "vec_get (get_creator_campaign_bucket s a b) i = Some cid"
  obtains s' final where "remove_from_creator_index a cid s = Inr s'"
    "vec_get (d_bucket (desk s) a b) (length (d_bucket (desk s) a b) - 1) = Some final"
    "desk s' = (let d = desk s; xs = d_bucket d a b; moved = (i \<noteq> length xs - 1) in
      d\<lparr>d_count := (d_count d)(a := d_count d a - 1),
        d_bucket := (d_bucket d)(a := (d_bucket d a)(b := butlast (if moved then xs[i := final] else xs))),
        d_position := (d_position d)(a :=
          (if moved then (d_position d a)(final \<mapsto> (b, i)) else d_position d a)(cid := None))\<rparr>)"
proof -
  let ?xs = "get_creator_campaign_bucket s a b"
  have i: "i < length ?xs" "?xs \<noteq> []" using assms(2) by (auto simp: vec_get_def split: if_splits)
  then have last: "vec_get ?xs (length ?xs - 1) = Some (?xs ! (length ?xs - 1))" by (simp add: vec_get_def)
  let ?final = "?xs ! (length ?xs - 1)"
  let ?s1 = "if i \<noteq> length ?xs - 1 then set_creator_campaign_position a ?final b i s else s"
  let ?s' = "set_creator_campaign_count a (get_creator_campaign_count s a - 1)
     (remove_creator_campaign_position a cid (set_creator_campaign_bucket a b
        (butlast (if i \<noteq> length ?xs - 1 then ?xs[i := ?final] else ?xs)) ?s1))"
  have "remove_from_creator_index a cid s = Inr ?s'"
    using assms i(2) last
    by (simp add: remove_from_creator_index_def get_creator_campaign_position_or_legacy_scan_def Let_def)
  moreover have "desk ?s' = (let d = desk s; xs = d_bucket d a b; moved = (i \<noteq> length xs - 1) in
      d\<lparr>d_count := (d_count d)(a := d_count d a - 1),
        d_bucket := (d_bucket d)(a := (d_bucket d a)(b := butlast (if moved then xs[i := ?final] else xs))),
        d_position := (d_position d)(a :=
          (if moved then (d_position d a)(?final \<mapsto> (b, i)) else d_position d a)(cid := None))\<rparr>)"
    by (simp add: desk_writes Let_def) (simp add: desk_fields)
  ultimately show thesis using that [of ?s' ?final] last by (simp add: desk_fields)
qed

lemma card_owned_add:
  assumes "finite (dom own)" "own cid = None"
  shows "card {i. (own(cid \<mapsto> a)) i = Some x} = card {i. own i = Some x} + (if x = a then 1 else 0)"
proof -
  have fin: "finite {i. own i = Some x}" by (rule finite_subset [OF _ assms(1)]) auto
  have "{i. (own(cid \<mapsto> a)) i = Some x} = (if x = a then insert cid {i. own i = Some x} else {i. own i = Some x})"
    using assms(2) by auto
  then show ?thesis using fin assms(2) by (auto simp: card_insert_if)
qed

lemma card_owned_remove:
  assumes "finite (dom own)" "own cid = Some a"
  shows "card {i. (own(cid := None)) i = Some x} = card {i. own i = Some x} - (if x = a then 1 else 0)"
proof -
  have fin: "finite {i. own i = Some x}" by (rule finite_subset [OF _ assms(1)]) auto
  have "{i. (own(cid := None)) i = Some x} = (if x = a then {i. own i = Some x} - {cid} else {i. own i = Some x})"
    using assms(2) by auto
  then show ?thesis using fin assms(2) by (simp add: card_Diff_singleton)
qed

lemma indexed_append:
  assumes "append_creator_index a cid s = Inr s'" "indexed (desk s) own" "own cid = None" "finite (dom own)"
  shows "indexed (desk s') (own(cid \<mapsto> a))"
  unfolding indexed_def
proof (intro allI conjI)
  note desk' = append_index_desk(1) [OF assms(1), unfolded Let_def]
  have none: "d_position (desk s) x cid = None" for x
    using indexedD(2) [OF assms(2), of x cid] assms(3) by (cases "d_position (desk s) x cid") simp_all
  fix x
  show "linked (d_bucket (desk s') x) (d_position (desk s') x)"
    using indexedD(1) [OF assms(2), of x] linked_append [OF indexedD(1) [OF assms(2), of a] none [of a]]
    unfolding desk' by simp
  show "d_count (desk s') x = card {i. (own(cid \<mapsto> a)) i = Some x}"
    unfolding card_owned_add [OF assms(4, 3)] desk' using indexedD(3) [OF assms(2)] by simp
  show "(d_position (desk s') x i \<noteq> None) = ((own(cid \<mapsto> a)) i = Some x)" for i
    unfolding desk' using indexedD(2) [OF assms(2), of x i] none [of x] by auto
qed

lemma indexed_remove:
  assumes "indexed (desk s) own" "own cid = Some a" "finite (dom own)"
  obtains s' where "remove_from_creator_index a cid s = Inr s'" "indexed (desk s') (own(cid := None))"
    "d_owner (desk s') = d_owner (desk s)"
proof -
  obtain b i where at: "d_position (desk s) a cid = Some (b, i)"
    using indexedD(2) [OF assms(1), of a cid] assms(2) by auto
  then have slot: "vec_get (d_bucket (desk s) a b) i = Some cid"
    using indexedD(1) [OF assms(1), of a] unfolding linked_def by blast
  from remove_index_at [OF at [unfolded desk_fields] slot [unfolded desk_fields]] obtain s' final where
    s': "remove_from_creator_index a cid s = Inr s'"
    and last: "vec_get (d_bucket (desk s) a b) (length (d_bucket (desk s) a b) - 1) = Some final"
    and desk': "desk s' = (let d = desk s; xs = d_bucket d a b; moved = (i \<noteq> length xs - 1) in
      d\<lparr>d_count := (d_count d)(a := d_count d a - 1),
        d_bucket := (d_bucket d)(a := (d_bucket d a)(b := butlast (if moved then xs[i := final] else xs))),
        d_position := (d_position d)(a :=
          (if moved then (d_position d a)(final \<mapsto> (b, i)) else d_position d a)(cid := None))\<rparr>)" .
  note desk' = desk' [unfolded Let_def]
  have final: "d_position (desk s) a final \<noteq> None"
    using indexedD(1) [OF assms(1), of a] last unfolding linked_def by force
  have elsewhere: "d_position (desk s) x cid = None" if "x \<noteq> a" for x
    using indexedD(2) [OF assms(1), of x cid] assms(2) that by (cases "d_position (desk s) x cid") simp_all
  have "indexed (desk s') (own(cid := None))"
    unfolding indexed_def
  proof (intro allI conjI)
    fix x
    show "linked (d_bucket (desk s') x) (d_position (desk s') x)"
      using indexedD(1) [OF assms(1), of x]
        linked_remove [OF indexedD(1) [OF assms(1), of a] at last] unfolding desk' by simp
    show "d_count (desk s') x = card {j. (own(cid := None)) j = Some x}"
      unfolding card_owned_remove [OF assms(3, 2)] desk' using indexedD(3) [OF assms(1)] by simp
    show "(d_position (desk s') x j \<noteq> None) = ((own(cid := None)) j = Some x)" for j
      unfolding desk' using indexedD(2) [OF assms(1)] assms(2) final elsewhere [of x] by (auto split: if_splits)
  qed
  moreover have "d_owner (desk s') = d_owner (desk s)" by (simp add: desk')
  ultimately show thesis using that s' by blast
qed

section \<open>Moves keep the owners\<close>

definition keeps_owners :: "core \<Rightarrow> core \<Rightarrow> bool" where
  "keeps_owners k k' \<longleftrightarrow>
     (\<forall>cid c. k_camp k cid = Some c \<longrightarrow> (\<exists>c'. k_camp k' cid = Some c' \<and> c_creator c' = c_creator c \<and>
        (c_pending_creator c \<noteq> Pending (c_creator c) \<longrightarrow> c_pending_creator c' \<noteq> Pending (c_creator c'))))"

lemma keeps_owners_one:
  "k_camp k cid = Some c \<Longrightarrow> k_camp k' = (k_camp k)(cid \<mapsto> c') \<Longrightarrow> c_creator c' = c_creator c \<Longrightarrow>
   (c_pending_creator c \<noteq> Pending (c_creator c) \<Longrightarrow> c_pending_creator c' \<noteq> Pending (c_creator c')) \<Longrightarrow>
   keeps_owners k k'"
  by (auto simp: keeps_owners_def)

lemma keeps_owners_trans: "keeps_owners k1 k2 \<Longrightarrow> keeps_owners k2 k3 \<Longrightarrow> keeps_owners k1 k3"
  unfolding keeps_owners_def by metis

lemma core_step_keeps_owners:
  assumes "core_step now k k'" "core_inv now k"
  shows "keeps_owners k k'"
  using assms(1)
proof cases
  case (created c)
  then show ?thesis using core_inv_next [OF assms(2)] by (auto simp: keeps_owners_def k_create_def)
next
  case (edit cid c c')
  from edit(3) have "c_creator c' = c_creator c"
    "c_pending_creator c' = c_pending_creator c \<or> c_pending_creator c' \<noteq> Pending (c_creator c)"
    unfolding edited_def by (blast, auto)
  then show ?thesis using edit by (intro keeps_owners_one [OF edit(2), of _ c']) (auto simp: put_def)
qed (simp_all add: move_defs keeps_owners_def)

lemma core_steps_keep_owners:
  assumes "core_steps now k k'" "core_inv now k"
  shows "keeps_owners k k'"
  using assms
proof (induction rule: rtranclp_induct)
  case (step k1 k2)
  then have "core_inv now k1" using core_steps_inv by blast
  with step core_step_keeps_owners [OF step(2)] have "keeps_owners k k1" "keeps_owners k1 k2" by simp_all
  then show ?case by (rule keeps_owners_trans)
qed (simp add: keeps_owners_def)

lemma same_owners:
  assumes "keeps_owners k k'" "core_inv now k" "core_inv now k'" "k_count k' = k_count k"
  shows "owners k' = owners k"
proof
  fix cid
  show "owners k' cid = owners k cid"
  proof (cases "k_camp k cid")
    case None
    then have "k_camp k' cid = None" using assms(2-4) unfolding core_inv_def by metis
    with None show ?thesis by (simp add: owners_def)
  next
    case (Some c)
    with assms(1) show ?thesis by (auto simp: keeps_owners_def owners_def)
  qed
qed

section \<open>The index is exact\<close>

definition index_ok :: "'w state \<Rightarrow> bool" where
  "index_ok s \<longleftrightarrow>
     indexed (desk s) (owners (core s)) \<and> d_owner (desk s) = owners (core s) \<and>
     get_campaign_count s \<le> u32_max \<and>
     (\<forall>cid c. get_campaign s cid = Some c \<longrightarrow> c_pending_creator c \<noteq> Pending (c_creator c))"

text \<open>Calls that neither create nor hand over.\<close>

lemma other_call_desk:
  assumes "dispatch e k s = Inr s'" "config_ok (config s)" "\<And>cid. \<not> accepts k cid"
    and "\<And>p. k \<noteq> CampaignCall (CreateCampaign p)" "\<And>p tok. k \<noteq> CampaignCall (CreateCampaignWithToken p tok)"
  shows "desk s' = desk s" "get_campaign_count s' = get_campaign_count s"
proof -
  have "desk s' = desk s \<and> catalogue s' = catalogue s"
  proof (cases k)
    case (CampaignCall c)
    with assms show ?thesis using desk_calls.edit_call_obs [of e c s s'] catalogue_calls.campaign_call_obs [of e c s s'] by auto
  next
    case (FundCall c)
    with assms show ?thesis using desk_calls.fund_call_obs [of e c s s'] catalogue_calls.fund_call_obs [of e c s s'] by simp
  next
    case (ReviewCall c)
    with assms show ?thesis using desk_calls.review_call_obs [of e c s s'] catalogue_calls.review_call_obs [of e c s s'] by simp
  next
    case (ConfigCall c)
    with assms show ?thesis
      using desk_settings.config_call_obs [of e c s s'] catalogue_settings.config_call_obs [of e c s s'] config_okD(1) [OF assms(2)]
      by simp
  next
    case (AdminCall c)
    with assms show ?thesis using desk_settings.admin_call_obs [of e c s s'] catalogue_settings.admin_call_obs [of e c s s'] by simp
  qed
  then show "desk s' = desk s" "get_campaign_count s' = get_campaign_count s" by (simp_all add: catalogue_fields [symmetric])
qed

lemma other_call_index:
  assumes "dispatch e k s = Inr s'" "config_ok (config s)" "\<And>cid. \<not> accepts k cid"
    and "\<And>p. k \<noteq> CampaignCall (CreateCampaign p)" "\<And>p tok. k \<noteq> CampaignCall (CreateCampaignWithToken p tok)"
    and inv: "core_inv (e_timestamp e) (core s)" "index_ok s"
  shows "index_ok s'"
proof -
  note same = other_call_desk [OF assms(1-5)]
  have keeps: "keeps_owners (core s) (core s')"
    by (rule core_steps_keep_owners [OF dispatch_refines [OF assms(1-3)] inv(1)])
  have inv': "core_inv (e_timestamp e) (core s')" by (rule dispatch_core_inv [OF assms(1, 2) inv(1)])
  have own: "owners (core s') = owners (core s)"
    by (rule same_owners [OF keeps inv(1) inv']) (simp add: core_fields same(2))
  have "c_pending_creator c' \<noteq> Pending (c_creator c')" if "get_campaign s' cid = Some c'" for cid c'
  proof -
    have "cid \<in> dom (k_camp (core s))"
      using that core_inv_dom [OF inv'] core_inv_dom [OF inv(1)] same(2) by (auto simp: core_fields)
    then obtain c where "k_camp (core s) cid = Some c" by blast
    with keeps that inv(2) show ?thesis by (fastforce simp: keeps_owners_def core_fields index_ok_def)
  qed
  with inv(2) own same show ?thesis by (simp add: index_ok_def)
qed

lemma create_inner_bound: "create_campaign_inner e p tok s = Inr (n, s') \<Longrightarrow> n \<le> u32_max"
  by (simp only: create_campaign_inner_def Let_def res_simps prod.inject) (auto simp: checked_eq_Some)

lemma create_index:
  assumes "run_campaign_call e k s = Inr s'" "k = CreateCampaign p \<or> k = CreateCampaignWithToken p tok"
    "config_ok (config s)" "core_inv (e_timestamp e) (core s)" "index_ok s"
  shows "index_ok s'"
proof -
  from assms(1, 2) obtain n opt s3 where inner: "create_campaign_inner e p opt s = Inr (n, s3)"
    and inc: "increment_active_campaign_count s3 = Inr s'"
    by (auto simp: create_campaign_entry_def create_campaign_def create_campaign_with_token_entry_def
        create_campaign_with_token_def res_simps)
  have inc_same: "desk s' = desk s3" "get_campaign s' = get_campaign s3" "get_campaign_count s' = get_campaign_count s3"
    using inc by (auto simp: increment_active_campaign_count_def Let_def res_simps desk_frame) (simp_all add: store_defs fun_eq_iff)
  have caps: "\<forall>d. get_category_duration_cap s (p_category p) = Some d \<longrightarrow> d \<le> 365"
    using config_okD(6) [OF assms(3)] by blast
  from create_campaign_inner_core [OF inner caps] obtain share where n: "n = get_campaign_count s + 1"
    and core3: "core s3 = (core s)\<lparr>k_count := n, k_camp := (get_campaign s)(n \<mapsto>
         new_campaign p n share (e_timestamp e + p_duration_days p * SECONDS_PER_DAY)),
       k_start := (get_campaign_start_time s)(n \<mapsto> e_timestamp e)\<rparr>" .
  from create_campaign_inner_writes [OF inner] obtain share' h pinned s1 s2 where
    cat: "append_category_index (p_category p) n
       (opened e n (new_campaign p n share' (e_timestamp e + p_duration_days p * SECONDS_PER_DAY)) pinned s) = Inr s1"
    and idx: "append_creator_index (p_creator p) n s1 = Inr s2"
    and s3: "s3 = publish [Sym ''campaign_created'', U32 n, Addr (p_creator p)]
        [Str (p_title p), U32 (category_code (p_category p))]
        (set_creator_title_index (p_creator p) h n (set_campaign_creator_index n (p_creator p) s2))" by metis
  have d1: "desk s1 = desk s" using cat by (auto simp: append_category_index_ok desk_frame)
  let ?own = "owners (core s)"
  have none: "?own n = None" using core_inv_next [OF assms(4)] n by (simp add: owners_def core_fields)
  have fin: "finite (dom ?own)"
    using core_inv_dom [OF assms(4)] by (simp add: owners_def dom_def)
  have own': "owners (core s') = ?own(n \<mapsto> p_creator p)"
    using core3 inc_same(2) by (auto simp: owners_def fun_eq_iff core_fields new_campaign_def dest!: arg_cong [of _ _ k_camp])
  have "indexed (desk s2) (?own(n \<mapsto> p_creator p))"
    by (rule indexed_append [OF idx _ none fin]) (use d1 assms(5) in \<open>simp add: index_ok_def\<close>)
  moreover have "desk s' = (desk s2)\<lparr>d_owner := (d_owner (desk s2))(n \<mapsto> p_creator p)\<rparr>"
    by (simp add: inc_same(1) s3 desk_frame desk_writes)
  moreover have "d_owner (desk s2) = ?own"
    using append_index_desk(1) [OF idx] d1 assms(5) by (simp add: Let_def index_ok_def)
  ultimately have "indexed (desk s') (owners (core s'))" "d_owner (desk s') = owners (core s')"
    by (simp_all add: own' indexed_def)
  moreover have "get_campaign_count s' \<le> u32_max"
    using create_inner_bound [OF inner] arg_cong [OF core3, of k_count] inc_same(3) by (simp add: core_fields)
  moreover have "c_pending_creator c \<noteq> Pending (c_creator c)" if "get_campaign s' cid = Some c" for cid c
    using that arg_cong [OF core3, of k_camp] inc_same(2) assms(5)
    by (auto simp: core_fields new_campaign_def index_ok_def split: if_splits)
  ultimately show ?thesis by (simp add: index_ok_def)
qed

lemma owners_handed_over:
  "k_camp k cid = Some c \<Longrightarrow> owners (put cid (c\<lparr>c_creator := a, c_pending_creator := NoPending\<rparr>) k) =
     (owners k)(cid \<mapsto> a)"
  by (auto simp: owners_def put_def fun_eq_iff)

lemma owners_finite: "core_inv now k \<Longrightarrow> finite (dom (owners k))"
  using core_inv_dom [of now k] by (simp add: owners_def dom_def)

lemma accept_index:
  assumes "accept_campaign_transfer e cid s = Inr s'" "core_inv now (core s)" "index_ok s"
  shows "index_ok s'"
proof -
  from accept_campaign_transfer_hand_over [OF assms(1)] obtain c a where c: "get_campaign s cid = Some c"
    and core': "core s' = put cid (c\<lparr>c_creator := a, c_pending_creator := NoPending\<rparr>) (core s)"
    by cases (auto simp: core_fields)
  from accept_campaign_transfer_index [OF assms(1) c] obtain s1 s2 a' where
    rem: "remove_from_creator_index (c_creator c) cid s = Inr s1" and add: "append_creator_index a' cid s1 = Inr s2"
    and s': "s' = publish [Sym ''campaign_transfer_completed'', U32 cid] [Addr (c_creator c), Addr a']
       (set_campaign cid (c\<lparr>c_creator := a', c_pending_creator := NoPending\<rparr>) (set_campaign_creator_index cid a' s2))"
    by metis
  have "get_campaign s' cid = Some (c\<lparr>c_creator := a', c_pending_creator := NoPending\<rparr>)"
    by (simp add: s' store_defs)
  then have "a' = a" using arg_cong [OF core', of k_camp] by (auto simp: core_fields put_def dest: arg_cong [of _ _ c_creator])
  note fin = owners_finite [OF assms(2)]
  let ?own = "owners (core s)"
  have own: "?own cid = Some (c_creator c)" using c by (simp add: owners_def core_fields)
  have ix: "indexed (desk s) ?own" "d_owner (desk s) = ?own" using assms(3) by (simp_all add: index_ok_def)
  obtain s1' where "remove_from_creator_index (c_creator c) cid s = Inr s1'" "indexed (desk s1') (?own(cid := None))"
    "d_owner (desk s1') = d_owner (desk s)" by (rule indexed_remove [OF ix(1) own fin])
  with rem ix(2) have ix1: "indexed (desk s1) (?own(cid := None))" "d_owner (desk s1) = ?own" by simp_all
  have "indexed (desk s2) ((?own(cid := None))(cid \<mapsto> a))"
    by (rule indexed_append [OF add [unfolded \<open>a' = a\<close>] ix1(1)]) (use fin in simp_all)
  moreover have "desk s' = (desk s2)\<lparr>d_owner := (d_owner (desk s2))(cid \<mapsto> a)\<rparr>"
    by (simp add: s' desk_frame desk_writes \<open>a' = a\<close>)
  moreover have "d_owner (desk s2) = ?own" using append_index_desk(1) [OF add] ix1(2) by (simp add: Let_def)
  moreover have "owners (core s') = ?own(cid \<mapsto> a)"
    unfolding core' by (rule owners_handed_over) (simp add: core_fields c)
  ultimately have "indexed (desk s') (owners (core s'))" "d_owner (desk s') = owners (core s')"
    by (simp_all add: indexed_def)
  moreover have "get_campaign_count s' = get_campaign_count s"
    "get_campaign s' = (get_campaign s)(cid \<mapsto> c\<lparr>c_creator := a, c_pending_creator := NoPending\<rparr>)"
    using arg_cong [OF core', of k_count] arg_cong [OF core', of k_camp] by (simp_all add: core_fields put_def)
  ultimately show ?thesis using assms(3) by (auto simp: index_ok_def)
qed

lemma dispatch_index:
  assumes "dispatch e k s = Inr s'" "config_ok (config s)" "core_inv (e_timestamp e) (core s)" "index_ok s"
  shows "index_ok s'"
proof -
  consider cid where "accepts k cid" | c p tok where "k = CampaignCall c" "c = CreateCampaign p \<or> c = CreateCampaignWithToken p tok"
    | "\<And>cid. \<not> accepts k cid" "\<And>p. k \<noteq> CampaignCall (CreateCampaign p)" "\<And>p tok. k \<noteq> CampaignCall (CreateCampaignWithToken p tok)"
    by blast
  then show ?thesis
  proof cases
    case 1
    with assms show ?thesis by (auto intro: accept_index)
  next
    case 2
    with assms(1) have "run_campaign_call e c s = Inr s'" by simp
    from create_index [OF this 2(2) assms(2-4)] show ?thesis .
  next
    case 3
    from other_call_index [OF assms(1, 2) this assms(3, 4)] show ?thesis .
  qed
qed

interpretation index_invariant: contract_invariant "\<lambda>now. index_ok"
proof unfold_locales
  show "index_ok s" if "init e a tok fee (empty_state wd) = Inr s" for e :: "'a env" and a tok fee wd s
    using that by (auto simp: init_def Let_def res_simps index_ok_def indexed_def linked_def vec_get_def owners_def
        desk_def core_def empty_state_def store_defs u32_max_def)
  show "index_ok (s\<lparr>st_world := wd\<rparr>)" if "index_ok s" for s :: "'a state" and wd
  proof -
    have "desk (s\<lparr>st_world := wd\<rparr>) = desk s" "get_campaign (s\<lparr>st_world := wd\<rparr>) = get_campaign s"
      "get_campaign_count (s\<lparr>st_world := wd\<rparr>) = get_campaign_count s"
      by (simp_all add: desk_def store_defs fun_eq_iff)
    with that show ?thesis by (simp add: index_ok_def core_frame)
  qed
qed (simp_all add: dispatch_index)

lemma reachable_index: "reachable h now s \<Longrightarrow> index_ok s"
  using index_invariant.reachable_all by blast

section \<open>Properties\<close>

declare One_nat_def [simp del]

text \<open>
  C20: The creator index is exact. In every reachable state the owner record of a campaign is its creator; an
  address has a position record for a campaign exactly when it is its creator; a position names
  the slot that holds the campaign and every slot is named by the position of what it holds, so no
  campaign is listed twice; and the stored count is the number of campaigns the address owns.
\<close>

theorem creator_index_exact:
  assumes "reachable h now s"
  shows "(is_campaign_creator s cid a \<longleftrightarrow> (\<exists>c. get_campaign s cid = Some c \<and> c_creator c = a)) \<and>
    (get_creator_campaign_position s a cid \<noteq> None \<longleftrightarrow> (\<exists>c. get_campaign s cid = Some c \<and> c_creator c = a)) \<and>
    (get_creator_campaign_position s a cid = Some (b, i) \<longleftrightarrow>
       vec_get (get_creator_campaign_bucket s a b) i = Some cid) \<and>
    get_creator_campaign_count s a = card {i. \<exists>c. get_campaign s i = Some c \<and> c_creator c = a}"
proof -
  have ok: "indexed (desk s) (owners (core s))" "d_owner (desk s) = owners (core s)"
    using reachable_index [OF assms] by (simp_all add: index_ok_def)
  have own: "owners (core s) i = Some a \<longleftrightarrow> (\<exists>c. get_campaign s i = Some c \<and> c_creator c = a)" for i
    by (auto simp: owners_def core_fields)
  have "is_campaign_creator s cid a \<longleftrightarrow> owners (core s) cid = Some a"
    using ok(2) by (auto simp: is_campaign_creator_def desk_fields [symmetric] split: option.splits)
  moreover note indexedD [OF ok(1), of a, unfolded desk_fields own linked_def]
  ultimately show ?thesis unfolding own by blast
qed

text \<open>
  C21: An initiated transfer can be accepted. In every reachable state, while the contract is not paused, the
  pending creator of an active campaign takes it over by signing: the removal from the old
  creator's index and the entry into the new one's cannot fail.
\<close>

theorem transfer_can_be_accepted:
  assumes reach: "reachable h now s" and camp: "get_campaign s cid = Some c" "c_is_active c"
    and pending: "c_pending_creator c = Pending a" "e_auth e a" "\<not> paused_flag s"
  shows "is_ok (accept_campaign_transfer e cid s)"
proof -
  note inv = reachable_core [OF reach]
  have ok: "indexed (desk s) (owners (core s))" "get_campaign_count s \<le> u32_max" "a \<noteq> c_creator c"
    using reachable_index [OF reach] camp(1) pending(1) by (auto simp: index_ok_def)
  have own: "owners (core s) cid = Some (c_creator c)" using camp(1) by (simp add: owners_def core_fields)
  note fin = owners_finite [OF inv]
  from indexed_remove [OF ok(1) own fin] obtain s1 where rem: "remove_from_creator_index (c_creator c) cid s = Inr s1"
    and ix: "indexed (desk s1) ((owners (core s))(cid := None))" .
  have "{i. ((owners (core s))(cid := None)) i = Some a} \<subset> {1..get_campaign_count s}"
    using core_inv_dom [OF inv] own ok(3) by (auto simp: owners_def core_fields)
  then have "card {i. ((owners (core s))(cid := None)) i = Some a} < card {1..get_campaign_count s}"
    by (intro psubset_card_mono) simp_all
  then have "get_creator_campaign_count s1 a < u32_max"
    using indexedD(3) [OF ix, of a] ok(2) by (simp add: desk_fields)
  then obtain s2 where add: "append_creator_index a cid s1 = Inr s2" using append_index_ok by (metis is_okE)
  have "\<not> auto_paused_flag s" by (rule config_okD(4) [OF reachable_config [OF reach]])
  moreover have "\<not> c_is_cancelled c" using books_of_reachable(2) [OF reach camp(1)] camp(2) by (simp add: flags_ok_def)
  ultimately show ?thesis
    using camp pending ok(3) rem add
    by (simp add: accept_campaign_transfer_def get_campaign_or_error_def require_active_campaign_def
        require_not_paused_def pending_or_error_def require_auth_def add_to_creator_index_eq Let_def)
qed

text \<open>A transfer in the history: from the creator 2 to the address 7.\<close>

definition h_offered :: "balances state" where
  "h_offered = invoke (demo_env 4500) (CampaignCall (InitiateCampaignTransfer 1 (Address 7))) h_verified"

lemma reachable_offered: "reachable demo_host 4500 h_offered"
  unfolding h_offered_def by (rule reachable_invoke [OF reachable_history(2)]) simp

lemma offered_eq:
  "h_offered = publish [Sym ''campaign_transfer_initiated'', U32 1, Addr (Address 2)] [Addr (Address 7)]
     (set_campaign 1 (h_campaign\<lparr>c_amount_raised := 0, c_effective_amount_raised := 0,
        c_pending_creator := Pending (Address 7)\<rparr>) h_verified)"
proof -
  have "\<not> auto_paused_flag h_verified" by (rule config_okD(4) [OF reachable_config [OF reachable_history(2)]])
  then show ?thesis
    by (simp add: h_offered_def invoke_def commit_def initiate_campaign_transfer_def mpc_from_def verified_facts
        guard_defs h_campaign_def demo_campaign_def)
qed

lemma offered_facts:
  "get_campaign h_offered 1 = Some (h_campaign\<lparr>c_amount_raised := 0, c_effective_amount_raised := 0,
     c_pending_creator := Pending (Address 7)\<rparr>)"
  "\<not> paused_flag h_offered"
  using verified_facts(4) by (simp_all add: offered_eq store_defs)

theorem creator_index_exact_witness:
  "is_campaign_creator h_offered 1 (Address 2) \<and> \<not> is_campaign_creator h_offered 1 (Address 7)"
proof -
  have owner: "c_creator (h_campaign\<lparr>c_amount_raised := 0, c_effective_amount_raised := 0,
     c_pending_creator := Pending (Address 7)\<rparr>) = Address 2" by (simp add: h_campaign_def demo_campaign_def)
  note exact = creator_index_exact [OF reachable_offered, of 1]
  from exact [of "Address 2"] exact [of "Address 7"] show ?thesis
    unfolding offered_facts(1) using owner by auto
qed

theorem transfer_can_be_accepted_witness: "is_ok (accept_campaign_transfer (demo_env 4600) 1 h_offered)"
  by (rule transfer_can_be_accepted [OF reachable_offered offered_facts(1) _ _ _ offered_facts(2), of "Address 7"])
    (simp_all add: h_campaign_def demo_campaign_def)

end
