(* ===== verification/Traps.thy ===== *)
theory Traps
  imports Solvency Owners
begin

text \<open>
  When an entry point traps. A trap is an aborted invocation without a typed error: a missing
  signature, a token contract that refuses, an \<open>unwrap\<close> of nothing, unchecked arithmetic out of
  range. Operation by operation, in the reachable states, the last two never happen.
\<close>

section \<open>Results that are no trap\<close>

definition trap_free :: "('e, 'a) res \<Rightarrow> bool" where
  "trap_free r \<longleftrightarrow> r \<noteq> Trap"

named_theorems trap_intros

lemma trap_freeI [trap_intros]:
  "trap_free (Inr x)" "trap_free (Err er)" "trap_free (ok_or m er)"
  "m \<noteq> None \<Longrightarrow> trap_free (unwrap m)"
  "e_auth e a \<Longrightarrow> trap_free (require_auth e a)"
  by (auto simp: trap_free_def ok_or_def unwrap_def require_auth_def split: option.splits)

lemma trap_free_and_then [trap_intros]:
  "trap_free r \<Longrightarrow> (\<And>x. r = Inr x \<Longrightarrow> trap_free (k x)) \<Longrightarrow> trap_free (and_then r k)"
  by (auto simp: trap_free_def and_then_eq_err)

lemma trap_free_if [trap_intros]:
  "(b \<Longrightarrow> trap_free r) \<Longrightarrow> (\<not> b \<Longrightarrow> trap_free r') \<Longrightarrow> trap_free (if b then r else r')"
  by simp

lemma trap_free_prod [trap_intros]:
  "(\<And>a b. p = (a, b) \<Longrightarrow> trap_free (k a b)) \<Longrightarrow> trap_free (case p of (a, b) \<Rightarrow> k a b)"
  by (cases p) simp

lemma trap_free_option [trap_intros]:
  "(m = None \<Longrightarrow> trap_free r) \<Longrightarrow> (\<And>x. m = Some x \<Longrightarrow> trap_free (k x)) \<Longrightarrow>
   trap_free (case m of None \<Rightarrow> r | Some x \<Rightarrow> k x)"
  by (cases m) simp_all

lemma trap_free_Let [trap_intros]: "trap_free (k a) \<Longrightarrow> trap_free (let x = a in k x)"
  by simp

lemma trap_free_guards [trap_intros]:
  "trap_free (get_campaign_or_error s cid)" "trap_free (require_active_campaign c)"
  "trap_free (require_unverified_campaign c)" "trap_free (require_revenue_sharing c er)"
  "trap_free (calculate_deadline now days)" "trap_free (require_not_paused s)"
  "trap_free (campaign_start_time_or_error s cid)" "trap_free (transition frm to)"
  "trap_free (pending_or_error c)"
  by (auto simp: guard_defs trap_free_def and_then_eq_err ok_or_def transition_def pending_or_error_def
      split: option.splits maybe_pending_creator.splits if_splits)

text \<open>The signatures and the configuration an operation reads.\<close>

lemma trap_free_creator [trap_intros]:
  "(\<And>c. get_campaign s cid = Some c \<Longrightarrow> e_auth e (c_creator c)) \<Longrightarrow> trap_free (get_creator_campaign e s cid)"
  by (auto simp: get_creator_campaign_def assert_creator_def guards_eq_Ok intro!: trap_intros)

lemma trap_free_config:
  assumes "config_ok (config s)"
  shows "trap_free (admin_or_trap s)" "trap_free (token_or_trap s)" "trap_free (token_client s)"
    "trap_free (campaign_token_client s cid)"
    "(\<And>a. get_admin s = Some a \<Longrightarrow> a = caller \<Longrightarrow> e_auth e caller) \<Longrightarrow> trap_free (assert_admin e caller s)"
    "(\<And>a. get_admin s = Some a \<Longrightarrow> e_auth e a) \<Longrightarrow> trap_free (stored_admin_auth e s)"
proof -
  have some: "get_admin s \<noteq> None" "get_token s \<noteq> None" using config_okD(2, 3) [OF assms] .
  then show "trap_free (admin_or_trap s)" "trap_free (token_or_trap s)" "trap_free (token_client s)"
    by (auto simp: admin_or_trap_def token_or_trap_def token_client_def intro!: trap_intros)
  then show "(\<And>a. get_admin s = Some a \<Longrightarrow> a = caller \<Longrightarrow> e_auth e caller) \<Longrightarrow> trap_free (assert_admin e caller s)"
    "(\<And>a. get_admin s = Some a \<Longrightarrow> e_auth e a) \<Longrightarrow> trap_free (stored_admin_auth e s)"
    by (auto simp: assert_admin_def stored_admin_auth_def guards_eq_Ok intro!: trap_intros)
  have "get_campaign_token s cid \<noteq> None" using some by (auto simp: get_campaign_token_def split: option.splits)
  then show "trap_free (campaign_token_client s cid)"
    by (auto simp: campaign_token_client_def intro!: trap_intros)
qed

lemma trap_free_transfer:
  "h_transfer e tok a b amt (st_world s) \<noteq> None \<Longrightarrow> trap_free (transfer e tok a b amt s)"
  by (auto simp: transfer_def intro!: trap_intros)

text \<open>The same over the purse, so that \<open>purse_frame\<close> carries them through an operation's writes.\<close>

lemma trap_free_purse:
  "p_token (purse s) cid \<noteq> None \<Longrightarrow> trap_free (campaign_token_client s cid)"
  "p_admin (purse s) \<noteq> None \<Longrightarrow> trap_free (admin_or_trap s)"
  "h_transfer e tok a b amt (p_world (purse s)) \<noteq> None \<Longrightarrow> trap_free (transfer e tok a b amt s)"
  by (auto simp: purse_fields campaign_token_client_def admin_or_trap_def intro!: trap_intros trap_free_transfer)

lemma config_purse:
  assumes "config_ok (config s)"
  shows "p_token (purse s) cid \<noteq> None" "p_admin (purse s) \<noteq> None"
  using config_okD(2, 3) [OF assms] by (auto simp: purse_fields get_campaign_token_def split: option.splits)

section \<open>Operations that need only a signature\<close>

lemma bookmarks_trap_free:
  assumes "e_auth e who"
  shows "trap_free (save_campaign e who cid s)" "trap_free (remove_saved_campaign e who cid s)"
    "trap_free (batch_save_campaigns e who cids s)" "trap_free (clear_saved_campaigns e who s)"
proof -
  have items: "trap_free (batch_save_items s cids saved)" for saved
    by (induction cids arbitrary: saved) (auto intro!: trap_intros)
  show "trap_free (save_campaign e who cid s)" "trap_free (remove_saved_campaign e who cid s)"
    "trap_free (batch_save_campaigns e who cids s)" "trap_free (clear_saved_campaigns e who s)"
    using assms items
    by (auto simp: save_campaign_def remove_saved_campaign_def batch_save_campaigns_def clear_saved_campaigns_def
        Let_def intro!: trap_intros)
qed

lemma caps_trap_free:
  assumes "e_auth e who"
  shows "trap_free (set_personal_cap_fn e cid who amt s)" "trap_free (remove_personal_cap_fn e cid who s)"
  using assms by (auto simp: set_personal_cap_fn_def remove_personal_cap_fn_def Let_def intro!: trap_intros)

lemma edits_trap_free:
  assumes "\<And>c. get_campaign s cid = Some c \<Longrightarrow> e_auth e (c_creator c)"
  shows "trap_free (update_campaign e cid t d s)" "trap_free (update_campaign_description e cid d s)"
    "trap_free (extend_campaign_deadline e cid days s)" "trap_free (initiate_campaign_transfer e cid a s)"
    "trap_free (cancel_campaign_transfer e cid s)" "trap_free (set_milestones e cid ms s)"
proof -
  have ms: "trap_free (check_milestones ms seen n)" for ms seen n
    by (induction ms arbitrary: seen n) (auto intro!: trap_intros)
  have "days \<le> 30 \<Longrightarrow> u64_checked_mul days 86400 \<noteq> None" by (simp add: checked_simps u64_max_def)
  then show "trap_free (extend_campaign_deadline e cid days s)"
    using assms by (auto simp: extend_campaign_deadline_def Let_def const_defs not_less intro!: trap_intros)
  show "trap_free (update_campaign e cid t d s)" "trap_free (update_campaign_description e cid d s)"
    "trap_free (initiate_campaign_transfer e cid a s)"
    "trap_free (cancel_campaign_transfer e cid s)" "trap_free (set_milestones e cid ms s)"
    using assms ms
    by (auto simp: update_campaign_def update_campaign_description_def
        initiate_campaign_transfer_def cancel_campaign_transfer_def set_milestones_def Let_def guards_eq_Ok
        intro!: trap_intros)
qed

section \<open>Configuration, administration, reviews\<close>

lemma config_calls_trap_free:
  assumes "config_ok (config s)" "\<And>a. get_admin s = Some a \<Longrightarrow> e_auth e a"
  shows "trap_free (run_config_call e k s)"
proof (cases k)
  case (Init a tok fee)
  with config_okD(1) [OF assms(1)] show ?thesis by (simp add: init_def trap_freeI)
qed (use assms in \<open>auto simp: set_vesting_params_def set_token_allowed_fn_def set_creation_disabled_fn_def
    update_platform_fee_def set_max_contribution_per_transaction_def set_campaign_fee_override_def
    set_category_duration_cap_fn_def remove_category_duration_cap_fn_def set_min_campaign_funding_goal_fn_def
    set_max_campaign_funding_goal_fn_def set_voting_params_def set_params_def set_min_voting_balance_fn_def
    set_category_voting_threshold_def remove_category_voting_threshold_def Let_def
    intro!: trap_intros trap_free_config\<close>)

fun admin_call_signers :: "admin_call \<Rightarrow> 'w state \<Rightarrow> address set" where
  "admin_call_signers (EmergencyPause a) s = {a}"
| "admin_call_signers (ResumeCampaign cid a) s = {a}"
| "admin_call_signers AcceptAdminTransfer s = set_option (get_pending_admin s)"
| "admin_call_signers k s = set_option (get_admin s)"

lemma admin_calls_trap_free:
  assumes "config_ok (config s)" "\<And>a. a \<in> admin_call_signers k s \<Longrightarrow> e_auth e a"
  shows "trap_free (run_admin_call e k s)"
  using assms
  by (cases k) (auto simp: pause_def unpause_def emergency_pause_def set_emergency_pause_signers_fn_def resume_campaign_def
    propose_token_update_def probe_token_def accept_token_update_def cancel_token_update_def
    set_token_update_delay_secs_fn_def initiate_admin_transfer_def accept_admin_transfer_def cancel_admin_transfer_def
    update_admin_def migrate_def Let_def guards_eq_Ok ok_or_eq_ok intro!: trap_intros trap_free_config split: option.splits)

section \<open>Counters, verification and cancellation\<close>

text \<open>A campaign outside a tally leaves room for one more in it.\<close>

lemma tally_room:
  assumes "dom m = {1..n}" "m cid = Some c" "\<not> P c"
  shows "tally P m < n"
proof -
  have "cid \<in> {1..n} - {i. \<exists>c. m i = Some c \<and> P c}" "{i. \<exists>c. m i = Some c \<and> P c} \<subseteq> {1..n}"
    using assms by auto
  then have "{i. \<exists>c. m i = Some c \<and> P c} \<subset> {1..n}" by blast
  then have "tally P m < card {1..n}" unfolding tally_def by (intro psubset_card_mono) simp_all
  then show ?thesis by simp
qed

lemma counters_room:
  assumes "core_inv now (core s)" "get_campaign_count s \<le> u32_max" "get_campaign s cid = Some c"
  shows "\<not> c_is_verified c \<Longrightarrow> get_verified_campaign_count s < u32_max"
    "\<not> c_is_cancelled c \<Longrightarrow> get_cancelled_campaign_count s < u32_max"
proof -
  note dom = core_inv_dom [OF assms(1)]
  have tally: "k_verified (core s) = tally c_is_verified (k_camp (core s))"
    "k_cancelled (core s) = tally c_is_cancelled (k_camp (core s))"
    using assms(1) unfolding core_inv_def by blast+
  show "get_verified_campaign_count s < u32_max" if "\<not> c_is_verified c"
    using tally_room [OF dom, of cid c c_is_verified] tally(1) that assms(2, 3) by (simp add: core_fields)
  show "get_cancelled_campaign_count s < u32_max" if "\<not> c_is_cancelled c"
    using tally_room [OF dom, of cid c c_is_cancelled] tally(2) that assms(2, 3) by (simp add: core_fields)
qed

lemma increments_trap_free:
  "get_contributor_count s cid < u32_max \<Longrightarrow> trap_free (increment_contributor_count cid s)"
  "get_active_campaign_count s < u32_max \<Longrightarrow> trap_free (increment_active_campaign_count s)"
  "get_verified_campaign_count s < u32_max \<Longrightarrow> trap_free (increment_verified_campaign_count s)"
  "get_cancelled_campaign_count s < u32_max \<Longrightarrow> trap_free (increment_cancelled_campaign_count s)"
  by (auto simp: increment_contributor_count_def increment_active_campaign_count_def
      increment_verified_campaign_count_def increment_cancelled_campaign_count_def checked_simps intro!: trap_intros)

lemma mark_verified_trap_free:
  assumes "core_inv now (core s)" "get_campaign_count s \<le> u32_max" "get_campaign s cid = Some c" "\<not> c_is_verified c"
  shows "trap_free (mark_verified cid c s)"
proof -
  have "get_verified_campaign_count (set_campaign cid (c\<lparr>c_is_verified := True\<rparr>) s) < u32_max"
    using counters_room(1) [OF assms] by (simp add: store_defs)
  then show ?thesis by (auto simp: mark_verified_def intro!: trap_intros increments_trap_free)
qed

lemma verify_trap_free:
  assumes "core_inv now (core s)" "get_campaign_count s \<le> u32_max"
  shows "trap_free (admin_verify cid s)" "trap_free (verify_with_votes cid s)"
  by (auto simp: admin_verify_def verify_with_votes_def Let_def guards_eq_Ok
      intro!: trap_intros mark_verified_trap_free [OF assms])

lemma verify_each_trap_free:
  assumes "core_inv now (core s)" "get_campaign_count s \<le> u32_max"
  shows "trap_free (verify_each cids verified failed s)"
  using assms
proof (induction cids arbitrary: verified failed s)
  case (Cons cid cids)
  note free = verify_trap_free(1) [OF Cons.prems]
  show ?case
  proof (cases "admin_verify cid s")
    case (Inl f)
    with free Cons show ?thesis by (cases f) (auto simp: trap_free_def)
  next
    case (Inr s1)
    have "core_inv now (core s1)" by (rule core_step_inv [OF verify_step(1) [OF Inr] Cons.prems(1)])
    moreover have "get_campaign_count s1 = get_campaign_count s"
      using Inr by (auto simp: admin_verify_def mark_verified_def res_simps store_defs)
    ultimately show ?thesis using Cons Inr by simp
  qed
qed (simp add: trap_freeI)

lemma close_cancelled_trap_free:
  assumes "core_inv now (core s0)" "get_campaign_count s0 \<le> u32_max" "get_campaign s0 cid = Some c"
    "\<not> c_is_cancelled c" "core s = core s0"
  shows "trap_free (close_cancelled cid c s)"
proof -
  have "get_cancelled_campaign_count (remove_voting_state cid (set_campaign cid d s)) = get_cancelled_campaign_count s0" for d
    using assms(5) by (simp add: core_fields [symmetric] core_frame)
  then show ?thesis
    using counters_room(2) [OF assms(1-4)]
    by (simp add: close_cancelled_def Let_def prune_bookmarks_for_campaign_def store_defs increments_trap_free)
qed

section \<open>Votes, reviews and queries\<close>

lemma cast_vote_trap_free:
  assumes "config_ok (config s)" "e_auth e voter" "\<And>tok. h_balance e tok voter (st_world s) \<noteq> None"
  shows "trap_free (cast_vote e cid voter approve s)"
proof -
  have "trap_free (record_vote cid approve s)" by (auto simp: record_vote_def Let_def intro!: trap_intros)
  with assms show ?thesis by (auto simp: cast_vote_def intro!: trap_intros trap_free_config)
qed

lemma scan_active_trap_free:
  assumes "start \<le> tot" "tot + 1000 \<le> u32_max"
  shows "trap_free (scan_active s start tot cap i n acc)"
  using assms
proof (induction s start tot cap i n acc rule: scan_active.induct)
  case (1 s start tot cap i n acc)
  have ok: "start + MAX_SCAN_WINDOW \<le> u32_max" "\<not> tot < i \<Longrightarrow> i + 1 \<le> u32_max"
    using "1.prems" by (simp_all add: const_defs)
  show ?case
    unfolding scan_active.simps [of s start tot cap i n acc]
    using "1.IH" "1.prems" ok
    by (intro trap_intros) (auto simp: checked_simps trap_free_def and_then_eq_err split: option.splits)
qed

lemma list_active_trap_free:
  assumes "get_campaign_count s + 1000 \<le> u32_max"
  shows "trap_free (list_active_campaigns s start limit)"
  using assms by (auto simp: list_active_campaigns_def Let_def intro!: trap_intros scan_active_trap_free)

fun review_call_signers :: "review_call \<Rightarrow> 'w state \<Rightarrow> address set" where
  "review_call_signers (VoteOnCampaign cid a b) s = {a}"
| "review_call_signers (VerifyCampaignWithVotes cid) s = {}"
| "review_call_signers (SaveCampaign a cid) s = {a}"
| "review_call_signers (BatchSaveCampaigns a cids) s = {a}"
| "review_call_signers (RemoveSavedCampaign a cid) s = {a}"
| "review_call_signers (ClearSavedCampaigns a) s = {a}"
| "review_call_signers (ListActiveCampaigns start limit) s = {}"
| "review_call_signers k s = set_option (get_admin s)"

lemma review_calls_trap_free:
  assumes "config_ok (config s)" "core_inv now (core s)" "get_campaign_count s + 1000 \<le> u32_max"
    and signed: "\<And>a. a \<in> review_call_signers k s \<Longrightarrow> e_auth e a"
    and balances: "\<And>tok a. h_balance e tok a (st_world s) \<noteq> None"
  shows "trap_free (run_review_call e k s)"
proof -
  have room: "get_campaign_count s \<le> u32_max" using assms(3) by simp
  note free = verify_trap_free [OF assms(2) room] verify_each_trap_free [OF assms(2) room]
    list_active_trap_free [OF assms(3)] cast_vote_trap_free [OF assms(1) _ balances] bookmarks_trap_free
  show ?thesis
    using signed
    by (cases k) (auto simp: vote_on_campaign_def verify_campaign_def verify_campaigns_def verify_campaign_with_votes_def
        purge_voting_state_def censure_comment_entry_def uncensure_comment_entry_def censure_comment_def
        uncensure_comment_def Let_def intro!: trap_intros trap_free_config [OF assms(1)] free)
qed

section \<open>Campaigns\<close>

text \<open>While another campaign can be numbered, its categories, its creators and the active ones can be counted.\<close>

lemma index_room:
  assumes "core_inv now (core s)" "index_ok s" "catalogued s" "get_campaign_count s < u32_max"
  shows "get_category_campaign_count s cat < u32_max" "get_creator_campaign_count s a < u32_max"
    "get_active_campaign_count s < u32_max"
proof -
  note dom = core_inv_dom [OF assms(1)]
  have "get_category_campaign_count s cat = length (ids_of_category s cat)"
    using assms(3) length_unpacked unfolding catalogued_def by metis
  also have "\<dots> \<le> length [1..<get_campaign_count s + 1]" unfolding ids_of_category_def by (rule length_filter_le)
  finally show "get_category_campaign_count s cat < u32_max" using assms(4) by simp
  have "{i. owners (core s) i = Some a} \<subseteq> {1..get_campaign_count s}"
    using dom by (auto simp: owners_def core_fields)
  then have "card {i. owners (core s) i = Some a} \<le> card {1..get_campaign_count s}" by (intro card_mono) simp_all
  then show "get_creator_campaign_count s a < u32_max"
    using assms(2, 4) indexedD(3) [of "desk s" "owners (core s)" a] by (simp add: index_ok_def desk_fields)
  have "k_active (core s) = tally c_is_active (k_camp (core s))" using assms(1) unfolding core_inv_def by blast
  moreover have "{i. \<exists>c. k_camp (core s) i = Some c \<and> c_is_active c} \<subseteq> {1..get_campaign_count s}"
    using dom by (auto simp: core_fields)
  then have "tally c_is_active (k_camp (core s)) \<le> card {1..get_campaign_count s}"
    unfolding tally_def by (intro card_mono) simp_all
  ultimately show "get_active_campaign_count s < u32_max" using assms(4) by (simp add: core_fields)
qed

lemma validate_campaign_trap_free:
  assumes "e_auth e (p_creator p)"
  shows "trap_free (validate_campaign e p s)"
  unfolding validate_campaign_def hash_text_def Let_def by (intro trap_intros assms) simp_all

lemma index_appends_trap_free:
  "get_category_campaign_count s cat < u32_max \<Longrightarrow> trap_free (append_category_index cat n s)"
  "get_creator_campaign_count s a < u32_max \<Longrightarrow> trap_free (append_creator_index a n s)"
  "get_creator_campaign_count s a < u32_max \<Longrightarrow> trap_free (add_to_creator_index a n s)"
  by (auto simp: append_category_index_def append_creator_index_def add_to_creator_index_def Let_def checked_simps
      intro!: trap_intros)

lemma opened_counts:
  "get_category_campaign_count (opened e n c pinned s) = get_category_campaign_count s"
  "get_creator_campaign_count (opened e n c pinned s) = get_creator_campaign_count s"
  "append_category_index cat n s = Inr s' \<Longrightarrow> get_creator_campaign_count s' = get_creator_campaign_count s"
  by (auto simp: opened_def append_category_index_def Let_def res_simps store_defs fun_eq_iff split: option.split)

lemma create_inner_trap_free:
  assumes "config_ok (config s)" "core_inv now (core s)" "index_ok s" "catalogued s" "e_auth e (p_creator p)"
  shows "trap_free (create_campaign_inner e p tok s)"
proof -
  have pinned: "trap_free (pinned_token tok s)"
    by (auto simp: pinned_token_def intro!: trap_intros trap_free_config [OF assms(1)])
  show ?thesis
    unfolding create_campaign_inner_def opened_def [unfolded Let_def, symmetric] Let_def
    by (intro trap_intros validate_campaign_trap_free assms pinned index_appends_trap_free)
      (use index_room [OF assms(2-4)] in \<open>simp_all add: opened_counts ok_or_eq_ok checked_eq_Some\<close>)
qed

lemma create_trap_free:
  assumes "config_ok (config s)" "core_inv (e_timestamp e) (core s)" "index_ok s" "catalogued s" "e_auth e (p_creator p)"
  shows "trap_free (create_campaign_entry e p s)" "trap_free (create_campaign_with_token_entry e p tok s)"
proof -
  have caps: "\<forall>d. get_category_duration_cap s (p_category p) = Some d \<longrightarrow> d \<le> 365"
    using config_okD(6) [OF assms(1)] by blast
  have next_free: "trap_free (increment_active_campaign_count s1)"
    if run: "create_campaign_inner e p opt s = Inr (n, s1)" for opt n s1
  proof -
    from run have "get_campaign_count s < u32_max"
      by (simp only: create_campaign_inner_def Let_def res_simps, clarify) simp
    then have "get_active_campaign_count s < u32_max" by (rule index_room(3) [OF assms(2-4)])
    moreover have "k_active (core s1) = k_active (core s)"
      by (rule create_campaign_inner_core [OF run caps]) simp
    ultimately show ?thesis by (simp add: core_fields increments_trap_free)
  qed
  show "trap_free (create_campaign_entry e p s)" "trap_free (create_campaign_with_token_entry e p tok s)"
    unfolding create_campaign_entry_def create_campaign_with_token_entry_def create_campaign_def
      create_campaign_with_token_def
    by (intro trap_intros create_inner_trap_free [OF assms]; simp add: next_free)+
qed

lemma accept_transfer_trap_free:
  assumes inv: "core_inv now (core s)" "index_ok s"
    and signed: "\<And>c a. get_campaign s cid = Some c \<Longrightarrow> c_pending_creator c = Pending a \<Longrightarrow> e_auth e a"
  shows "trap_free (accept_campaign_transfer e cid s)"
proof -
  have remove: "trap_free (remove_from_creator_index a cid s)" for a
    by (auto simp: remove_from_creator_index_def Let_def intro!: trap_intros)
  have moved: "d_count (desk (if b then set_creator_campaign_position a' cid' bk i s else s)) = d_count (desk s)"
    for b a' cid' bk i by (simp add: desk_writes)
  have add: "trap_free (add_to_creator_index a cid s1)"
    if camp: "get_campaign s cid = Some c" "a \<noteq> c_creator c"
      and rem: "remove_from_creator_index (c_creator c) cid s = Inr s1" for c a s1
  proof -
    have own: "owners (core s) cid = Some (c_creator c)" using camp(1) by (simp add: owners_def core_fields)
    have "cid \<in> {1..get_campaign_count s}" using core_inv_dom [OF inv(1)] camp(1) by (auto simp: core_fields)
    moreover have "{i. owners (core s) i = Some a} \<subseteq> {1..get_campaign_count s}"
      using core_inv_dom [OF inv(1)] by (auto simp: owners_def core_fields)
    moreover have "cid \<notin> {i. owners (core s) i = Some a}" using own camp(2) by simp
    ultimately have "{i. owners (core s) i = Some a} \<subset> {1..get_campaign_count s}" by blast
    then have "card {i. owners (core s) i = Some a} < card {1..get_campaign_count s}"
      by (intro psubset_card_mono) simp_all
    then have "get_creator_campaign_count s a < u32_max"
      using inv(2) indexedD(3) [of "desk s" "owners (core s)" a] by (simp add: index_ok_def desk_fields)
    moreover have "get_creator_campaign_count s1 a = get_creator_campaign_count s a"
      using rem camp(2) by (simp only: remove_from_creator_index_def Let_def res_simps, clarify)
        (simp add: desk_fields [symmetric] desk_writes moved)
    ultimately show ?thesis by (intro index_appends_trap_free) simp
  qed
  have pending: "pending_or_error c = Inr a \<longleftrightarrow> c_pending_creator c = Pending a" for c a
    by (auto simp: pending_or_error_def split: maybe_pending_creator.splits)
  show ?thesis
    unfolding accept_campaign_transfer_def Let_def
    by (intro trap_intros remove) (auto simp: guards_eq_Ok pending intro: signed add)
qed

lemma deduct_trap_free: "trap_free (deduct_raised c s)"
  by (auto simp: deduct_raised_def intro!: trap_intros)

lemma cancel_campaign_trap_free:
  assumes ok: "config_ok (config s)" "core_inv now (core s)" "get_campaign_count s \<le> u32_max"
    and signed: "\<And>c. get_campaign s cid = Some c \<Longrightarrow> e_auth e (c_creator c)"
    and empty: "\<And>c. get_campaign s cid = Some c \<Longrightarrow> \<not> c_funds_withdrawn c \<Longrightarrow> get_revenue_pool s cid = 0"
  shows "trap_free (cancel_campaign e cid s)"
proof -
  have close: "trap_free (close_cancelled cid c s2)"
    if "get_creator_campaign e s cid = Inr c" "\<not> c_is_cancelled c" "deduct_raised c s1 = Inr s2" "core s1 = core s" for c s1 s2
    by (rule close_cancelled_trap_free [OF ok(2, 3)])
      (use that deduct_raised_core [OF that(3)] in \<open>simp_all add: res_simps\<close>)
  have no_pool: "\<not> 0 < get_revenue_pool s cid" if "get_creator_campaign e s cid = Inr c" "\<not> c_funds_withdrawn c" for c
    using empty [of c] that by (simp add: res_simps)
  show ?thesis
    unfolding cancel_campaign_def Let_def
    apply (intro trap_intros signed deduct_trap_free; (assumption | simp only: guards_eq_Ok)?)
      apply (rule close, assumption, simp, assumption, simp add: core_frame)
     apply (drule (1) no_pool, simp)+
    done
qed

lemma admin_cancel_trap_free:
  assumes ok: "config_ok (config s)" "core_inv now (core s)" "get_campaign_count s \<le> u32_max"
    and signed: "get_admin s = Some a \<Longrightarrow> e_auth e a"
  shows "trap_free (admin_cancel_campaign e a cid reason s)"
proof -
  have close: "trap_free (close_cancelled cid c s2)"
    if "get_campaign s cid = Some c" "\<not> c_is_cancelled c" "deduct_raised c s = Inr s2" for c s2
    by (rule close_cancelled_trap_free [OF ok(2, 3) that(1, 2)]) (simp only: deduct_raised_core [OF that(3)])
  show ?thesis
    unfolding admin_cancel_campaign_def Let_def
    by (intro trap_intros deduct_trap_free trap_free_config ok) (use signed in \<open>auto simp: guards_eq_Ok intro: close\<close>)
qed

end
