(* ===== verification/Gauges.thy ===== *)
theory Gauges
  imports Solvency
begin

text \<open>
  Two kinds of entries that no bound of \<^verbatim>\<open>Escrow\<close> or \<^verbatim>\<open>Till\<close> covers, with the range they keep under
  every call: the books of a revenue pool stay non-negative values of their type, and the
  burst guard never stores a count above its threshold.
\<close>

section \<open>The books of the revenue pools\<close>

definition takings_ok :: "'w purse \<Rightarrow> bool" where
  "takings_ok p \<longleftrightarrow> (\<forall>cid a.
     0 \<le> p_pool p cid \<and> p_pool p cid \<le> i128_max \<and> 0 \<le> p_claimed p cid a \<and> p_claimed p cid a \<le> i128_max \<and>
     0 \<le> p_creator_claimed p cid \<and> p_creator_claimed p cid \<le> i128_max \<and>
     0 \<le> p_distributed p cid \<and> p_distributed p cid \<le> i128_max)"

lemma takings_okD:
  assumes "takings_ok (purse s)"
  shows "0 \<le> get_revenue_pool s cid" "get_revenue_pool s cid \<le> i128_max"
    "0 \<le> get_revenue_claimed s cid a" "get_revenue_claimed s cid a \<le> i128_max"
    "0 \<le> get_creator_revenue_claimed s cid" "get_creator_revenue_claimed s cid \<le> i128_max"
    "0 \<le> get_contributor_revenue_distributed s cid" "get_contributor_revenue_distributed s cid \<le> i128_max"
  using assms unfolding takings_ok_def purse_fields by blast+

lemma takings_cong:
  assumes "p_pool p' = p_pool p" "p_claimed p' = p_claimed p" "p_creator_claimed p' = p_creator_claimed p"
    "p_distributed p' = p_distributed p" "takings_ok p"
  shows "takings_ok p'"
  using assms by (simp add: takings_ok_def)

text \<open>The writes an operation makes to these books.\<close>

lemma takings_writes:
  assumes "takings_ok p"
  shows "0 \<le> i \<Longrightarrow> i \<le> i128_max \<Longrightarrow> takings_ok (p\<lparr>p_pool := (p_pool p)(cid := i)\<rparr>)"
    "0 \<le> i \<Longrightarrow> i \<le> i128_max \<Longrightarrow> takings_ok (p\<lparr>p_claimed := (p_claimed p)(cid := (p_claimed p cid)(a := i))\<rparr>)"
    "0 \<le> i \<Longrightarrow> i \<le> i128_max \<Longrightarrow> takings_ok (p\<lparr>p_creator_claimed := (p_creator_claimed p)(cid := i)\<rparr>)"
    "0 \<le> i \<Longrightarrow> i \<le> i128_max \<Longrightarrow> takings_ok (p\<lparr>p_distributed := (p_distributed p)(cid := i)\<rparr>)"
  using assms by (auto simp: takings_ok_def)

section \<open>The counts of the burst guard\<close>

definition calm :: "'w state \<Rightarrow> bool" where
  "calm s \<longleftrightarrow> (\<forall>cid. snd (get_campaign_block_contribution_count s cid) \<le> AUTO_PAUSE_BURST_THRESHOLD)"

lemma block_count_write:
  "get_campaign_block_contribution_count (set_campaign_block_contribution_count cid l n s) =
     (get_campaign_block_contribution_count s)(cid := (l, n))"
  by (simp add: store_defs fun_eq_iff)

lemma burst_calm:
  assumes "check_burst_guard e cid c amt s = (Inr u, s1)" "calm s"
  shows "calm s1"
  using assms
  by (auto simp: check_burst_guard_def Let_def calm_def block_count_write not_less
      split: option.splits if_splits prod.splits)

text \<open>The view of those counts, and the writes that leave it alone.\<close>

abbreviation bursts :: "'w state \<Rightarrow> u32 \<Rightarrow> u32 \<times> u32" where
  "bursts \<equiv> get_campaign_block_contribution_count"

lemma bursts_frame:
  "bursts (publish tp v s) = bursts s" "bursts (s\<lparr>st_world := w\<rparr>) = bursts s"
  "bursts (set_campaign cid c s) = bursts s" "bursts (set_campaign_fee_recipient cid a s) = bursts s"
  "bursts (set_campaign_reserve cid r s) = bursts s" "bursts (set_campaign_milestones cid ms s) = bursts s"
  "bursts (set_milestone_claimed cid n s) = bursts s" "bursts (set_active_campaign_count n s) = bursts s"
  "bursts (set_verified_campaign_count n s) = bursts s" "bursts (set_cancelled_campaign_count n s) = bursts s"
  "bursts (set_total_raised_global i s) = bursts s" "bursts (set_contribution cid a i s) = bursts s"
  "bursts (set_lifetime_contribution cid a i s) = bursts s" "bursts (remove_contribution cid a s) = bursts s"
  "bursts (set_contributor_count cid n s) = bursts s" "bursts (set_top_contributor cid a s) = bursts s"
  "bursts (set_last_contribution_time cid n s) = bursts s" "bursts (set_personal_cap cid a i s) = bursts s"
  "bursts (remove_personal_cap cid a s) = bursts s" "bursts (set_revenue_pool cid i s) = bursts s"
  "bursts (set_revenue_claimed cid a i s) = bursts s" "bursts (remove_revenue_claimed cid a s) = bursts s"
  "bursts (set_creator_revenue_claimed cid i s) = bursts s"
  "bursts (set_contributor_revenue_distributed cid i s) = bursts s"
  "bursts (set_contributor_revenue_claimants cid n s) = bursts s"
  by (simp_all add: store_defs fun_eq_iff)

lemma bursts_decrements:
  "bursts (decrement_active_campaign_count s) = bursts s" "bursts (decrement_verified_campaign_count s) = bursts s"
  "bursts (decrement_contributor_count cid s) = bursts s"
  by (simp_all add: decrement_active_campaign_count_def decrement_verified_campaign_count_def
      decrement_contributor_count_def bursts_frame Let_def)

lemma apply_contribution_calm:
  assumes "apply_contribution e cid who amt s = Inr s1" "calm s"
  shows "calm s1"
proof -
  from assms(1) obtain c s2 u where guard: "check_burst_guard e cid c amt s = (Inr u, s2)"
    and acc: "update_contribution_accounting cid who c (get_contribution s cid who)
      (get_lifetime_contribution s cid who) amt s2 = Inr s1"
    by (auto simp: apply_contribution_def Let_def res_simps)
  have "get_campaign_block_contribution_count s1 = get_campaign_block_contribution_count s2"
    using acc by (simp only: update_contribution_accounting_def increment_contributor_count_def Let_def res_simps, safe)
      (simp_all add: bursts_frame)
  with burst_calm [OF guard assms(2)] show ?thesis by (simp add: calm_def)
qed

lemma calm_cong:
  "bursts s' = get_campaign_block_contribution_count s \<Longrightarrow> calm s \<Longrightarrow> calm s'"
  by (simp add: calm_def)

lemma batch_items_calm:
  assumes "batch_contribute_items e who items dues tot s = Inr (dues', tot', s')" "calm s"
  shows "calm s'"
  using assms
proof (induction items arbitrary: dues tot s)
  case (Cons it its)
  from Cons.prems(1) obtain s1 dues1 tot1 where run: "apply_contribution e (fst it) who (snd it) s = Inr s1"
    and rest: "batch_contribute_items e who its dues1 tot1
      (publish [Sym ''contribution_made'', U32 (fst it), Addr who] [I128 (snd it)] s1) = Inr (dues', tot', s')"
    by (simp only: batch_contribute_items.simps res_simps, blast)
  have "calm (publish tp v s1)" for tp v
    by (rule calm_cong [OF _ apply_contribution_calm [OF run Cons.prems(2)]]) (simp add: store_defs fun_eq_iff)
  with Cons.IH [OF rest] show ?case by blast
qed simp

lemma transfer_owed_calm: "transfer_owed e who ps s = Inr s' \<Longrightarrow> calm s \<Longrightarrow> calm s'"
  by (induction ps arbitrary: s) (auto simp: res_simps calm_def store_defs)

lemma contributions_calm:
  "contribute e cid who amt s = Inr s' \<Longrightarrow> calm s \<Longrightarrow> calm s'"
  "batch_contribute e who items s = Inr s' \<Longrightarrow> calm s \<Longrightarrow> calm s'"
  subgoal
    by (simp only: contribute_def Let_def res_simps, clarify, drule (1) apply_contribution_calm)
      (simp add: calm_def update_top_contributor_def Let_def store_defs)
  subgoal
    by (auto simp: batch_contribute_def res_simps calm_def store_defs
        dest!: batch_items_calm transfer_owed_calm)
  done

lemma payouts_bursts:
  "claim_refund e cid who s = Inr s' \<Longrightarrow> bursts s' = bursts s"
  "withdraw_funds e cid s = Inr s' \<Longrightarrow> bursts s' = bursts s"
  "withdraw_reserve e cid s = Inr s' \<Longrightarrow> bursts s' = bursts s"
  "claim_milestone e cid mid s = Inr s' \<Longrightarrow> bursts s' = bursts s"
  subgoal by (simp only: claim_refund_def Let_def res_simps, safe) (simp_all add: bursts_frame bursts_decrements)
  subgoal
    by (simp only: withdraw_funds_def Let_def res_simps not_not, clarify, drule hold_reserve_eq)
      (simp add: bursts_frame bursts_decrements)
  subgoal by (simp only: withdraw_reserve_def Let_def res_simps, safe) (simp_all add: bursts_frame bursts_decrements)
  by (simp only: claim_milestone_def Let_def res_simps, safe) (simp_all add: bursts_frame bursts_decrements split: if_splits)

lemma other_fund_bursts:
  "set_milestones e cid ms s = Inr s' \<Longrightarrow> bursts s' = bursts s"
  "verify_milestone e a cid mid s = Inr s' \<Longrightarrow> bursts s' = bursts s"
  "deposit_revenue e cid amt s = Inr s' \<Longrightarrow> bursts s' = bursts s"
  "claim_revenue e cid a s = Inr s' \<Longrightarrow> bursts s' = bursts s"
  "claim_creator_revenue e cid s = Inr s' \<Longrightarrow> bursts s' = bursts s"
  "set_personal_cap_fn e cid a amt s = Inr s' \<Longrightarrow> bursts s' = bursts s"
  "remove_personal_cap_fn e cid a s = Inr s' \<Longrightarrow> bursts s' = bursts s"
  by (simp only: set_milestones_def verify_milestone_def deposit_revenue_def claim_revenue_def claim_creator_revenue_def
      set_personal_cap_fn_def remove_personal_cap_fn_def Let_def res_simps, safe, (simp_all add: bursts_frame bursts_decrements)?)+

section \<open>Every call\<close>

text \<open>The books of the pools.\<close>

definition takings ::
  "'w state \<Rightarrow> (u32 \<Rightarrow> i128) \<times> (u32 \<Rightarrow> address \<Rightarrow> i128) \<times> (u32 \<Rightarrow> i128) \<times> (u32 \<Rightarrow> i128) \<times> (u32 \<Rightarrow> u32)" where
  "takings s = (p_pool (purse s), p_claimed (purse s), p_creator_claimed (purse s), p_distributed (purse s), p_claimants (purse s))"

text \<open>What has been paid out of the pools.\<close>

definition ledger :: "'w state \<Rightarrow> (u32 \<Rightarrow> address \<Rightarrow> i128) \<times> (u32 \<Rightarrow> i128) \<times> (u32 \<Rightarrow> i128) \<times> (u32 \<Rightarrow> u32)" where
  "ledger s = snd (takings s)"

lemma takings_same: "takings s' = takings s \<Longrightarrow> takings_ok (purse s) \<Longrightarrow> takings_ok (purse s')"
  by (rule takings_cong) (auto simp: takings_def)

interpretation takings_reviews: review_observer takings
  by unfold_locales (simp_all add: takings_def purse_frame)

interpretation takings_settings: config_observer takings
  by unfold_locales (simp_all add: takings_def purse_frame, simp add: purse_def store_defs fun_eq_iff)

interpretation burst_reviews: review_observer bursts
  by unfold_locales (simp_all add: bursts_frame, simp_all add: store_defs fun_eq_iff)

interpretation burst_settings: config_observer bursts
  by unfold_locales (simp_all add: bursts_frame, simp_all add: store_defs fun_eq_iff)

lemma contributions_takings:
  "apply_contribution e cid who amt s = Inr s' \<Longrightarrow> takings s' = takings s"
  "batch_contribute_items e who items dues tot s = Inr (dues', tot', s') \<Longrightarrow> takings s' = takings s"
  "transfer_owed e who ps s = Inr s' \<Longrightarrow> takings s' = takings s"
proof -
  have one: "takings s' = takings s" if "apply_contribution e cid who amt s = Inr s'" for cid who amt and s s' :: "'a state"
    by (rule apply_contribution_purse [OF that]) (simp add: takings_def)
  show "apply_contribution e cid who amt s = Inr s' \<Longrightarrow> takings s' = takings s" by (rule one)
  show "batch_contribute_items e who items dues tot s = Inr (dues', tot', s') \<Longrightarrow> takings s' = takings s"
  proof (induction items arbitrary: dues tot s)
    case (Cons it its)
    from Cons.prems obtain s1 dues1 tot1 where run: "apply_contribution e (fst it) who (snd it) s = Inr s1"
      and rest: "batch_contribute_items e who its dues1 tot1
        (publish [Sym ''contribution_made'', U32 (fst it), Addr who] [I128 (snd it)] s1) = Inr (dues', tot', s')"
      by (simp only: batch_contribute_items.simps res_simps, blast)
    show ?case using Cons.IH [OF rest] one [OF run] by (simp add: takings_reviews.obs_publish)
  qed simp
  show "transfer_owed e who ps s = Inr s' \<Longrightarrow> takings s' = takings s"
    by (induction ps arbitrary: s) (auto simp: res_simps takings_def purse_frame)
qed

lemma fund_calls_takings:
  "contribute e cid who amt s = Inr s' \<Longrightarrow> takings s' = takings s"
  "batch_contribute e who items s = Inr s' \<Longrightarrow> takings s' = takings s"
  "set_milestones e cid ms s = Inr s' \<Longrightarrow> takings s' = takings s"
  "verify_milestone e who cid mid s = Inr s' \<Longrightarrow> takings s' = takings s"
  "set_personal_cap_fn e cid who amt s = Inr s' \<Longrightarrow> takings s' = takings s"
  "remove_personal_cap_fn e cid who s = Inr s' \<Longrightarrow> takings s' = takings s"
  "withdraw_funds e cid s = Inr s' \<Longrightarrow> takings s' = takings s"
  "withdraw_reserve e cid s = Inr s' \<Longrightarrow> takings s' = takings s"
  "claim_milestone e cid mid s = Inr s' \<Longrightarrow> takings s' = takings s"
  subgoal by (rule contribute_purse; assumption?) (simp add: takings_def)
  subgoal
    by (auto simp: batch_contribute_def res_simps takings_def [symmetric] takings_reviews.obs_publish
        dest!: contributions_takings(2, 3)) 
  subgoal by (auto simp: set_milestones_def Let_def res_simps takings_def purse_frame)
  subgoal by (auto simp: verify_milestone_def Let_def res_simps takings_def purse_frame)
  subgoal by (auto simp: set_personal_cap_fn_def Let_def res_simps takings_def purse_frame)
  subgoal by (auto simp: remove_personal_cap_fn_def Let_def res_simps takings_def purse_frame)
  subgoal
    by (simp only: withdraw_funds_def Let_def res_simps not_not, clarify, drule hold_reserve_eq)
      (simp add: takings_def purse_frame)
  subgoal by (simp only: withdraw_reserve_def Let_def res_simps, safe) (simp_all add: takings_def purse_frame)
  by (simp only: claim_milestone_def Let_def res_simps not_not, clarify)
    (auto simp: takings_def purse_frame split: if_splits)

lemma claims_takings:
  "claim_refund e cid who s = Inr s' \<Longrightarrow> takings_ok (purse s) \<Longrightarrow> takings_ok (purse s')"
  "deposit_revenue e cid amt s = Inr s' \<Longrightarrow> takings_ok (purse s) \<Longrightarrow> takings_ok (purse s')"
  "claim_revenue e cid who s = Inr s' \<Longrightarrow> takings_ok (purse s) \<Longrightarrow> takings_ok (purse s')"
  "claim_creator_revenue e cid s = Inr s' \<Longrightarrow> takings_ok (purse s) \<Longrightarrow> takings_ok (purse s')"
  subgoal
    by (erule claim_refund_purse) (auto simp: takings_ok_def purse_fields)
  subgoal
    by (simp only: deposit_revenue_def Let_def res_simps not_le purse_reads, clarify)
      (auto simp: purse_frame takings_ok_def in_i128_def intro: order_trans)
  subgoal
    by (simp only: claim_revenue_def Let_def res_simps not_le purse_reads, safe)
      (auto simp: purse_frame takings_ok_def in_i128_def split: if_splits)
  by (simp only: claim_creator_revenue_def Let_def res_simps not_le purse_reads, clarify)
    (auto simp: purse_frame takings_ok_def in_i128_def intro: less_imp_le [OF le_less_trans])

text \<open>Campaign calls: a cancellation empties the pool, a creation opens an empty one.\<close>

lemma cancel_takings:
  assumes "cancel_campaign e cid s = Inr s'"
  shows "ledger s' = ledger s \<and> (p_pool (purse s') = p_pool (purse s) \<or> p_pool (purse s') = (p_pool (purse s))(cid := 0))"
  using assms
  apply (simp only: cancel_campaign_def Let_def res_simps)
  apply clarify
  apply (drule deduct_close_purse)+
  apply (auto simp: ledger_def takings_def purse_frame split: if_splits)
  done

lemma edits_takings:
  assumes "run_campaign_call e k s = Inr s'" "\<And>p. k \<noteq> CreateCampaign p" "\<And>p tok. k \<noteq> CreateCampaignWithToken p tok"
    "\<And>cid. k \<noteq> CancelCampaign cid"
  shows "takings s' = takings s"
proof -
  have admin: "takings s' = takings s" if "admin_cancel_campaign e a cid reason s = Inr s'" for a cid reason
    using that
    apply (simp only: admin_cancel_campaign_def Let_def res_simps)
    apply clarify
    apply (drule deduct_close_purse)+
    apply (simp add: takings_def purse_frame)
    done
  have accept: "purse s' = purse s" if "accept_campaign_transfer e cid s = Inr s'" for cid
    using that
    apply (simp only: accept_campaign_transfer_def Let_def res_simps)
    apply clarify
    apply (drule creator_index_purse(1), drule creator_index_purse(2))
    apply (simp add: purse_frame)
    done
  have edits: "update_campaign e cid t d s = Inr s' \<Longrightarrow> purse s' = purse s"
    "update_campaign_description e cid d s = Inr s' \<Longrightarrow> purse s' = purse s"
    "extend_campaign_deadline e cid n s = Inr s' \<Longrightarrow> purse s' = purse s"
    "initiate_campaign_transfer e cid a s = Inr s' \<Longrightarrow> purse s' = purse s"
    "cancel_campaign_transfer e cid s = Inr s' \<Longrightarrow> purse s' = purse s" for cid t d n a
    by (auto simp: update_campaign_def update_campaign_description_def extend_campaign_deadline_def
        initiate_campaign_transfer_def cancel_campaign_transfer_def Let_def res_simps purse_frame)
  show ?thesis
    using assms by (cases k) (auto simp: takings_def dest!: accept edits admin [unfolded takings_def])
qed

lemma edits_takings_ok:
  assumes "run_campaign_call e k s = Inr s'" "\<And>p. k \<noteq> CreateCampaign p" "\<And>p tok. k \<noteq> CreateCampaignWithToken p tok"
    "takings_ok (purse s)"
  shows "takings_ok (purse s')"
proof (cases "\<exists>cid. k = CancelCampaign cid")
  case True
  then obtain cid where "cancel_campaign e cid s = Inr s'" using assms(1) by auto
  from cancel_takings [OF this] assms(4) show ?thesis
    by (auto simp: takings_ok_def ledger_def takings_def i128_max_def)
next
  case False
  from edits_takings [OF assms(1-3)] False assms(4) takings_same show ?thesis by blast
qed

lemma bursts_catalogue:
  "bursts (set_campaign_vesting n d b s) = bursts s" "bursts (set_campaign_start_time n t s) = bursts s"
  "bursts (set_campaign_count n s) = bursts s" "bursts (set_campaign_token n tok s) = bursts s"
  "bursts (set_category_campaign_count cat n s) = bursts s" "bursts (set_category_campaign_bucket cat n xs s) = bursts s"
  "bursts (set_creator_campaign_count a n s) = bursts s" "bursts (set_creator_campaign_bucket a n xs s) = bursts s"
  "bursts (set_creator_campaign_position a cid n i s) = bursts s" "bursts (remove_creator_campaign_position a cid s) = bursts s"
  "bursts (set_campaign_creator_index cid a s) = bursts s" "bursts (set_creator_title_index a h n s) = bursts s"
  by (simp_all add: store_defs fun_eq_iff)

lemma opened_gauges:
  "takings (opened e n c pinned s) = ((p_pool (purse s))(n := 0), ledger s)"
  "bursts (opened e n c pinned s) = bursts s"
proof -
  have "takings (set_campaign_token n t s) = takings s" for t and s :: "'a state"
    by (simp add: takings_def purse_def store_defs fun_eq_iff)
  then show
    "takings (opened e n c pinned s) = ((p_pool (purse s))(n := 0), ledger s)"
    "bursts (opened e n c pinned s) = bursts s"
    by (simp_all add: opened_def Let_def ledger_def takings_def purse_frame bursts_frame bursts_catalogue split: option.split)
qed

lemma create_purse:
  assumes "run_campaign_call e k s = Inr s'" "k = CreateCampaign p \<or> k = CreateCampaignWithToken p tok"
  shows "takings s' = ((p_pool (purse s))(get_campaign_count s + 1 := 0), ledger s)" "bursts s' = bursts s"
proof -
  from assms obtain n opt s1 where run: "create_campaign_inner e p opt s = Inr (n, s1)"
    and inc: "increment_active_campaign_count s1 = Inr s'"
    by (auto simp: create_campaign_entry_def create_campaign_def create_campaign_with_token_entry_def
        create_campaign_with_token_def res_simps)
  from create_campaign_inner_writes [OF run] obtain c pinned h s2 s3 where n: "n = get_campaign_count s + 1" and
    a: "append_category_index (p_category p) n (opened e n c pinned s) = Inr s2" "append_creator_index (p_creator p) n s2 = Inr s3"
    and s1: "s1 = publish [Sym ''campaign_created'', U32 n, Addr (p_creator p)]
        [Str (p_title p), U32 (category_code (p_category p))]
        (set_creator_title_index (p_creator p) h n (set_campaign_creator_index n (p_creator p) s3))" by metis
  have "takings s' = takings (opened e n c pinned s)" "bursts s' = bursts (opened e n c pinned s)"
    using a inc unfolding s1 append_category_index_ok append_creator_index_ok increment_active_campaign_count_def res_simps
    by (elim exE conjE, hypsubst, simp add: takings_def purse_frame bursts_frame bursts_catalogue)+
  then show "takings s' = ((p_pool (purse s))(get_campaign_count s + 1 := 0), ledger s)" "bursts s' = bursts s"
    unfolding opened_gauges n by simp_all
qed

lemma edits_bursts:
  assumes "run_campaign_call e k s = Inr s'" "\<And>p. k \<noteq> CreateCampaign p" "\<And>p tok. k \<noteq> CreateCampaignWithToken p tok"
  shows "bursts s' = bursts s"
proof -
  have votes: "bursts (remove_voting_state cid s) = bursts s" for cid and s :: "'a state"
    by (simp add: store_defs fun_eq_iff)
  have close: "bursts s1 = bursts s" if "deduct_raised c s = Inr s1 \<or> close_cancelled cid c s = Inr s1" for c cid and s s1 :: "'a state"
    using that by (auto simp: deduct_raised_def close_cancelled_def prune_bookmarks_for_campaign_def
        increment_cancelled_campaign_count_def Let_def res_simps bursts_frame bursts_decrements votes split: if_splits)
  have cancel: "bursts s' = bursts s" if "cancel_campaign e cid s = Inr s'" for cid
    using that
    apply (simp only: cancel_campaign_def Let_def res_simps)
    apply clarify
    apply (drule close [OF disjI1], drule close [OF disjI2])
    apply (auto simp: bursts_frame split: if_splits)
    done
  have admin: "bursts s' = bursts s" if "admin_cancel_campaign e a cid reason s = Inr s'" for a cid reason
    using that
    apply (simp only: admin_cancel_campaign_def Let_def res_simps)
    apply clarify
    apply (drule close [OF disjI1], drule close [OF disjI2])
    apply (simp add: bursts_frame)
    done
  have moved: "bursts s1 = bursts s"
    if "remove_from_creator_index a cid s = Inr s1 \<or> add_to_creator_index a cid s = Inr s1" for a cid and s s1 :: "'a state"
    using that by (auto simp: remove_from_creator_index_def add_to_creator_index_def Let_def res_simps bursts_catalogue)
  have accept: "bursts s' = bursts s" if "accept_campaign_transfer e cid s = Inr s'" for cid
    using that
    apply (simp only: accept_campaign_transfer_def Let_def res_simps)
    apply clarify
    apply (drule moved [OF disjI1], drule moved [OF disjI2])
    apply (simp add: bursts_frame bursts_catalogue)
    done
  have title: "bursts (remove_creator_title_index a h s) = bursts s" for a h and s :: "'a state"
    by (simp add: store_defs fun_eq_iff)
  have edits: "update_campaign e cid t d s = Inr s' \<Longrightarrow> bursts s' = bursts s"
    "update_campaign_description e cid d s = Inr s' \<Longrightarrow> bursts s' = bursts s"
    "extend_campaign_deadline e cid n s = Inr s' \<Longrightarrow> bursts s' = bursts s"
    "initiate_campaign_transfer e cid a s = Inr s' \<Longrightarrow> bursts s' = bursts s"
    "cancel_campaign_transfer e cid s = Inr s' \<Longrightarrow> bursts s' = bursts s" for cid t d n a
    by (simp_all only: update_campaign_def update_campaign_description_def extend_campaign_deadline_def
        initiate_campaign_transfer_def cancel_campaign_transfer_def Let_def res_simps)
      (auto simp: bursts_frame bursts_decrements bursts_catalogue votes title)
  show ?thesis using assms by (cases k) (auto dest!: cancel admin accept edits)
qed

definition gauges_ok :: "'w state \<Rightarrow> bool" where
  "gauges_ok s \<longleftrightarrow> takings_ok (purse s) \<and> calm s"

lemma fund_call_gauges:
  assumes "run_fund_call e k s = Inr s'" "gauges_ok s"
  shows "gauges_ok s'"
proof -
  have "takings_ok (purse s')"
    using assms by (cases k) (auto simp: gauges_ok_def intro: claims_takings elim: takings_same [OF fund_calls_takings(1)]
        takings_same [OF fund_calls_takings(2)] takings_same [OF fund_calls_takings(3)] takings_same [OF fund_calls_takings(4)]
        takings_same [OF fund_calls_takings(5)] takings_same [OF fund_calls_takings(6)] takings_same [OF fund_calls_takings(7)]
        takings_same [OF fund_calls_takings(8)] takings_same [OF fund_calls_takings(9)])
  moreover have "calm s'"
    using assms by (cases k) (auto simp: gauges_ok_def intro: contributions_calm
        dest!: payouts_bursts other_fund_bursts elim: calm_cong)
  ultimately show ?thesis by (simp add: gauges_ok_def)
qed

lemma gauges_call:
  assumes "dispatch e k s = Inr s'" "config_ok (config s)" "gauges_ok s"
  shows "gauges_ok s'"
proof (cases k)
  case (CampaignCall c)
  with assms(1) have run: "run_campaign_call e c s = Inr s'" by simp
  show ?thesis
  proof (cases "\<exists>p tok. c = CreateCampaign p \<or> c = CreateCampaignWithToken p tok")
    case True
    then obtain p tok where "c = CreateCampaign p \<or> c = CreateCampaignWithToken p tok" by blast
    from create_purse [OF run this] assms(3) show ?thesis by (auto simp: gauges_ok_def ledger_def takings_def takings_ok_def calm_def i128_max_def)
  next
    case False
    with edits_takings_ok [OF run] edits_bursts [OF run] assms(3) show ?thesis by (auto simp: gauges_ok_def calm_def)
  qed
next
  case (FundCall c)
  with assms fund_call_gauges show ?thesis by (metis dispatch.simps(2))
next
  case (ReviewCall c)
  with assms(1) have run: "run_review_call e c s = Inr s'" by simp
  show ?thesis
    using takings_same [OF takings_reviews.review_call_obs [OF run]] calm_cong [OF burst_reviews.review_call_obs [OF run]]
      assms(3) by (simp add: gauges_ok_def)
next
  case (ConfigCall c)
  with assms(1) have run: "run_config_call e c s = Inr s'" by simp
  note init = config_okD(1) [OF assms(2)]
  show ?thesis
    using takings_same [OF takings_settings.config_call_obs [OF run init]]
      calm_cong [OF burst_settings.config_call_obs [OF run init]] assms(3) by (simp add: gauges_ok_def)
next
  case (AdminCall c)
  with assms(1) have run: "run_admin_call e c s = Inr s'" by simp
  show ?thesis
    using takings_same [OF takings_settings.admin_call_obs [OF run]]
      calm_cong [OF burst_settings.admin_call_obs [OF run]] assms(3) by (simp add: gauges_ok_def)
qed

lemma init_gauges: "init e a tok fee (empty_state wd) = Inr s \<Longrightarrow> gauges_ok s"
  by (simp only: init_def Let_def res_simps Inr_inject, clarify)
    (simp add: gauges_ok_def takings_ok_def calm_def purse_fields store_defs empty_state_def i128_max_def)

interpretation gauges_invariant: contract_invariant "\<lambda>now. gauges_ok"
  by unfold_locales (simp_all add: init_gauges gauges_call,
      simp add: gauges_ok_def takings_ok_def calm_def purse_frame bursts_frame)

lemma reachable_gauges: "reachable h now s \<Longrightarrow> gauges_ok s"
  using gauges_invariant.reachable_all by blast

end
