(* ===== verification/TrapsFunds.thy ===== *)
theory TrapsFunds
  imports Traps Gauges
begin

text \<open>
  When the operations that move funds trap: contributions and refunds, withdrawals, milestones and revenue.
  In the reachable states their arithmetic stays in range, so that, signed and with counters
  not at their limit, only a token contract that refuses a transfer makes one of them trap.
\<close>

section \<open>Contributions\<close>

lemma burst_trap_free:
  assumes "calm s"
  shows "trap_free (fst (check_burst_guard e cid c amt s))"
proof -
  have "n + 1 \<le> u32_max" if "get_campaign_block_contribution_count s cid = (l, n)" for l n
    using assms [unfolded calm_def, THEN spec, of cid] that by (simp add: const_defs u32_max_def)
  then show ?thesis
    by (auto simp: check_burst_guard_def Let_def trap_free_def checked_simps split: option.splits prod.splits)
qed

lemma accounting_trap_free:
  assumes "config_ok (config s)" "get_contributor_count s cid < u32_max"
  shows "trap_free (update_contribution_accounting cid who c ct lf amt s)"
proof -
  have room: "get_contributor_count (set_lifetime_contribution cid who j (set_contribution cid who i (set_campaign cid d s1))) cid
      < u32_max"
    if "get_contributor_count s1 cid = get_contributor_count s cid" for s1 i j d
    using that assms(2) by (simp add: store_defs)
  have fee: "get_contributor_count (set_campaign_fee_recipient cid a s) = get_contributor_count s" for a
    by (simp add: store_defs fun_eq_iff)
  show ?thesis
    unfolding update_contribution_accounting_def Let_def
    by (intro trap_intros trap_free_config [OF assms(1)] increments_trap_free room) (auto simp: res_simps fee split: if_splits)
qed

lemma apply_contribution_trap_free:
  assumes "config_ok (config s)" "get_contributor_count s cid < u32_max" "calm s"
  shows "trap_free (apply_contribution e cid who amt s)"
proof -
  have caps: "trap_free (check_transaction_contribution_cap s amt)" "trap_free (check_contribution_caps c lf amt)"
    "trap_free (check_personal_cap s cid who ct amt)" for c lf ct
    by (auto simp: check_transaction_contribution_cap_def check_contribution_caps_def check_personal_cap_def Let_def
        intro!: trap_intros)
  have burst: "trap_free r" if "check_burst_guard e cid c amt s = (r, s1)" for c r s1
    using burst_trap_free [OF assms(3), of e cid c amt] that by simp
  have acc: "trap_free (update_contribution_accounting cid who c ct lf amt s1)"
    if "check_burst_guard e cid c amt s = (Inr u, s1)" for c ct lf u s1
  proof (rule accounting_trap_free)
    have "core s1 = core s" by (rule check_burst_guard_core [OF that])
    then show "get_contributor_count s1 cid < u32_max" using assms(2) by (simp add: core_reads)
    have "config s1 = config s" by (rule config_view.burst_obs [OF that])
    then show "config_ok (config s1)" using assms(1) by simp
  qed
  show ?thesis
    unfolding apply_contribution_def Let_def
    by (intro trap_intros caps; (erule burst)?) (auto intro: acc)
qed

lemma contribute_trap_free:
  assumes "config_ok (config s)" "get_contributor_count s cid < u32_max" "calm s" "e_auth e who"
    and paid: "\<And>tok. 0 < amt \<Longrightarrow> get_campaign_token s cid = Some tok \<Longrightarrow>
      h_transfer e tok who (h_self e) amt (st_world s) \<noteq> None"
  shows "trap_free (contribute e cid who amt s)"
proof -
  have after: "p_token (purse s1) = p_token (purse s)" "p_world (purse s1) = p_world (purse s)" "0 < amt"
    if "apply_contribution e cid who amt s = Inr s1" for s1
    by (rule apply_contribution_purse [OF that]; simp)+
  have token: "trap_free (campaign_token_client s3 cid)"
    "get_campaign_token s3 cid = Some tok \<Longrightarrow> trap_free (transfer e tok who (h_self e) amt s3)"
    if "apply_contribution e cid who amt s = Inr s1" "purse s3 = purse s1" for s1 s3 tok
    using after [OF that(1)] that(2) purse_eqD(1, 4) [OF that(2)] config_purse(1) [OF assms(1), of cid] paid [of tok]
    by (auto simp: purse_fields intro!: trap_free_purse)
  show ?thesis
    unfolding contribute_def Let_def
    by (intro trap_intros assms apply_contribution_trap_free)
      (auto simp: guards_eq_Ok purse_frame update_top_contributor_frame intro: token)
qed

text \<open>Token contracts that carry out every transfer they are asked for.\<close>

definition obliging :: "('w, 'm) host_scheme \<Rightarrow> bool" where
  "obliging e \<longleftrightarrow> (\<forall>tok frm to amt w. 0 \<le> amt \<longrightarrow> h_transfer e tok frm to amt w \<noteq> None)"

lemma apply_contribution_keeps:
  assumes "apply_contribution e cid who amt s = Inr s1"
  shows "config s1 = config s" "calm s \<Longrightarrow> calm s1" "get_contributor_count s1 i \<le> get_contributor_count s i + 1"
proof -
  show "config s1 = config s" by (rule config_view.apply_contribution_obs [OF assms])
  have "k_backers (core s1) i \<le> k_backers (core s) i + 1"
    by (rule apply_contribution_core [OF assms]) (simp add: k_contribute_def)
  then show "get_contributor_count s1 i \<le> get_contributor_count s i + 1" by (simp add: core_fields)
  show "calm s1" if "calm s" by (rule apply_contribution_calm [OF assms that])
qed

lemma batch_items_trap_free:
  assumes "config_ok (config s)" "calm s" "\<And>i. get_contributor_count s i + length items \<le> u32_max"
  shows "trap_free (batch_contribute_items e who items dues tot s)"
  using assms
proof (induction items arbitrary: dues tot s)
  case (Cons it its)
  have count: "get_contributor_count s (fst it) < u32_max" using Cons.prems(3) [of "fst it"] by simp
  have rest: "trap_free (campaign_token_client s1 (fst it))"
    "trap_free (batch_contribute_items e who its dues' tot' (publish tp v s1))"
    if run: "apply_contribution e (fst it) who (snd it) s = Inr s1" for s1 dues' tot' tp v
  proof -
    note keeps = apply_contribution_keeps [OF run]
    have config: "config_ok (config s1)" using keeps(1) Cons.prems(1) by simp
    then show "trap_free (campaign_token_client s1 (fst it))" by (rule trap_free_config)
    have "calm (publish tp v s1)" using keeps(2) [OF Cons.prems(2)] by (simp add: calm_def store_defs)
    moreover have "get_contributor_count (publish tp v s1) i + length its \<le> u32_max" for i
      using keeps(3) [of i] Cons.prems(3) [of i] by (simp add: store_defs)
    ultimately show "trap_free (batch_contribute_items e who its dues' tot' (publish tp v s1))"
      using Cons.IH config by (simp add: config_frame)
  qed
  show ?case
    unfolding batch_contribute_items.simps
    by (intro trap_intros rest apply_contribution_trap_free Cons.prems count)
qed (simp add: trap_freeI)

lemma omap_set_entries: "set (omap_set k v m) \<subseteq> insert (k, v) (set m)"
  by (induction k v m rule: omap_set.induct) auto

lemma owed_nonneg_items:
  assumes "batch_contribute_items e who items dues tot s = Inr (dues', tot', s')" "\<forall>p\<in>set dues. 0 \<le> snd p"
  shows "\<forall>p\<in>set dues'. 0 \<le> snd p"
  using assms
proof (induction items arbitrary: dues tot s)
  case (Cons it its)
  from Cons.prems(1) obtain s1 tok tot1 where run: "apply_contribution e (fst it) who (snd it) s = Inr s1"
    and rest: "batch_contribute_items e who its (omap_set tok ((case omap_get dues tok of None \<Rightarrow> 0 | Some x \<Rightarrow> x) + snd it) dues)
      tot1 (publish [Sym ''contribution_made'', U32 (fst it), Addr who] [I128 (snd it)] s1) = Inr (dues', tot', s')"
    by (simp only: batch_contribute_items.simps res_simps, blast)
  have "(tok, v) \<in> set dues" if "omap_get dues tok = Some v" for v
    using that by (induction dues tok rule: omap_get.induct) (auto split: if_splits)
  with Cons.prems(2) have "0 \<le> (case omap_get dues tok of None \<Rightarrow> 0 | Some x \<Rightarrow> x)"
    by (force split: option.split)
  moreover have "0 < snd it" by (rule apply_contribution_purse [OF run])
  ultimately show ?case using Cons.prems(2) omap_set_entries by (intro Cons.IH [OF rest]) fastforce
qed simp

lemma transfer_owed_trap_free:
  assumes "obliging e" "\<forall>p\<in>set dues. 0 \<le> snd p"
  shows "trap_free (transfer_owed e who dues s)"
  using assms(2)
proof (induction dues arbitrary: s)
  case (Cons p ps)
  have "trap_free (transfer e (fst p) who (h_self e) (snd p) s)"
    using assms(1) Cons.prems by (intro trap_free_transfer) (simp add: obliging_def)
  then show ?case using Cons by (auto intro!: trap_intros)
qed (simp add: trap_freeI)

lemma batch_contribute_trap_free:
  assumes "config_ok (config s)" "calm s" "\<And>i. get_contributor_count s i + MAX_BATCH_CONTRIBUTE_SIZE \<le> u32_max"
    "e_auth e who" "obliging e"
  shows "trap_free (batch_contribute e who items s)"
proof -
  have items: "trap_free (batch_contribute_items e who items [] 0 s)" if "length items \<le> MAX_BATCH_CONTRIBUTE_SIZE"
    using that assms(3) by (intro batch_items_trap_free assms) (meson add_left_mono order_trans)
  have pay: "trap_free (transfer_owed e who dues s1)" if "batch_contribute_items e who items [] 0 s = Inr (dues, tot, s1)"
    for dues tot s1
    by (rule transfer_owed_trap_free [OF assms(5) owed_nonneg_items [OF that]]) simp
  show ?thesis
    unfolding batch_contribute_def
    by (intro trap_intros assms) (auto intro: items pay)
qed

lemma claim_refund_trap_free:
  assumes "config_ok (config s)" "core_inv now (core s)" "e_auth e who"
    and paid: "\<And>c tok. get_campaign s cid = Some c \<Longrightarrow> refundable (e_timestamp e) c \<Longrightarrow> 0 < get_contribution s cid who \<Longrightarrow> get_campaign_token s cid = Some tok \<Longrightarrow>
      h_transfer e tok (h_self e) who (get_contribution s cid who) (st_world s) \<noteq> None"
  shows "trap_free (claim_refund e cid who s)"
proof -
  have pos: "0 < get_contribution s cid who" if "get_campaign s cid = Some c" "get_contribution s cid who \<noteq> 0" for c
    using books_okD(3) [OF core_invD(4) [OF assms(2), of cid c], of who] that by (simp add: core_fields)
  have token: "p_token (purse s) cid \<noteq> None" by (rule config_purse [OF assms(1)])
  have dues: "h_transfer e tok (h_self e) who (get_contribution s cid who) (p_world (purse s)) \<noteq> None"
    if "p_token (purse s) cid = Some tok" "get_campaign s cid = Some c" "refundable (e_timestamp e) c"
      "get_contribution s cid who \<noteq> 0" for tok c
    using that paid pos by (simp add: purse_fields)
  show ?thesis
    unfolding claim_refund_def Let_def
    by (intro trap_intros assms; (rule trap_free_purse)?)
      (use token dues in \<open>auto simp: res_simps refundable_def purse_reads purse_frame split: if_splits\<close>)
qed

section \<open>Withdrawals\<close>

lemma sub_trap_free: "0 \<le> b \<Longrightarrow> b \<le> a \<Longrightarrow> a \<le> i128_max \<Longrightarrow> trap_free (sub_or_trap a b)"
  by (auto simp: sub_or_trap_def checked_simps in_i128_def i128_min_def intro!: trap_intros)

lemma ceil_bps_trap_free: "trap_free (ceil_bps a b)"
  by (auto simp: ceil_bps_def intro!: trap_intros)

lemma hold_reserve_trap_free: "d \<le> 365 \<Longrightarrow> trap_free (hold_reserve cid now d a s)"
  by (auto simp: hold_reserve_def checked_simps const_defs u64_max_def intro!: trap_intros)

text \<open>What a withdrawal splits its amount into, while it is computed.\<close>

lemma withdrawal_amounts:
  assumes "config_ok (config s)" "core_inv now (core s)" "vesting_ok s" "get_campaign s cid = Some c"
    and fee: "ceil_bps (c_effective_amount_raised c) (effective_platform_fee c s) = Inr fee"
  shows "0 \<le> fee" "fee \<le> c_effective_amount_raised c" "c_effective_amount_raised c \<le> i128_max"
    "fst (vesting_params cid s) \<le> 365"
    "ceil_bps (c_effective_amount_raised c - fee) (snd (vesting_params cid s)) = Inr r \<Longrightarrow> 0 \<le> r"
    "ceil_bps (c_effective_amount_raised c - fee) (snd (vesting_params cid s)) = Inr r \<Longrightarrow>
      r \<le> c_effective_amount_raised c - fee"
proof -
  note inv = core_invD [OF assms(2), of cid c, unfolded core_fields, OF assms(4)]
  note bounds = books_ok_bounds [OF inv(4)]
  show eff: "c_effective_amount_raised c \<le> i128_max" using bounds(2, 3) by simp
  have "effective_platform_fee c s \<le> BPS_DENOMINATOR"
    using inv(3) config_okD(5) [OF assms(1)]
    by (auto simp: effective_platform_fee_def terms_ok_def BPS_DENOMINATOR_def split: option.splits)
  from ceil_bps_bounds [OF fee bounds(1) this] show f: "0 \<le> fee" "fee \<le> c_effective_amount_raised c" by simp_all
  show "fst (vesting_params cid s) \<le> 365"
    using assms(3) config_okD(7) [OF assms(1)] by (auto simp: vesting_params_def vesting_ok_def split: option.splits)
  have bps: "snd (vesting_params cid s) \<le> BPS_DENOMINATOR"
    using assms(3) config_okD(8) [OF assms(1)]
    by (auto simp: vesting_params_def vesting_ok_def BPS_DENOMINATOR_def split: option.splits)
  assume "ceil_bps (c_effective_amount_raised c - fee) (snd (vesting_params cid s)) = Inr r"
  from ceil_bps_bounds [OF this _ bps] f show "0 \<le> r" "r \<le> c_effective_amount_raised c - fee" by simp_all
qed

lemma withdraw_funds_trap_free:
  assumes ok: "config_ok (config s)" "core_inv now (core s)" "vesting_ok s"
    and signed: "\<And>c. get_campaign s cid = Some c \<Longrightarrow> e_auth e (c_creator c)"
    and paid: "\<And>c tok to fee pay. get_campaign s cid = Some c \<Longrightarrow> \<not> c_funds_withdrawn c \<Longrightarrow> \<not> c_is_cancelled c \<Longrightarrow>
      get_campaign_token s cid = Some tok \<Longrightarrow> 0 \<le> fee \<Longrightarrow> 0 \<le> pay \<Longrightarrow> fee + pay \<le> c_effective_amount_raised c \<Longrightarrow>
      \<exists>w. h_transfer e tok (h_self e) to fee (st_world s) = Some w \<and> h_transfer e tok (h_self e) (c_creator c) pay w \<noteq> None"
  shows "trap_free (withdraw_funds e cid s)"
proof -
  note amounts = withdrawal_amounts [OF ok]
  have hold: "p_token (purse s3) = p_token (purse s)" "p_world (purse s3) = p_world (purse s)"
    "p_admin (purse s3) = p_admin (purse s)" "p_fee_to (purse s3) = p_fee_to (purse s)"
    if "hold_reserve cid now' d r (decrement_active_campaign_count (set_campaign cid c1 s)) = Inr s3" for now' d r c1 s3
    using that by (auto simp: hold_reserve_def res_simps purse_frame split: if_splits)
  have split: "0 \<le> fee \<and> fee \<le> c_effective_amount_raised c \<and> d \<le> 365 \<and> 0 \<le> r \<and>
      r \<le> c_effective_amount_raised c - fee \<and> c_effective_amount_raised c \<le> i128_max"
    if "get_campaign s cid = Some c" "ceil_bps (c_effective_amount_raised c) (effective_platform_fee c s) = Inr fee"
      "vesting_params cid s = (d, b)" "ceil_bps (c_effective_amount_raised c - fee) b = Inr r" for c fee d b r
    using amounts(1-4) [OF that(1, 2)] amounts(5, 6) [OF that(1, 2), of r] that(3, 4) by simp_all
  have token: "p_token (purse s) cid \<noteq> None" "p_admin (purse s) \<noteq> None" by (rule config_purse [OF ok(1)])+
  have pay: "h_transfer e tok (h_self e) to fee (p_world (purse s)) \<noteq> None"
    if "get_campaign s cid = Some c" "\<not> c_funds_withdrawn c" "\<not> c_is_cancelled c" "p_token (purse s) cid = Some tok"
      "0 \<le> fee" "fee \<le> c_effective_amount_raised c" for c tok to fee
    using paid [OF that(1-3) _ that(5), of tok 0 to] that(4, 6) by (auto simp: purse_fields)
  have rest: "h_transfer e tok (h_self e) (c_creator c) pay w \<noteq> None"
    if "h_transfer e tok (h_self e) to fee (p_world (purse s)) = Some w" "get_campaign s cid = Some c"
      "\<not> c_funds_withdrawn c" "\<not> c_is_cancelled c" "p_token (purse s) cid = Some tok"
      "0 \<le> fee" "0 \<le> pay" "fee + pay \<le> c_effective_amount_raised c" for c tok to fee pay w
    using paid [OF that(2-4) _ that(6-8), of tok to] that(1, 5) by (auto simp: purse_fields)
  show ?thesis
    unfolding withdraw_funds_def Let_def
    apply (intro trap_intros ceil_bps_trap_free)
    apply (simp_all only: res_simps)
            apply (erule signed)
           apply (elim conjE, frule (1) amounts(1), frule (1) amounts(2), frule (1) amounts(3), erule (2) sub_trap_free)
          apply (elim conjE, frule (3) split, simp add: sub_trap_free)
         apply (elim conjE, frule (3) split, simp add: hold_reserve_trap_free)
        apply (elim conjE, frule (3) split, simp add: sub_trap_free)
       apply (simp add: fee_recipient_or_admin_def purse_reads purse_frame hold token trap_freeI trap_free_purse split: option.split)
      apply (rule trap_free_purse, simp add: purse_frame hold token)
     apply (rule trap_free_purse, elim conjE, frule (3) split, simp add: purse_reads purse_frame hold del: not_None_eq,
        elim conjE, erule pay; simp)
    apply (rule trap_free_purse, elim conjE exE, frule (3) split, simp add: purse_reads purse_frame hold del: not_None_eq,
        elim conjE, erule rest; simp)
    done
qed

lemma withdraw_reserve_trap_free:
  assumes "config_ok (config s)" "drawers_ok (till s)"
    and signed: "\<And>c. get_campaign s cid = Some c \<Longrightarrow> e_auth e (c_creator c)"
    and paid: "\<And>c tok r. get_campaign s cid = Some c \<Longrightarrow> get_campaign_token s cid = Some tok \<Longrightarrow>
      get_campaign_reserve s cid = Some r \<Longrightarrow> \<not> r_released r \<Longrightarrow> 0 \<le> r_amount r \<Longrightarrow>
      h_transfer e tok (h_self e) (c_creator c) (r_amount r) (st_world s) \<noteq> None"
  shows "trap_free (withdraw_reserve e cid s)"
proof -
  have token: "p_token (purse s) cid \<noteq> None" by (rule config_purse [OF assms(1)])
  have held: "0 \<le> r_amount r" if "get_campaign_reserve s cid = Some r" "\<not> r_released r" for r
    using drawers_okD(3) [OF assms(2), of cid r] that by (simp add: till_fields drawer_def)
  have pay: "h_transfer e tok (h_self e) (c_creator c) (r_amount r) (p_world (purse s)) \<noteq> None"
    if "p_token (purse s) cid = Some tok" "get_campaign s cid = Some c" "get_campaign_reserve s cid = Some r" "\<not> r_released r"
    for tok c r
    using that paid held by (simp add: purse_fields)
  show ?thesis
    unfolding withdraw_reserve_def Let_def
    by (intro trap_intros; (rule trap_free_purse)?)
      (use token pay signed in \<open>auto simp: res_simps purse_reads purse_frame\<close>)
qed

section \<open>Milestones\<close>

lemma verify_milestone_trap_free:
  assumes "config_ok (config s)" "get_admin s = Some a \<Longrightarrow> e_auth e a"
  shows "trap_free (verify_milestone e a cid mid s)"
proof -
  have mark: "trap_free (mark_milestone mid ms found updated)" for ms found updated
    by (induction ms arbitrary: found updated) (auto intro!: trap_intros)
  show ?thesis
    unfolding verify_milestone_def Let_def
    by (intro trap_intros mark trap_free_config [OF assms(1)]) (use assms(2) in auto)
qed

lemma milestone_payout_trap_free:
  assumes "config_ok (config s)" "core_inv now (core s)" "get_campaign s cid = Some c"
  shows "trap_free (milestone_payout s cid c ms m)"
proof -
  note inv = core_invD [OF assms(2), of cid c, unfolded core_fields, OF assms(3)]
  note bounds = books_ok_bounds [OF inv(4)]
  have fee: "effective_platform_fee c s \<le> BPS_DENOMINATOR"
    using inv(3) config_okD(5) [OF assms(1)]
    by (auto simp: effective_platform_fee_def terms_ok_def BPS_DENOMINATOR_def split: option.splits)
  have net: "trap_free (sub_or_trap (c_amount_raised c) f)"
    if "ceil_bps (c_amount_raised c) (effective_platform_fee c s) = Inr f" for f
    using ceil_bps_bounds [OF that _ fee] bounds by (intro sub_trap_free) simp_all
  have floor: "trap_free (floor_bps a b)" for a b by (auto simp: floor_bps_def intro!: trap_intros)
  have sums: "trap_free (claimed_so_far s cid a ms b i)" "trap_free (fee_claimed_so_far s cid a ms i)" for a b i ms
    by (induction ms arbitrary: b i) (auto intro!: trap_intros floor)
  show ?thesis
    unfolding milestone_payout_def Let_def
    by (intro trap_intros floor sums ceil_bps_trap_free; rule net)
qed

lemma claim_milestone_trap_free:
  assumes "config_ok (config s)" "core_inv now (core s)" "obliging e"
    and signed: "\<And>c. get_campaign s cid = Some c \<Longrightarrow> e_auth e (c_creator c)"
  shows "trap_free (claim_milestone e cid mid s)"
proof -
  have token: "p_token (purse s) cid \<noteq> None" "p_admin (purse s) \<noteq> None" by (rule config_purse [OF assms(1)])+
  have payout: "trap_free (milestone_payout s cid c ms m)" if "get_campaign_or_error s cid = Inr c" for c ms m
    using that by (intro milestone_payout_trap_free [OF assms(1, 2)]) (simp add: res_simps)
  have pay: "trap_free (transfer e tok frm to amt s1)" if "0 \<le> amt" for tok frm to amt s1
    using assms(3) that by (intro trap_free_transfer) (simp add: obliging_def)
  have after: "purse (if b then decrement_active_campaign_count (set_campaign cid d s2) else s2) = purse s2" for b d and s2 :: "'a state"
    by (simp add: purse_frame)
  have wrote: "p_token (purse s3) cid \<noteq> None" "p_admin (purse s3) \<noteq> None"
    if "purse s3 = purse (set_total_raised_global tot (set_milestone_claimed cid mid s))" for s3 tot
    using token unfolding that by (simp_all add: purse_frame)
  show ?thesis
    unfolding claim_milestone_def Let_def
    apply (intro trap_intros)
         apply (simp only: res_simps)
         apply (erule signed)
        apply (erule payout)
       apply (rule trap_free_purse, simp only: after, rule wrote, simp)
      apply (rule trap_free_purse, simp only: after, rule wrote, simp)
     apply (rule pay, simp)
    apply (rule pay, simp)
    done
qed

section \<open>Revenue\<close>

lemma deposit_revenue_trap_free:
  assumes "config_ok (config s)" and signed: "\<And>c. get_campaign s cid = Some c \<Longrightarrow> e_auth e (c_creator c)"
    and paid: "\<And>c tok. get_campaign s cid = Some c \<Longrightarrow> get_campaign_token s cid = Some tok \<Longrightarrow> 0 < amt \<Longrightarrow>
      h_transfer e tok (c_creator c) (h_self e) amt (st_world s) \<noteq> None"
  shows "trap_free (deposit_revenue e cid amt s)"
proof -
  have token: "p_token (purse s) cid \<noteq> None" by (rule config_purse [OF assms(1)])
  have pay: "h_transfer e tok (c_creator c) (h_self e) amt (p_world (purse s)) \<noteq> None"
    if "p_token (purse s) cid = Some tok" "get_campaign s cid = Some c" "0 < amt" for tok c
    using that paid by (simp add: purse_fields)
  show ?thesis
    unfolding deposit_revenue_def Let_def
    by (intro trap_intros signed; (rule trap_free_purse)?)
      (use token pay in \<open>auto simp: res_simps purse_reads purse_frame\<close>)
qed

lemma checked_range:
  "i128_checked_mul a b = Some c \<Longrightarrow> in_i128 c" "i128_checked_div a b = Some c \<Longrightarrow> in_i128 c"
  by (auto simp: checked_eq_Some)

lemma shares_in_range:
  "contributor_due ct pool share eff = Inr d \<Longrightarrow> d \<le> i128_max"
  "creator_share pool share = Inr d \<Longrightarrow> d \<le> i128_max"
  by (auto simp: contributor_due_def creator_share_def ok_or_eq_ok bind_eq_Some_conv in_i128_def dest!: checked_range)

lemma shares_trap_free: "trap_free (contributor_due ct pool share eff)" "trap_free (creator_share pool share)"
  by (simp_all add: contributor_due_def creator_share_def trap_freeI)

lemma difference_in_range: "0 \<le> a \<Longrightarrow> a \<le> i128_max \<Longrightarrow> 0 \<le> b \<Longrightarrow> b \<le> i128_max \<Longrightarrow> i128_checked_sub a b \<noteq> None"
  by (auto simp: checked_simps in_i128_def i128_min_def i128_max_def)

lemma revenue_claimable_trap_free:
  assumes "takings_ok (purse s)" "c_revenue_share_percentage c \<le> BPS_DENOMINATOR"
  shows "trap_free (revenue_claimable c cid who own s)"
proof -
  note books = takings_okD [OF assms(1), of cid]
  have sub: "trap_free (unwrap (i128_checked_sub (get_revenue_pool s cid) cs))"
    "i128_checked_sub (get_revenue_pool s cid) cs = Some rest \<Longrightarrow>
      trap_free (unwrap (i128_checked_sub rest (get_contributor_revenue_distributed s cid)))"
    if "creator_share (get_revenue_pool s cid) (c_revenue_share_percentage c) = Inr cs" for cs rest
  proof -
    note cs = creator_share_eq(2, 3) [OF that books(1) assms(2)]
    show "trap_free (unwrap (i128_checked_sub (get_revenue_pool s cid) cs))"
      by (intro trap_intros difference_in_range) (use cs books in simp_all)
    assume "i128_checked_sub (get_revenue_pool s cid) cs = Some rest"
    then have "rest = get_revenue_pool s cid - cs" by (simp add: checked_eq_Some)
    then show "trap_free (unwrap (i128_checked_sub rest (get_contributor_revenue_distributed s cid)))"
      by (intro trap_intros difference_in_range) (use cs books in simp_all)
  qed
  show ?thesis
    unfolding revenue_claimable_def Let_def
    by (intro trap_intros shares_trap_free sub) (auto simp: res_simps)
qed

lemma claim_revenue_trap_free:
  assumes ok: "config_ok (config s)" "core_inv now (core s)" "takings_ok (purse s)" and signed: "e_auth e who"
    and paid: "\<And>c tok due x. get_campaign s cid = Some c \<Longrightarrow> c_funds_withdrawn c \<Longrightarrow> get_campaign_token s cid = Some tok \<Longrightarrow>
      get_contribution s cid who \<noteq> 0 \<Longrightarrow> contributor_due (get_contribution s cid who) (get_revenue_pool s cid)
        (c_revenue_share_percentage c) (c_effective_amount_raised c) = Inr due \<Longrightarrow> get_revenue_claimed s cid who < due \<Longrightarrow>
      revenue_claimable c cid who (due - get_revenue_claimed s cid who) s = Inr x \<Longrightarrow> 0 < x \<Longrightarrow>
      h_transfer e tok (h_self e) who x (st_world s) \<noteq> None"
  shows "trap_free (claim_revenue e cid who s)"
proof -
  have token: "p_token (purse s) cid \<noteq> None" by (rule config_purse [OF ok(1)])
  have inv: "terms_ok (k_start (core s) cid) c" "0 \<le> get_contribution s cid who" "0 \<le> c_effective_amount_raised c"
    if "get_campaign s cid = Some c" for c
    using core_invD(3, 4) [OF ok(2), of cid c] books_okD(3) books_ok_bounds(1) that by (auto simp: core_fields)
  have share: "c_revenue_share_percentage c \<le> BPS_DENOMINATOR" if "get_campaign s cid = Some c" for c
    using inv(1) [OF that] by (auto simp: terms_ok_def BPS_DENOMINATOR_def split: if_splits)
  have own: "i128_checked_sub due (get_revenue_claimed s cid who) \<noteq> None"
    if "get_campaign_or_error s cid = Inr c" "c_effective_amount_raised c \<noteq> 0" "contributor_due (get_contribution s cid who)
      (get_revenue_pool s cid) (c_revenue_share_percentage c) (c_effective_amount_raised c) = Inr due" for c due
  proof -
    have camp: "get_campaign s cid = Some c" using that(1) by (simp add: res_simps)
    have "0 \<le> due" using contributor_due_eq(2) [OF that(3)] inv(2, 3) [OF camp] takings_okD(1) [OF ok(3)] that(2) by simp
    with shares_in_range(1) [OF that(3)] takings_okD(3, 4) [OF ok(3)] show ?thesis
      by (intro difference_in_range) simp_all
  qed
  have claimable: "trap_free (revenue_claimable c cid who x s)" if "get_campaign_or_error s cid = Inr c" for c x
    using that share by (intro revenue_claimable_trap_free [OF ok(3)]) (simp add: res_simps)
  show ?thesis
    unfolding claim_revenue_def Let_def
    apply (intro trap_intros signed shares_trap_free)
    apply (erule (2) own)
    apply (erule claimable)
    apply (rule trap_free_purse)
    subgoal using token by (auto simp: res_simps purse_reads purse_frame split: if_splits)
    apply (rule trap_free_purse)
    subgoal using paid by (auto simp: res_simps purse_reads purse_frame split: if_splits)
    done
qed

lemma claim_creator_revenue_trap_free:
  assumes ok: "config_ok (config s)" "core_inv now (core s)" "takings_ok (purse s)"
    and signed: "\<And>c. get_campaign s cid = Some c \<Longrightarrow> e_auth e (c_creator c)"
    and paid: "\<And>c tok cs. get_campaign s cid = Some c \<Longrightarrow> get_campaign_token s cid = Some tok \<Longrightarrow>
      creator_share (get_revenue_pool s cid) (c_revenue_share_percentage c) = Inr cs \<Longrightarrow>
      get_creator_revenue_claimed s cid < cs \<Longrightarrow>
      h_transfer e tok (h_self e) (c_creator c) (cs - get_creator_revenue_claimed s cid) (st_world s) \<noteq> None"
  shows "trap_free (claim_creator_revenue e cid s)"
proof -
  have token: "p_token (purse s) cid \<noteq> None" by (rule config_purse [OF ok(1)])
  have own: "i128_checked_sub cs (get_creator_revenue_claimed s cid) \<noteq> None"
    if "\<not> BPS_DENOMINATOR < c_revenue_share_percentage c"
      "creator_share (get_revenue_pool s cid) (c_revenue_share_percentage c) = Inr cs" for c cs
  proof -
    note cs = creator_share_eq(2, 3) [OF that(2)]
    show ?thesis
      using cs takings_okD(1, 2, 5, 6) [OF ok(3), of cid] that(1) by (intro difference_in_range) simp_all
  qed
  show ?thesis
    unfolding claim_creator_revenue_def Let_def
    apply (intro trap_intros signed shares_trap_free)
    apply (simp add: res_simps)
    apply (erule (1) own)
    apply (rule trap_free_purse)
    subgoal using token by (auto simp: res_simps purse_reads purse_frame split: if_splits)
    apply (rule trap_free_purse)
    subgoal using paid by (auto simp: res_simps purse_reads purse_frame split: if_splits)
    done
qed

section \<open>Every call\<close>

text \<open>Who has to sign a call, read off the state it is made in.\<close>

definition creator_of :: "'w state \<Rightarrow> u32 \<Rightarrow> address set" where
  "creator_of s cid = set_option (map_option c_creator (get_campaign s cid))"

definition pending_creator_of :: "'w state \<Rightarrow> u32 \<Rightarrow> address set" where
  "pending_creator_of s cid =
    (case get_campaign s cid of None \<Rightarrow> {}
     | Some c \<Rightarrow> (case c_pending_creator c of NoPending \<Rightarrow> {} | Pending a \<Rightarrow> {a}))"

fun campaign_call_signers :: "campaign_call \<Rightarrow> 'w state \<Rightarrow> address set" where
  "campaign_call_signers (CreateCampaign p) s = {p_creator p}"
| "campaign_call_signers (CreateCampaignWithToken p tok) s = {p_creator p}"
| "campaign_call_signers (CancelCampaign cid) s = creator_of s cid"
| "campaign_call_signers (AdminCancelCampaign a cid reason) s = {a}"
| "campaign_call_signers (UpdateCampaign cid t d) s = creator_of s cid"
| "campaign_call_signers (UpdateCampaignDescription cid d) s = creator_of s cid"
| "campaign_call_signers (ExtendCampaignDeadline cid days) s = creator_of s cid"
| "campaign_call_signers (InitiateCampaignTransfer cid a) s = creator_of s cid"
| "campaign_call_signers (AcceptCampaignTransfer cid) s = pending_creator_of s cid"
| "campaign_call_signers (CancelCampaignTransfer cid) s = creator_of s cid"

fun fund_call_signers :: "fund_call \<Rightarrow> 'w state \<Rightarrow> address set" where
  "fund_call_signers (Contribute cid a x) s = {a}"
| "fund_call_signers (ClaimRefund cid a) s = {a}"
| "fund_call_signers (BatchContribute a items) s = {a}"
| "fund_call_signers (WithdrawFunds cid) s = creator_of s cid"
| "fund_call_signers (WithdrawReserve cid) s = creator_of s cid"
| "fund_call_signers (SetMilestones cid ms) s = creator_of s cid"
| "fund_call_signers (VerifyMilestone a cid mid) s = {a}"
| "fund_call_signers (ClaimMilestone cid mid) s = creator_of s cid"
| "fund_call_signers (DepositRevenue cid x) s = creator_of s cid"
| "fund_call_signers (ClaimRevenue cid a) s = {a}"
| "fund_call_signers (ClaimCreatorRevenue cid) s = creator_of s cid"
| "fund_call_signers (SetPersonalCap cid a x) s = {a}"
| "fund_call_signers (RemovePersonalCap cid a) s = {a}"

fun signers :: "call \<Rightarrow> 'w state \<Rightarrow> address set" where
  "signers (CampaignCall k) s = campaign_call_signers k s"
| "signers (FundCall k) s = fund_call_signers k s"
| "signers (ReviewCall k) s = review_call_signers k s"
| "signers (ConfigCall k) s = set_option (get_admin s)"
| "signers (AdminCall k) s = admin_call_signers k s"

text \<open>The counters leave room for one more call: a scan of the campaigns, and a batch of contributions.\<close>

definition roomy :: "'w state \<Rightarrow> bool" where
  "roomy s \<longleftrightarrow> get_campaign_count s + MAX_SCAN_WINDOW \<le> u32_max \<and>
     (\<forall>cid. get_contributor_count s cid + MAX_BATCH_CONTRIBUTE_SIZE \<le> u32_max)"

lemma creator_ofI: "get_campaign s cid = Some c \<Longrightarrow> c_creator c \<in> creator_of s cid"
  by (simp add: creator_of_def)

lemma campaign_calls_trap_free:
  assumes "reachable h now s" "now \<le> e_timestamp e" "\<And>a. a \<in> campaign_call_signers k s \<Longrightarrow> e_auth e a"
  shows "trap_free (run_campaign_call e k s)"
proof -
  note config = reachable_config [OF assms(1)]
  have core: "core_inv (e_timestamp e) (core s)" by (rule core_inv_later [OF reachable_core [OF assms(1)] assms(2)])
  have index: "index_ok s" by (rule reachable_index [OF assms(1)])
  then have count: "get_campaign_count s \<le> u32_max" by (simp add: index_ok_def)
  have listed: "catalogued s" using catalogue_invariant.reachable_all [OF assms(1)] by blast
  have "drawers_ok (till s)" using drawers_invariant.reachable_all [OF assms(1)] by blast
  note empty = drawers_okD(4) [OF this]
  have signed: "e_auth e (c_creator c)" if "creator_of s cid \<subseteq> campaign_call_signers k s" "get_campaign s cid = Some c" for cid c
    using assms(3) creator_ofI [OF that(2)] that(1) by blast
  show ?thesis
  proof (cases k)
    case (CreateCampaign p)
    with assms(3) create_trap_free(1) [OF config core index listed] show ?thesis by (auto intro!: trap_intros)
  next
    case (CreateCampaignWithToken p tok)
    with assms(3) create_trap_free(2) [OF config core index listed] show ?thesis by (auto intro!: trap_intros)
  next
    case (CancelCampaign cid)
    have "trap_free (cancel_campaign e cid s)"
    proof (rule cancel_campaign_trap_free [OF config core count])
      show "e_auth e (c_creator c)" if "get_campaign s cid = Some c" for c
        using signed [OF _ that] CancelCampaign by simp
      show "get_revenue_pool s cid = 0" if "get_campaign s cid = Some c" "\<not> c_funds_withdrawn c" for c
        using empty [of cid] that by (simp add: till_fields raised_view_def)
    qed
    with CancelCampaign show ?thesis by simp
  next
    case (AdminCancelCampaign a cid reason)
    with assms(3) admin_cancel_trap_free [OF config core count] show ?thesis by simp
  next
    case (AcceptCampaignTransfer cid)
    have "e_auth e a" if "get_campaign s cid = Some c" "c_pending_creator c = Pending a" for c a
      using assms(3) that AcceptCampaignTransfer by (simp add: pending_creator_of_def)
    then have "trap_free (accept_campaign_transfer e cid s)" by (rule accept_transfer_trap_free [OF core index])
    with AcceptCampaignTransfer show ?thesis by simp
  qed (use signed in \<open>auto intro!: edits_trap_free\<close>)
qed

lemma fund_calls_trap_free:
  assumes "reachable h now s" "now \<le> e_timestamp e" "\<And>a. a \<in> fund_call_signers k s \<Longrightarrow> e_auth e a"
    and "obliging e" "roomy s"
  shows "trap_free (run_fund_call e k s)"
proof -
  note config = reachable_config [OF assms(1)]
  have core: "core_inv (e_timestamp e) (core s)" by (rule core_inv_later [OF reachable_core [OF assms(1)] assms(2)])
  have vest: "vesting_ok s" and drawers: "drawers_ok (till s)" using drawers_invariant.reachable_all [OF assms(1)] by blast+
  have takings: "takings_ok (purse s)" and calm: "calm s" using reachable_gauges [OF assms(1)] by (simp_all add: gauges_ok_def)
  have room: "get_contributor_count s cid + MAX_BATCH_CONTRIBUTE_SIZE \<le> u32_max" for cid using assms(5) by (simp add: roomy_def)
  have one: "get_contributor_count s cid < u32_max" for cid using room [of cid] by (simp add: const_defs)
  have signed: "e_auth e (c_creator c)" if "creator_of s cid \<subseteq> fund_call_signers k s" "get_campaign s cid = Some c" for cid c
    using assms(3) creator_ofI [OF that(2)] that(1) by blast
  have pays: "h_transfer e tok frm to amt w \<noteq> None" if "0 \<le> amt" for tok frm to amt w
    using assms(4) that by (simp add: obliging_def)
  have twice: "\<exists>w'. h_transfer e tok frm to amt w = Some w' \<and> h_transfer e tok frm to' amt' w' \<noteq> None"
    if "0 \<le> amt" "0 \<le> amt'" for tok frm to to' amt amt' w
    using pays [OF that(1)] pays [OF that(2)] by blast
  show ?thesis
  proof (cases k)
    case (Contribute cid a x)
    with assms(3) show ?thesis by (simp add: contribute_trap_free [OF config one calm] pays del: not_None_eq)
  next
    case (ClaimRefund cid a)
    with assms(3) show ?thesis by (simp add: claim_refund_trap_free [OF config core] pays del: not_None_eq)
  next
    case (BatchContribute a items)
    with assms(3, 4) show ?thesis by (simp add: batch_contribute_trap_free [OF config calm room])
  next
    case (WithdrawFunds cid)
    have "trap_free (withdraw_funds e cid s)"
      by (rule withdraw_funds_trap_free [OF config core vest]) (use WithdrawFunds signed [of cid] twice in auto)
    with WithdrawFunds show ?thesis by simp
  next
    case (WithdrawReserve cid)
    have "trap_free (withdraw_reserve e cid s)"
      by (rule withdraw_reserve_trap_free [OF config drawers]) (use WithdrawReserve signed [of cid] pays in auto)
    with WithdrawReserve show ?thesis by simp
  next
    case (SetMilestones cid ms)
    have "trap_free (set_milestones e cid ms s)" by (rule edits_trap_free) (use SetMilestones signed [of cid] in auto)
    with SetMilestones show ?thesis by simp
  next
    case (VerifyMilestone a cid mid)
    with assms(3) show ?thesis by (simp add: verify_milestone_trap_free [OF config])
  next
    case (ClaimMilestone cid mid)
    have "trap_free (claim_milestone e cid mid s)"
      by (rule claim_milestone_trap_free [OF config core assms(4)]) (use ClaimMilestone signed [of cid] in auto)
    with ClaimMilestone show ?thesis by simp
  next
    case (DepositRevenue cid x)
    have "trap_free (deposit_revenue e cid x s)"
      by (rule deposit_revenue_trap_free [OF config]) (use DepositRevenue signed [of cid] pays in auto)
    with DepositRevenue show ?thesis by simp
  next
    case (ClaimRevenue cid a)
    have "trap_free (claim_revenue e cid a s)"
      by (rule claim_revenue_trap_free [OF config core takings]) (use ClaimRevenue assms(3) pays in simp_all)
    with ClaimRevenue show ?thesis by simp
  next
    case (ClaimCreatorRevenue cid)
    have "trap_free (claim_creator_revenue e cid s)"
      by (rule claim_creator_revenue_trap_free [OF config core takings]) (use ClaimCreatorRevenue signed [of cid] pays in auto)
    with ClaimCreatorRevenue show ?thesis by simp
  qed (use assms(3) caps_trap_free in auto)
qed

lemma dispatch_trap_free:
  assumes "reachable h now s" "now \<le> e_timestamp e" "\<And>a. a \<in> signers k s \<Longrightarrow> e_auth e a"
    and "obliging e" "\<And>tok a. h_balance e tok a (st_world s) \<noteq> None" "roomy s"
  shows "trap_free (dispatch e k s)"
proof -
  note config = reachable_config [OF assms(1)]
  have core: "core_inv (e_timestamp e) (core s)" by (rule core_inv_later [OF reachable_core [OF assms(1)] assms(2)])
  have count: "get_campaign_count s + 1000 \<le> u32_max" using assms(6) by (simp add: roomy_def const_defs)
  show ?thesis
  proof (cases k)
    case (CampaignCall c)
    have "trap_free (run_campaign_call e c s)"
      by (rule campaign_calls_trap_free [OF assms(1, 2)]) (use assms(3) CampaignCall in simp)
    with CampaignCall show ?thesis by simp
  next
    case (FundCall c)
    have "trap_free (run_fund_call e c s)"
      by (rule fund_calls_trap_free [OF assms(1, 2) _ assms(4, 6)]) (use assms(3) FundCall in simp)
    with FundCall show ?thesis by simp
  next
    case (ReviewCall c)
    have "trap_free (run_review_call e c s)"
      by (rule review_calls_trap_free [OF config core count _ assms(5)]) (use assms(3) ReviewCall in simp)
    with ReviewCall show ?thesis by simp
  next
    case (ConfigCall c)
    have "trap_free (run_config_call e c s)"
      by (rule config_calls_trap_free [OF config]) (use assms(3) ConfigCall in simp)
    with ConfigCall show ?thesis by simp
  next
    case (AdminCall c)
    have "trap_free (run_admin_call e c s)"
      by (rule admin_calls_trap_free [OF config]) (use assms(3) AdminCall in simp)
    with AdminCall show ?thesis by simp
  qed
qed

section \<open>Properties\<close>

declare One_nat_def [simp del]

text \<open>
  C5: Calls do not trap. In every reachable state, any call of any entry point that is signed by those it
  needs (the acting address, the creator or pending creator of the campaign, the admin) either
  succeeds or fails with an error of the contract: it is never aborted by an \<open>unwrap\<close> of nothing or by
  arithmetic out of range. The tokens are assumed to answer balance queries and to carry out
  transfers of non-negative amounts, and the counters of campaigns and contributors to leave room for one
  scan window and one batch.
\<close>

theorem no_call_traps:
  assumes "reachable h now s" "now \<le> e_timestamp e" "\<And>a. a \<in> signers k s \<Longrightarrow> e_auth e a"
    and "obliging e" "\<And>tok a. h_balance e tok a (st_world s) \<noteq> None" "roomy s"
  shows "(\<exists>s'. dispatch e k s = Inr s') \<or> (\<exists>er. dispatch e k s = Err er)"
proof -
  have "dispatch e k s \<noteq> Trap" using dispatch_trap_free [OF assms] by (simp add: trap_free_def)
  then show ?thesis by (cases "dispatch e k s") (metis fail.exhaust, simp)
qed

text \<open>A contribution larger than the contributor's balance, on tokens that pay everything.\<close>

definition generous_env :: "u64 \<Rightarrow> balances env" where
  "generous_env t = (demo_env t)\<lparr>h_transfer := (\<lambda>tok frm to amt w. Some w)\<rparr>"

lemma roomy_verified: "roomy h_verified"
  by (simp add: roomy_def history_defs eval_simps)

theorem no_call_traps_witness:
  "(\<exists>s'. dispatch (generous_env 4000) (FundCall (Contribute 1 (Address 3) 2000000)) h_verified = Inr s') \<or>
   (\<exists>er. dispatch (generous_env 4000) (FundCall (Contribute 1 (Address 3) 2000000)) h_verified = Err er)"
  by (rule no_call_traps [OF reachable_history(2)])
    (simp_all add: generous_env_def obliging_def roomy_verified)

end
