(* ===== verification/Payable.thy ===== *)
theory Payable
  imports TrapsFunds
begin

text \<open>
  Solvency and traps together: when the tokens pay what the sender's balance covers, the contract's own
  payouts in an honest run go through, because its balance covers what it owes.
\<close>

section \<open>What the contract is asked to pay\<close>

definition pays_covered :: "('w, 'm) host_scheme \<Rightarrow> bool" where
  "pays_covered h \<longleftrightarrow> (\<forall>tok frm to amt w. 0 \<le> amt \<longrightarrow> amt \<le> balance_of h tok frm w \<longrightarrow>
     h_transfer h tok frm to amt w \<noteq> None)"

lemma truncate_pays:
  assumes "host.truncate (e :: 'w env) = h"
  shows "pays_covered h = pays_covered e"
proof -
  have tr: "h_transfer h = h_transfer e" using assms by (auto simp: host.defs)
  show ?thesis unfolding pays_covered_def tr truncate_host(2) [OF assms] ..
qed

text \<open>The single payments are parts of what the campaign's drawer is owed.\<close>

lemma owed_parts:
  assumes "reachable h now s"
  shows "get_campaign s cid = Some c \<Longrightarrow> \<not> c_funds_withdrawn c \<Longrightarrow> owed (till s) cid = c_effective_amount_raised c"
    "get_campaign_reserve s cid = Some r \<Longrightarrow> \<not> r_released r \<Longrightarrow> r_amount r \<le> owed (till s) cid"
    "get_revenue_pool s cid - get_creator_revenue_claimed s cid \<le> owed (till s) cid"
proof -
  have d: "drawers_ok (till s)" using drawers_invariant.reachable_all [OF assms] by blast
  note ok = drawers_okD [OF d, of cid]
  show "owed (till s) cid = c_effective_amount_raised c" if "get_campaign s cid = Some c" "\<not> c_funds_withdrawn c"
  proof -
    have raised: "l_raised (till s) cid = Some (False, c_effective_amount_raised c)"
      using that by (simp add: till_fields raised_view_def)
    then show ?thesis using ok(4) by (simp add: owed_def drawer_def)
  qed
  have raised: "0 \<le> (case l_raised (till s) cid of None \<Rightarrow> 0 | Some r \<Rightarrow> if fst r then 0 else snd r)"
    using books_ok_bounds(1) [OF books_of_reachable(1) [OF assms]]
    by (auto simp: till_fields raised_view_def split: option.split)
  show "r_amount r \<le> owed (till s) cid" if "get_campaign_reserve s cid = Some r" "\<not> r_released r"
  proof -
    have "l_reserve (till s) cid = Some r" using that(1) by (simp add: till_fields)
    then show ?thesis using ok(1, 2) raised that(2) by (simp add: owed_def drawer_def)
  qed
  have "0 \<le> (case l_reserve (till s) cid of None \<Rightarrow> 0 | Some r \<Rightarrow> if r_released r then 0 else r_amount r)"
    using ok(3) by (auto split: option.split)
  then show "get_revenue_pool s cid - get_creator_revenue_claimed s cid \<le> owed (till s) cid"
    using raised by (simp add: owed_def drawer_def till_fields)
qed

lemma payout_covered:
  assumes "honest_run h now s" "keeps_books h" "get_campaign_token s cid = Some tok" "get_campaign s cid \<noteq> None"
    and "host.truncate (e :: 'w env) = h" "pays_covered h" "0 \<le> amt" "amt \<le> owed (till s) cid"
  shows "h_transfer e tok (h_self e) to amt (st_world s) \<noteq> None"
    "0 \<le> amt' \<Longrightarrow> amt + amt' \<le> owed (till s) cid \<Longrightarrow>
     \<exists>w. h_transfer e tok (h_self e) to amt (st_world s) = Some w \<and> h_transfer e tok (h_self e) to' amt' w \<noteq> None"
proof -
  have pays: "pays_covered e" "keeps_books e"
    using assms(2, 6) truncate_pays [OF assms(5)] truncate_host(3) [OF assms(5)] by simp_all
  have bal: "owed (till s) cid \<le> balance_of e tok (h_self e) (st_world s)"
    using owed_covered [OF assms(1-4)] truncate_host(1, 2) [OF assms(5)] by metis
  show one: "h_transfer e tok (h_self e) to amt (st_world s) \<noteq> None"
    using pays(1) assms(7, 8) bal unfolding pays_covered_def by (meson order_trans)
  then obtain w where w: "h_transfer e tok (h_self e) to amt (st_world s) = Some w" by blast
  assume more: "0 \<le> amt'" "amt + amt' \<le> owed (till s) cid"
  have "amt' \<le> balance_of e tok (h_self e) w"
    using paid_out [OF pays(2) w assms(7), of tok] bal more(2) by simp
  then show "\<exists>w. h_transfer e tok (h_self e) to amt (st_world s) = Some w \<and> h_transfer e tok (h_self e) to' amt' w \<noteq> None"
    using w pays(1) more(1) unfolding pays_covered_def by blast
qed

section \<open>Honest calls\<close>

text \<open>The caller holds what the call takes from them; batches are left out.\<close>

definition funded_call :: "('w, 'm) env_scheme \<Rightarrow> call \<Rightarrow> 'w state \<Rightarrow> bool" where
  "funded_call e k s =
    (case k of
       FundCall f \<Rightarrow>
         (case f of
            Contribute cid a amt \<Rightarrow>
              (case get_campaign_token s cid of None \<Rightarrow> True | Some tok \<Rightarrow> amt \<le> balance_of e tok a (st_world s))
          | DepositRevenue cid amt \<Rightarrow>
              (case get_campaign s cid of None \<Rightarrow> True
               | Some c \<Rightarrow> (case get_campaign_token s cid of None \<Rightarrow> True
                          | Some tok \<Rightarrow> amt \<le> balance_of e tok (c_creator c) (st_world s)))
          | BatchContribute a items \<Rightarrow> False
          | _ \<Rightarrow> True)
     | _ \<Rightarrow> True)"

lemma honest_fund_call_trap_free:
  assumes run: "honest_run h now s" "keeps_books h" "pays_covered h"
    and env: "host.truncate (e :: 'w env) = h" "now \<le> e_timestamp e"
    and signed: "\<And>a. a \<in> fund_call_signers k s \<Longrightarrow> e_auth e a"
    and routine: "routine (FundCall k)" and funded: "funded_call e (FundCall k) s" and room: "roomy s"
  shows "trap_free (run_fund_call e k s)"
proof -
  note reach = honest_reachable [OF run(1)]
  note config = reachable_config [OF reach]
  have core: "core_inv (e_timestamp e) (core s)" by (rule core_inv_later [OF reachable_core [OF reach] env(2)])
  have vest: "vesting_ok s" and drawers: "drawers_ok (till s)" using drawers_invariant.reachable_all [OF reach] by blast+
  have takings: "takings_ok (purse s)" and calm: "calm s" using reachable_gauges [OF reach] by (simp_all add: gauges_ok_def)
  have one: "get_contributor_count s cid < u32_max" for cid
  proof -
    have "get_contributor_count s cid + MAX_BATCH_CONTRIBUTE_SIZE \<le> u32_max" using room by (simp add: roomy_def)
    then show ?thesis by (simp add: const_defs)
  qed
  have pays: "pays_covered e" using run(3) truncate_pays [OF env(1)] by simp
  note parts = owed_parts [OF reach]
  note payout = payout_covered [OF run(1, 2) _ _ env(1) run(3)]
  have sign: "e_auth e (c_creator c)" if "creator_of s cid \<subseteq> fund_call_signers k s" "get_campaign s cid = Some c" for cid c
    using signed creator_ofI [OF that(2)] that(1) by blast
  show ?thesis
  proof (cases k)
    case (Contribute cid a amt)
    have "trap_free (contribute e cid a amt s)"
      by (rule contribute_trap_free [OF config one calm])
        (use Contribute signed pays funded in \<open>auto simp: funded_call_def pays_covered_def\<close>)
    with Contribute show ?thesis by simp
  next
    case (ClaimRefund cid a)
    have "trap_free (claim_refund e cid a s)"
    proof (rule claim_refund_trap_free [OF config core])
      show "e_auth e a" using signed ClaimRefund by simp
      fix c tok
      assume c: "get_campaign s cid = Some c" "refundable (e_timestamp e) c" "0 < get_contribution s cid a"
        "get_campaign_token s cid = Some tok"
      have "\<not> c_funds_withdrawn c" using books_of_reachable(2) [OF reach c(1)] c(2) by (auto simp: flags_ok_def refundable_def)
      then have "get_contribution s cid a \<le> owed (till s) cid"
        using parts(1) [OF c(1)] books_ok_bounds(5) [OF books_of_reachable(1) [OF reach c(1)], of a] by simp
      then show "h_transfer e tok (h_self e) a (get_contribution s cid a) (st_world s) \<noteq> None"
        using c by (intro payout(1) [OF c(4)]) simp_all
    qed
    with ClaimRefund show ?thesis by simp
  next
    case (WithdrawFunds cid)
    have "trap_free (withdraw_funds e cid s)"
    proof (rule withdraw_funds_trap_free [OF config core vest])
      show "e_auth e (c_creator c)" if "get_campaign s cid = Some c" for c using sign [OF _ that] WithdrawFunds by simp
      show "\<exists>w. h_transfer e tok (h_self e) to fee (st_world s) = Some w \<and> h_transfer e tok (h_self e) (c_creator c) pay w \<noteq> None"
        if "get_campaign s cid = Some c" "\<not> c_funds_withdrawn c" "\<not> c_is_cancelled c" "get_campaign_token s cid = Some tok"
          "0 \<le> fee" "0 \<le> pay" "fee + pay \<le> c_effective_amount_raised c" for c tok to fee pay
        using that parts(1) [OF that(1, 2)] by (intro payout(2) [OF that(4)]) simp_all
    qed
    with WithdrawFunds show ?thesis by simp
  next
    case (WithdrawReserve cid)
    have "trap_free (withdraw_reserve e cid s)"
    proof (rule withdraw_reserve_trap_free [OF config drawers])
      show "e_auth e (c_creator c)" if "get_campaign s cid = Some c" for c using sign [OF _ that] WithdrawReserve by simp
      show "h_transfer e tok (h_self e) (c_creator c) (r_amount r) (st_world s) \<noteq> None"
        if "get_campaign s cid = Some c" "get_campaign_token s cid = Some tok" "get_campaign_reserve s cid = Some r"
          "\<not> r_released r" "0 \<le> r_amount r" for c tok r
        using that parts(2) [OF that(3, 4)] by (intro payout(1) [OF that(2)]) simp_all
    qed
    with WithdrawReserve show ?thesis by simp
  next
    case (DepositRevenue cid amt)
    have "trap_free (deposit_revenue e cid amt s)"
      by (rule deposit_revenue_trap_free [OF config])
        (use DepositRevenue sign [of cid] pays funded in \<open>auto simp: funded_call_def pays_covered_def\<close>)
    with DepositRevenue show ?thesis by simp
  next
    case (ClaimCreatorRevenue cid)
    have "trap_free (claim_creator_revenue e cid s)"
    proof (rule claim_creator_revenue_trap_free [OF config core takings])
      show "e_auth e (c_creator c)" if "get_campaign s cid = Some c" for c using sign [OF _ that] ClaimCreatorRevenue by simp
      fix c tok cs
      assume c: "get_campaign s cid = Some c" "get_campaign_token s cid = Some tok"
        "creator_share (get_revenue_pool s cid) (c_revenue_share_percentage c) = Inr cs"
        "get_creator_revenue_claimed s cid < cs"
      have "c_revenue_share_percentage c \<le> BPS_DENOMINATOR"
        using books_of_reachable(3) [OF reach c(1)] by (auto simp: terms_ok_def BPS_DENOMINATOR_def split: if_splits)
      then have "cs \<le> get_revenue_pool s cid" using creator_share_eq(3) [OF c(3)] takings_okD(1) [OF takings] by blast
      then show "h_transfer e tok (h_self e) (c_creator c) (cs - get_creator_revenue_claimed s cid) (st_world s) \<noteq> None"
        using c parts(3) [of cid] by (intro payout(1) [OF c(2)]) simp_all
    qed
    with ClaimCreatorRevenue show ?thesis by simp
  next
    case (SetMilestones cid ms)
    then show ?thesis using sign [of cid] by (auto intro!: edits_trap_free)
  next
    case (VerifyMilestone a cid mid)
    with signed show ?thesis by (simp add: verify_milestone_trap_free [OF config])
  qed (use routine funded signed caps_trap_free in \<open>auto simp: routine_def funded_call_def\<close>)
qed

lemma honest_call_trap_free:
  assumes run: "honest_run h now s" "keeps_books h" "pays_covered h"
    and env: "host.truncate (e :: 'w env) = h" "now \<le> e_timestamp e"
    and signed: "\<And>a. a \<in> signers k s \<Longrightarrow> e_auth e a"
    and routine: "routine k" and funded: "funded_call e k s"
    and balances: "\<And>tok a. h_balance e tok a (st_world s) \<noteq> None" and room: "roomy s"
  shows "trap_free (dispatch e k s)"
proof -
  note reach = honest_reachable [OF run(1)]
  note config = reachable_config [OF reach]
  have core: "core_inv (e_timestamp e) (core s)" by (rule core_inv_later [OF reachable_core [OF reach] env(2)])
  have count: "get_campaign_count s + 1000 \<le> u32_max" using room by (simp add: roomy_def const_defs)
  show ?thesis
  proof (cases k)
    case (CampaignCall c)
    have "trap_free (run_campaign_call e c s)"
      by (rule campaign_calls_trap_free [OF reach env(2)]) (use signed CampaignCall in simp)
    with CampaignCall show ?thesis by simp
  next
    case (FundCall c)
    have "trap_free (run_fund_call e c s)"
      by (rule honest_fund_call_trap_free [OF run env _ _ _ room]) (use signed routine funded FundCall in simp_all)
    with FundCall show ?thesis by simp
  next
    case (ReviewCall c)
    have "trap_free (run_review_call e c s)"
      by (rule review_calls_trap_free [OF config core count _ balances]) (use signed ReviewCall in simp)
    with ReviewCall show ?thesis by simp
  next
    case (ConfigCall c)
    have "trap_free (run_config_call e c s)"
      by (rule config_calls_trap_free [OF config]) (use signed ConfigCall in simp)
    with ConfigCall show ?thesis by simp
  next
    case (AdminCall c)
    have "trap_free (run_admin_call e c s)"
      by (rule admin_calls_trap_free [OF config]) (use signed AdminCall in simp)
    with AdminCall show ?thesis by simp
  qed
qed

section \<open>Properties\<close>

text \<open>
  C6: Payouts go through. In an honest run, with tokens that keep their books and pay whatever the
  sender's balance covers, every signed routine call (batches aside) succeeds or fails with an error of the
  contract. No assumption is made that the contract's own payments (refunds, withdrawals with their
  fee, released reserves, the creator's revenue) are paid: the contract holds the money for them. Only
  contributors and depositors have to hold what they pay in, balance queries have to be answered, and the
  counters have to leave room for one more call (\<open>roomy\<close>).
\<close>

theorem payouts_go_through:
  assumes "honest_run h now s" "keeps_books h" "pays_covered h"
    and "host.truncate (e :: 'w env) = h" "now \<le> e_timestamp e" "\<And>a. a \<in> signers k s \<Longrightarrow> e_auth e a"
    and "routine k" "funded_call e k s" "\<And>tok a. h_balance e tok a (st_world s) \<noteq> None" "roomy s"
  shows "(\<exists>s'. dispatch e k s = Inr s') \<or> (\<exists>er. dispatch e k s = Err er)"
proof -
  have "dispatch e k s \<noteq> Trap" using honest_call_trap_free [OF assms] by (simp add: trap_free_def)
  then show ?thesis by (cases "dispatch e k s") (metis fail.exhaust, simp)
qed

text \<open>The withdrawal of the history: its campaign has met its goal.\<close>

lemma demo_pays_covered: "pays_covered demo_host"
  by (simp add: pays_covered_def balance_of_def demo_host_def demo_transfer_def Let_def)

lemma roomy_funded: "roomy h_funded"
  by (simp add: roomy_def history_defs eval_simps)

theorem payouts_go_through_witness:
  "(\<exists>s'. dispatch (demo_env 6000) (FundCall (WithdrawFunds 1)) h_funded = Inr s') \<or>
   (\<exists>er. dispatch (demo_env 6000) (FundCall (WithdrawFunds 1)) h_funded = Err er)"
  by (rule payouts_go_through [OF honest_history(2) demo_keeps_books demo_pays_covered])
    (simp_all add: funded_facts creator_of_def h_campaign_def demo_campaign_def routine_def funded_call_def roomy_funded)

end
