(* ===== verification/Fuzz.thy ===== *)
theory Fuzz
  imports Payable
begin

text \<open>
  The fuzz targets under \<^verbatim>\<open>fuzz/fuzz_targets\<close>: each drives a fresh contract through a
  sequence of calls made from an arbitrary input, and states as its property that every call returns or fails
  with a typed error. A target is a function from its input to the calls it tries, each with the
  state it is tried in; the property is proved for all inputs. The generated addresses, the token's
  \<open>mint\<close> and the test environment are parameters.
\<close>

section \<open>The harness\<close>

text \<open>The state of a run, and the log of the calls tried so far with the states they were tried in.\<close>

type_synonym 'w run = "'w state \<times> (call \<times> 'w state) list"

text \<open>\<open>let _ = client.try_\<dots>\<close>: the outcome is dropped.\<close>

definition attempt :: "'w env \<Rightarrow> call \<Rightarrow> 'w run \<Rightarrow> 'w run" where
  "attempt e k r = (invoke e k (fst r), snd r @ [(k, fst r)])"

text \<open>\<open>if client.try_\<dots>.is_err() { return; }\<close>\<close>

definition gate :: "'w env \<Rightarrow> call \<Rightarrow> ('w run \<Rightarrow> 'w run) \<Rightarrow> 'w run \<Rightarrow> 'w run" where
  "gate e k rest r = (if is_ok (dispatch e k (fst r)) then rest (attempt e k r) else attempt e k r)"

text \<open>\<open>let campaign_id = match client.try_create_campaign(&params) { Ok(Ok(id)) => id, _ => return }\<close>\<close>

definition gate_create ::
  "'w env \<Rightarrow> create_campaign_params \<Rightarrow> (u32 \<Rightarrow> 'w run \<Rightarrow> 'w run) \<Rightarrow> 'w run \<Rightarrow> 'w run" where
  "gate_create e p rest r =
    (let r' = attempt e (CampaignCall (CreateCampaign p)) r in
     case create_campaign_entry e p (fst r) of
       Inr (cid, _) \<Rightarrow> rest cid r'
     | Inl _ \<Rightarrow> r')"

text \<open>\<open>token_admin.mint(&to, &amount)\<close>\<close>

definition minted :: "(address \<Rightarrow> i128 \<Rightarrow> 'w \<Rightarrow> 'w) \<Rightarrow> address \<Rightarrow> i128 \<Rightarrow> 'w run \<Rightarrow> 'w run" where
  "minted mint a amt r = ((fst r)\<lparr>st_world := mint a amt (st_world (fst r))\<rparr>, snd r)"

definition fuzz_params ::
  "address \<Rightarrow> string \<Rightarrow> i128 \<Rightarrow> u64 \<Rightarrow> category \<Rightarrow> bool \<Rightarrow> u32 \<Rightarrow> create_campaign_params" where
  "fuzz_params creator d goal days cat sharing share =
    \<lparr>p_creator = creator, p_title = ''Fuzz'', p_description = d, p_funding_goal = goal,
     p_duration_days = days, p_category = cat, p_has_revenue_sharing = sharing,
     p_revenue_share_percentage = share, p_max_contribution_per_user = 0\<rparr>"

section \<open>The targets\<close>

unbundle bit_operations_syntax

text \<open>\<^verbatim>\<open>fuzz_contribute.rs\<close>: one or two contributions of an arbitrary 128-bit amount.\<close>

record contribute_input =
  fc_amount_hi :: int
  fc_amount_lo :: nat
  fc_funding_goal_raw :: u32
  fc_duration_days_raw :: nat
  fc_mint_amount :: u32
  fc_platform_fee_raw :: nat
  fc_skip_verify :: bool
  fc_contribute_twice :: bool

definition wide_amount :: "int \<Rightarrow> nat \<Rightarrow> i128" where
  "wide_amount hi lo = push_bit 64 hi OR int lo"

definition fuzz_contribute ::
  "'w env \<Rightarrow> (address \<Rightarrow> i128 \<Rightarrow> 'w \<Rightarrow> 'w) \<Rightarrow> address \<Rightarrow> address \<Rightarrow> address \<Rightarrow> address \<Rightarrow> 'w \<Rightarrow> contribute_input \<Rightarrow> 'w run" where
  "fuzz_contribute e mint tok admin creator contributor w input =
    gate e (ConfigCall (Init admin tok (fc_platform_fee_raw input mod 1001))) (\<lambda>r1.
      let r2 = minted mint contributor (int (fc_mint_amount input) + 1) r1;
          params = fuzz_params creator ''Fuzz target campaign'' (int (fc_funding_goal_raw input) + 1)
                     (min (fc_duration_days_raw input + 1) 365) Learner False 0 in
      gate_create e params (\<lambda>cid r3.
        let r4 = (if \<not> fc_skip_verify input then attempt e (ReviewCall (VerifyCampaign cid)) r3 else r3);
            amt = wide_amount (fc_amount_hi input) (fc_amount_lo input);
            r5 = attempt e (FundCall (Contribute cid contributor amt)) r4 in
        if fc_contribute_twice input then attempt e (FundCall (Contribute cid contributor amt)) r5 else r5) r2)
      (empty_state w, [])"

text \<open>\<^verbatim>\<open>fuzz_lifecycle.rs\<close>: up to thirty lifecycle calls in any order.\<close>

record lifecycle_input =
  fl_funding_goal_raw :: u32
  fl_duration_days_raw :: nat
  fl_mint_amount :: u32
  fl_contribute_amount_raw :: u32
  fl_ops :: "nat list"

definition lifecycle_call :: "u32 \<Rightarrow> address \<Rightarrow> i128 \<Rightarrow> nat \<Rightarrow> call" where
  "lifecycle_call cid contributor amt op =
    (let m = op mod 5 in
     if m = 0 then FundCall (Contribute cid contributor amt)
     else if m = 1 then ReviewCall (VerifyCampaign cid)
     else if m = 2 then ReviewCall (VerifyCampaignWithVotes cid)
     else if m = 3 then CampaignCall (CancelCampaign cid)
     else FundCall (WithdrawFunds cid))"

definition fuzz_lifecycle ::
  "'w env \<Rightarrow> (address \<Rightarrow> i128 \<Rightarrow> 'w \<Rightarrow> 'w) \<Rightarrow> address \<Rightarrow> address \<Rightarrow> address \<Rightarrow> address \<Rightarrow> 'w \<Rightarrow> lifecycle_input \<Rightarrow> 'w run" where
  "fuzz_lifecycle e mint tok admin creator contributor w input =
    gate e (ConfigCall (Init admin tok 0)) (\<lambda>r1.
      let r2 = minted mint contributor (int (fl_mint_amount input) + 1) r1;
          params = fuzz_params creator ''Fuzz lifecycle target''
                     ((int (fl_funding_goal_raw input) + 1) * 1000 + 100000)
                     (min (fl_duration_days_raw input + 1) 365) Learner False 0;
          amt = int (fl_contribute_amount_raw input) + 1 in
      gate_create e params (\<lambda>cid r3.
        fold (\<lambda>op. attempt e (lifecycle_call cid contributor amt op)) (take 30 (fl_ops input)) r3) r2)
      (empty_state w, [])"

text \<open>\<^verbatim>\<open>fuzz_voting.rs\<close>: arbitrary quorum and threshold, up to twenty-five votes, both verifications.\<close>

record voting_input =
  fv_min_votes_quorum :: u32
  fv_approval_threshold_bps :: u32
  fv_min_voting_balance_raw :: u32
  fv_voter_balance_raw :: u32
  fv_votes :: "bool list"
  fv_revote_last_voter :: bool
  fv_verify_with_votes_first :: bool

text \<open>The loop over the votes; \<open>voter i\<close> is the address generated for the \<open>i\<close>-th.\<close>

primrec cast_votes ::
  "'w env \<Rightarrow> (address \<Rightarrow> i128 \<Rightarrow> 'w \<Rightarrow> 'w) \<Rightarrow> (nat \<Rightarrow> address) \<Rightarrow> i128 \<Rightarrow> u32 \<Rightarrow> bool list \<Rightarrow> nat
   \<Rightarrow> address option \<Rightarrow> 'w run \<Rightarrow> address option \<times> 'w run" where
  "cast_votes e mint voter bal cid [] i last_voter r = (last_voter, r)"
| "cast_votes e mint voter bal cid (approve # votes) i last_voter r =
    (let r1 = minted mint (voter i) bal r;
         r2 = attempt e (ReviewCall (VoteOnCampaign cid (voter i) approve)) r1 in
     cast_votes e mint voter bal cid votes (i + 1) (Some (voter i)) r2)"

definition fuzz_voting ::
  "'w env \<Rightarrow> (address \<Rightarrow> i128 \<Rightarrow> 'w \<Rightarrow> 'w) \<Rightarrow> address \<Rightarrow> address \<Rightarrow> address \<Rightarrow> (nat \<Rightarrow> address) \<Rightarrow> 'w \<Rightarrow> voting_input \<Rightarrow> 'w run" where
  "fuzz_voting e mint tok admin creator voter w input =
    gate e (ConfigCall (Init admin tok 0)) (\<lambda>r1.
      let r2 = attempt e (ConfigCall (SetVotingParams admin (fv_min_votes_quorum input) (fv_approval_threshold_bps input))) r1;
          r3 = attempt e (ConfigCall (SetMinVotingBalance admin (int (fv_min_voting_balance_raw input) mod 1000000))) r2;
          params = fuzz_params creator ''Fuzz voting target'' 100000 30 Learner False 0 in
      gate_create e params (\<lambda>cid r4.
        let r5 = (if fv_verify_with_votes_first input
                  then attempt e (ReviewCall (VerifyCampaignWithVotes cid)) r4 else r4);
            (last_voter, r6) = cast_votes e mint voter (int (fv_voter_balance_raw input) + 1) cid
                                 (take 25 (fv_votes input)) 0 None r5;
            r7 = (if fv_revote_last_voter input
                  then (case last_voter of None \<Rightarrow> r6
                        | Some a \<Rightarrow> attempt e (ReviewCall (VoteOnCampaign cid a True)) r6)
                  else r6);
            r8 = attempt e (ReviewCall (VerifyCampaignWithVotes cid)) r7 in
        attempt e (ReviewCall (VerifyCampaign cid)) r8) r3)
      (empty_state w, [])"

section \<open>What the runs keep\<close>

text \<open>
  Documented behaviour of the test environment: \<open>mock_all_auths\<close> signs for every generated
  address; a Stellar asset contract answers every query, keeps its books, pays what a balance covers,
  and \<open>mint\<close> adds to one balance.
\<close>

definition fuzz_host :: "'w env \<Rightarrow> (address \<Rightarrow> i128 \<Rightarrow> 'w \<Rightarrow> 'w) \<Rightarrow> address \<Rightarrow> bool" where
  "fuzz_host e mint tok \<longleftrightarrow>
     (\<forall>a. e_auth e a \<longleftrightarrow> a \<noteq> h_self e) \<and>
     (\<forall>t a w. h_balance e t a w \<noteq> None) \<and>
     keeps_books e \<and> pays_covered e \<and>
     (\<forall>a amt w t b. 0 \<le> amt \<longrightarrow>
        balance_of e t b (mint a amt w) = balance_of e t b w + (if t = tok \<and> b = a then amt else 0))"

text \<open>The calls the targets try after the campaign is created.\<close>

fun drill :: "call \<Rightarrow> bool" where
  "drill (CampaignCall k) = (case k of CancelCampaign cid \<Rightarrow> True | _ \<Rightarrow> False)"
| "drill (FundCall k) =
    (case k of BatchContribute a items \<Rightarrow> False | ClaimRevenue cid a \<Rightarrow> False | ClaimMilestone cid mid \<Rightarrow> False | _ \<Rightarrow> True)"
| "drill (ReviewCall k) = (case k of VerifyCampaigns cids \<Rightarrow> False | _ \<Rightarrow> True)"
| "drill (ConfigCall k) = (case k of SetVotingParams a q t \<Rightarrow> True | SetMinVotingBalance a b \<Rightarrow> True | _ \<Rightarrow> False)"
| "drill (AdminCall k) = False"

lemma drill_routine: "drill k \<Longrightarrow> routine k"
  by (cases k) (auto simp: routine_def split: fund_call.splits)

lemma drill_kinds:
  assumes "drill k"
  shows "k \<noteq> FundCall (BatchContribute a items)" "k \<noteq> ReviewCall (VerifyCampaigns cids)"
    "k \<noteq> CampaignCall (AcceptCampaignTransfer cid)" "k \<noteq> CampaignCall (CreateCampaign p)"
    "k \<noteq> CampaignCall (CreateCampaignWithToken p t)"
  using assms by auto

text \<open>Such a call keeps the admin, the number of campaigns and their creators; one contributor may be new.\<close>

lemma drill_keeps:
  assumes run: "dispatch e k s = Inr s'" "drill k" and ok: "config_ok (config s)" "core_inv (e_timestamp e) (core s)"
  shows "get_admin s' = get_admin s" "get_campaign_count s' = get_campaign_count s"
    "owners (core s') = owners (core s)" "get_contributor_count s' cid \<le> get_contributor_count s cid + 1"
proof -
  have step: "core s' = core s \<or> core_step (e_timestamp e) (core s) (core s')"
    by (rule dispatch_one_step [OF run(1) ok(1)]) (use run(2) in auto)
  have inv: "core_inv (e_timestamp e) (core s')" using step ok(2) core_step_inv by metis
  show count: "get_campaign_count s' = get_campaign_count s"
    by (rule other_call_desk(2) [OF run(1) ok(1)]) (use run(2) in auto)
  have "keeps_owners (core s) (core s')"
    using step core_step_keeps_owners [OF _ ok(2)] by (auto simp: keeps_owners_def)
  then show "owners (core s') = owners (core s)"
    by (rule same_owners [OF _ ok(2) inv]) (simp add: core_fields count)
  have "k_backers k' cid \<le> k_backers k cid + 1" if "core_step now k k'" for now k k'
    using that by cases (auto simp: move_defs)
  with step have "k_backers (core s') cid \<le> k_backers (core s) cid + 1" by auto
  then show "get_contributor_count s' cid \<le> get_contributor_count s cid + 1" by (simp add: core_fields)
  show "get_admin s' = get_admin s"
  proof (cases k)
    case (CampaignCall c)
    with run have "run_campaign_call e c s = Inr s'" "\<And>p. c \<noteq> CreateCampaign p" "\<And>p t. c \<noteq> CreateCampaignWithToken p t" by auto
    then have "config s' = config s" by (rule config_calls.campaign_call_obs)
    then show ?thesis by (simp add: config_fields [symmetric])
  next
    case (FundCall c)
    with run have "config s' = config s" by (auto intro: config_calls.fund_call_obs)
    then show ?thesis by (simp add: config_fields [symmetric])
  next
    case (ReviewCall c)
    with run have "config s' = config s" by (auto intro: config_calls.review_call_obs)
    then show ?thesis by (simp add: config_fields [symmetric])
  next
    case (ConfigCall c)
    with run show ?thesis
      by (auto simp: set_voting_params_def set_params_def set_min_voting_balance_fn_def Let_def res_simps store_defs
          split: config_call.splits if_splits)
  qed (use run in simp)
qed

definition on_stage :: "'w env \<Rightarrow> address \<Rightarrow> address \<Rightarrow> nat \<Rightarrow> 'w run \<Rightarrow> bool" where
  "on_stage e admin creator n r \<longleftrightarrow>
     honest_run (host.truncate e) (e_timestamp e) (fst r) \<and> get_campaign_count (fst r) \<le> 1 \<and>
     (\<forall>cid. get_contributor_count (fst r) cid \<le> n) \<and> get_admin (fst r) = Some admin \<and>
     (\<forall>cid a. owners (core (fst r)) cid = Some a \<longrightarrow> a = creator) \<and>
     (\<forall>(k, s) \<in> set (snd r). funded_call e k s \<longrightarrow> dispatch e k s \<noteq> Trap)"

lemma on_stageD:
  assumes "on_stage e admin creator n r"
  shows "honest_run (host.truncate e) (e_timestamp e) (fst r)" "get_campaign_count (fst r) \<le> 1"
    "get_contributor_count (fst r) cid \<le> n" "get_admin (fst r) = Some admin"
    "get_campaign (fst r) cid = Some c \<Longrightarrow> c_creator c = creator"
    "(k, s) \<in> set (snd r) \<Longrightarrow> funded_call e k s \<Longrightarrow> dispatch e k s \<noteq> Trap"
  using assms unfolding on_stage_def by (auto simp: owners_def core_fields)

lemma on_stage_attempt:
  assumes host: "fuzz_host e mint tok" and stage: "on_stage e admin creator n r" "n \<le> 1000"
    and call: "drill k" "h_self e \<notin> signers k (fst r)"
  shows "on_stage e admin creator (n + 1) (attempt e k r)"
proof -
  note run = on_stageD(1) [OF stage(1)]
  note reach = honest_reachable [OF run]
  have env: "\<And>a. e_auth e a \<longleftrightarrow> a \<noteq> h_self e" "\<And>t a w. h_balance e t a w \<noteq> None"
    "keeps_books (host.truncate e)" "pays_covered (host.truncate e)"
    using host truncate_host(3) [of e] truncate_pays [of e] by (auto simp: fuzz_host_def)
  have self: "h_self (host.truncate e) = h_self e" by (rule truncate_host(1) [OF refl])
  have "get_contributor_count (fst r) cid + MAX_BATCH_CONTRIBUTE_SIZE \<le> u32_max" for cid
    using on_stageD(3) [OF stage(1), of cid] stage(2) by (simp add: const_defs u32_max_def)
  then have room: "roomy (fst r)"
    using on_stageD(2) [OF stage(1)] by (simp add: roomy_def const_defs u32_max_def)
  have typed: "trap_free (dispatch e k (fst r))" if "funded_call e k (fst r)"
    by (rule honest_call_trap_free [OF run env(3, 4) refl order_refl _ drill_routine [OF call(1)] that env(2) room])
      (use env(1) call(2) in auto)
  have next_run: "honest_run (host.truncate e) (e_timestamp e) (invoke e k (fst r))"
    by (rule routine_call [OF run order_refl refl drill_routine [OF call(1)]]) (simp add: self env(1))
  have keeps: "get_admin (invoke e k (fst r)) = Some admin \<and> get_campaign_count (invoke e k (fst r)) \<le> 1 \<and>
      (\<forall>cid. get_contributor_count (invoke e k (fst r)) cid \<le> n + 1) \<and>
      owners (core (invoke e k (fst r))) = owners (core (fst r))"
  proof (cases "dispatch e k (fst r)")
    case (Inl f)
    have "get_contributor_count (fst r) cid \<le> n + 1" for cid
      using on_stageD(3) [OF stage(1), of cid] by simp
    with Inl on_stageD(2, 4) [OF stage(1)] show ?thesis by (simp add: invoke_def)
  next
    case (Inr s')
    note same = drill_keeps [OF Inr call(1) reachable_config [OF reach] reachable_core [OF reach]]
    have "get_contributor_count s' cid \<le> n + 1" for cid
      using same(4) [of cid] on_stageD(3) [OF stage(1), of cid] by simp
    with Inr same(1-3) on_stageD(2, 4) [OF stage(1)] show ?thesis by (simp add: invoke_def)
  qed
  have log: "\<forall>(k', s) \<in> set (snd r). funded_call e k' s \<longrightarrow> dispatch e k' s \<noteq> Trap"
    and own: "\<forall>cid a. owners (core (fst r)) cid = Some a \<longrightarrow> a = creator"
    using stage(1) by (simp_all add: on_stage_def)
  show ?thesis
    unfolding on_stage_def attempt_def fst_conv snd_conv
    using next_run keeps log own typed by (simp add: trap_free_def)
qed

section \<open>The opening of a target\<close>

text \<open>The property under test, over the calls tried in a run.\<close>

definition never_aborts :: "'w env \<Rightarrow> 'w run \<Rightarrow> bool" where
  "never_aborts e r \<longleftrightarrow> (\<forall>(k, s) \<in> set (snd r). funded_call e k s \<longrightarrow> dispatch e k s \<noteq> Trap)"

lemma on_stage_never_aborts: "on_stage e admin creator n r \<Longrightarrow> never_aborts e r"
  by (simp add: on_stage_def never_aborts_def)

lemma on_stage_later: "on_stage e admin creator n r \<Longrightarrow> n \<le> m \<Longrightarrow> on_stage e admin creator m r"
  unfolding on_stage_def by (auto intro: order_trans)

lemma on_stage_minted:
  assumes "fuzz_host e mint tok" "on_stage e admin creator n r" "0 \<le> amt"
  shows "on_stage e admin creator n (minted mint a amt r)"
    "get_campaign_count (fst (minted mint a amt r)) = get_campaign_count (fst r)"
proof -
  have bal: "balance_of (host.truncate e) = balance_of e" by (rule truncate_host(2) [OF refl])
  have "\<forall>t. balance_of (host.truncate e) t (h_self (host.truncate e)) (st_world (fst r)) \<le>
      balance_of (host.truncate e) t (h_self (host.truncate e)) (mint a amt (st_world (fst r)))"
    using assms(1, 3) unfolding bal by (auto simp: fuzz_host_def)
  then have run: "honest_run (host.truncate e) (e_timestamp e) ((fst r)\<lparr>st_world := mint a amt (st_world (fst r))\<rparr>)"
    by (rule tokens_in [OF on_stageD(1) [OF assms(2)]])
  show "on_stage e admin creator n (minted mint a amt r)"
    "get_campaign_count (fst (minted mint a amt r)) = get_campaign_count (fst r)"
    using assms(2) run unfolding on_stage_def minted_def fst_conv snd_conv
    by (simp_all add: core_frame core_reads store_defs)
qed

lemma open_target:
  assumes host: "fuzz_host e mint tok" and admin: "admin \<noteq> h_self e"
    and empty: "\<forall>t. 0 \<le> balance_of e t (h_self e) w"
    and rest: "\<And>r. on_stage e admin creator 1 r \<Longrightarrow> get_campaign_count (fst r) = 0 \<Longrightarrow> never_aborts e (rest r)"
  shows "never_aborts e (gate e (ConfigCall (Init admin tok fee)) rest (empty_state w, []))"
proof -
  let ?r = "attempt e (ConfigCall (Init admin tok fee)) (empty_state w, [])"
  have "e_auth e admin" using host admin by (simp add: fuzz_host_def)
  then have typed: "dispatch e (ConfigCall (Init admin tok fee)) (empty_state w) \<noteq> Trap"
    by (simp add: init_def probe_token_def Let_def trap_free_def [symmetric] trap_intros)
  show ?thesis
  proof (cases "init e admin tok fee (empty_state w)")
    case (Inl f)
    with typed show ?thesis by (simp add: gate_def attempt_def never_aborts_def)
  next
    case (Inr s1)
    have self: "h_self (host.truncate e) = h_self e" "balance_of (host.truncate e) = balance_of e"
      by (rule truncate_host(1) [OF refl], rule truncate_host(2) [OF refl])
    have run: "honest_run (host.truncate e) (e_timestamp e) s1"
      by (rule opened_run [OF Inr refl]) (use empty in \<open>simp add: self\<close>)
    have core: "core s1 = (core (empty_state w))\<lparr>k_count := 0\<rparr>" by (rule init_ok(3) [OF Inr])
    have "g_admin (config s1) = Some admin"
      using Inr
      apply (simp only: init_def Let_def res_simps Inr_inject)
      apply clarify
      apply (simp add: config_empty config_frame)
      done
    then have "get_admin s1 = Some admin" by (simp add: config_fields)
    moreover have blank: "k_backers (core (empty_state w)) cid = 0" "k_camp (core (empty_state w)) cid = None" for cid
      by (simp_all add: core_def empty_state_def store_defs)
    have "get_campaign_count s1 = 0" "get_contributor_count s1 cid = 0" "owners (core s1) cid = None" for cid
      using blank [of cid] by (simp_all add: core_reads owners_def core)
    ultimately have "on_stage e admin creator 1 ?r" "get_campaign_count (fst ?r) = 0"
      using run typed Inr by (simp_all add: on_stage_def attempt_def invoke_def)
    from rest [OF this] Inr show ?thesis by (simp add: gate_def)
  qed
qed

lemma create_on_stage:
  assumes host: "fuzz_host e mint tok" and stage: "on_stage e admin creator n r" "n \<le> 1000"
    and new: "get_campaign_count (fst r) = 0" "p_creator p = creator" "creator \<noteq> h_self e"
    and rest: "\<And>cid r'. on_stage e admin creator (n + 1) r' \<Longrightarrow> never_aborts e (rest cid r')"
  shows "never_aborts e (gate_create e p rest r)"
proof -
  let ?k = "CampaignCall (CreateCampaign p)"
  note run = on_stageD(1) [OF stage(1)]
  note reach = honest_reachable [OF run]
  have auth: "e_auth e a \<longleftrightarrow> a \<noteq> h_self e" for a using host by (simp add: fuzz_host_def)
  have self: "h_self (host.truncate e) = h_self e" by (rule truncate_host(1) [OF refl])
  have "trap_free (dispatch e ?k (fst r))"
    unfolding dispatch.simps
    by (rule campaign_calls_trap_free [OF reach order_refl]) (use new(2, 3) auth in auto)
  then have typed: "dispatch e ?k (fst r) \<noteq> Trap" unfolding trap_free_def .
  have log: "never_aborts e (attempt e ?k r)"
    using on_stage_never_aborts [OF stage(1)] typed by (auto simp: never_aborts_def attempt_def)
  show ?thesis
  proof (cases "create_campaign_entry e p (fst r)")
    case (Inl f)
    with log show ?thesis by (simp add: gate_create_def)
  next
    case (Inr res)
    obtain cid s1 where res: "res = (cid, s1)" by (cases res)
    with Inr have ok: "create_campaign_entry e p (fst r) = Inr (cid, s1)" by simp
    then have disp: "dispatch e ?k (fst r) = Inr s1" by (simp add: res_simps)
    have caps: "\<forall>d. get_category_duration_cap (fst r) (p_category p) = Some d \<longrightarrow> d \<le> 365"
      using config_okD(6) [OF reachable_config [OF reach]] by blast
    from ok obtain s0 where inner: "create_campaign_inner e p None (fst r) = Inr (cid, s0)"
      and s1: "s1 = set_active_campaign_count (get_active_campaign_count s0 + 1) s0"
      by (auto simp: create_campaign_entry_def create_campaign_def res_simps)
    obtain share where n: "cid = get_campaign_count (fst r) + 1" and core0: "core s0 = (core (fst r))\<lparr>k_count := cid,
       k_camp := (get_campaign (fst r))(cid \<mapsto>
         new_campaign p cid share (e_timestamp e + p_duration_days p * SECONDS_PER_DAY)),
       k_start := (get_campaign_start_time (fst r))(cid \<mapsto> e_timestamp e)\<rparr>"
      by (rule create_campaign_inner_core [OF inner caps])
    have core1: "core s1 = (core s0)\<lparr>k_active := get_active_campaign_count s0 + 1\<rparr>" unfolding s1 by (simp add: core_frame)
    have facts: "get_campaign_count s1 \<le> 1" "get_contributor_count s1 = get_contributor_count (fst r)"
      "owners (core s1) = (owners (core (fst r)))(cid \<mapsto> creator)"
      using new(1, 2) n by (simp_all add: core_reads owners_def core1 core0 new_campaign_def fun_eq_iff)
    have "config s1 = config (fst r)" by (rule create_entry_config(1) [OF ok])
    then have admin: "get_admin s1 = Some admin"
      using on_stageD(4) [OF stage(1)] by (simp add: config_fields [symmetric])
    have run1: "honest_run (host.truncate e) (e_timestamp e) (invoke e ?k (fst r))"
      by (rule routine_call [OF run order_refl refl]) (simp_all add: routine_def self auth)
    have "get_contributor_count (fst r) i \<le> n + 1" for i using on_stageD(3) [OF stage(1), of i] by simp
    then have "on_stage e admin creator (n + 1) (attempt e ?k r)"
      using stage(1) run1 disp typed facts admin
      unfolding on_stage_def attempt_def fst_conv snd_conv by (simp add: invoke_def)
    from rest [OF this] Inr res show ?thesis by (simp add: gate_create_def Let_def)
  qed
qed

text \<open>Whoever signs is one of the generated addresses.\<close>

lemma stage_signers:
  assumes "on_stage e admin creator n r"
  shows "creator_of (fst r) cid \<subseteq> {creator}" "set_option (get_admin (fst r)) = {admin}"
  using on_stageD(4, 5) [OF assms] by (auto simp: creator_of_def)

lemma attempt_count:
  assumes "on_stage e admin creator n r" "drill k"
  shows "get_campaign_count (fst (attempt e k r)) = get_campaign_count (fst r)"
proof (cases "dispatch e k (fst r)")
  case (Inr s')
  note reach = honest_reachable [OF on_stageD(1) [OF assms(1)]]
  from drill_keeps(2) [OF Inr assms(2) reachable_config [OF reach] reachable_core [OF reach]] Inr
  show ?thesis by (simp add: attempt_def invoke_def)
qed (simp add: attempt_def invoke_def)

lemma lifecycle_on_stage:
  assumes "fuzz_host e mint tok" "admin \<noteq> h_self e" "creator \<noteq> h_self e" "contributor \<noteq> h_self e"
    and "on_stage e admin creator n r" "n + length ops \<le> 1000"
  shows "on_stage e admin creator (n + length ops) (fold (\<lambda>op. attempt e (lifecycle_call cid contributor amt op)) ops r)"
  using assms(5, 6)
proof (induction ops arbitrary: n r)
  case (Cons op ops)
  note signers = stage_signers [OF Cons.prems(1)]
  let ?r = "attempt e (lifecycle_call cid contributor amt op) r"
  have "on_stage e admin creator (n + 1) ?r"
  proof (rule on_stage_attempt [OF assms(1) Cons.prems(1)])
    show "n \<le> 1000" using Cons.prems(2) by simp
    show "drill (lifecycle_call cid contributor amt op)" by (simp add: lifecycle_call_def Let_def)
    show "h_self e \<notin> signers (lifecycle_call cid contributor amt op) (fst r)"
      using signers(1) [of cid] signers(2) assms(2-4) by (auto simp: lifecycle_call_def Let_def)
  qed
  moreover have "n + 1 + length ops \<le> 1000" using Cons.prems(2) by simp
  ultimately have "on_stage e admin creator (n + 1 + length ops)
      (fold (\<lambda>op. attempt e (lifecycle_call cid contributor amt op)) ops ?r)" by (rule Cons.IH)
  moreover have "n + length (op # ops) = n + 1 + length ops" by simp
  ultimately show ?case by (simp only: fold_simps)
qed simp

lemma votes_on_stage:
  assumes "fuzz_host e mint tok" "\<And>i. voter i \<noteq> h_self e" "0 \<le> bal"
    and "on_stage e admin creator n r" "n + length votes \<le> 1000"
  shows "on_stage e admin creator (n + length votes) (snd (cast_votes e mint voter bal cid votes i last_voter r)) \<and>
    (\<forall>a. fst (cast_votes e mint voter bal cid votes i last_voter r) = Some a \<longrightarrow> last_voter \<noteq> Some (h_self e) \<longrightarrow> a \<noteq> h_self e)"
  using assms(4, 5)
proof (induction votes arbitrary: n r i last_voter)
  case (Cons approve votes)
  let ?r1 = "minted mint (voter i) bal r"
  let ?r2 = "attempt e (ReviewCall (VoteOnCampaign cid (voter i) approve)) ?r1"
  note stage1 = on_stage_minted(1) [OF assms(1) Cons.prems(1) assms(3)]
  have stage2: "on_stage e admin creator (n + 1) ?r2"
    by (rule on_stage_attempt [OF assms(1) stage1]) (use Cons.prems(2) assms(2) [of i] in auto)
  have small: "n + 1 + length votes \<le> 1000" using Cons.prems(2) by simp
  have "n + length (approve # votes) = n + 1 + length votes" by simp
  then show ?case
    using Cons.IH [OF stage2 small, of "i + 1" "Some (voter i)"] assms(2) [of i]
    by (simp only: cast_votes.simps Let_def) auto
qed auto

section \<open>Properties\<close>

text \<open>
  C30: The property of \<^verbatim>\<open>fuzz_contribute\<close>, as far as it holds: whatever the input, the verification and
  every contribution the contributor's balance covers return or fail with a typed error, for all 128-bit amounts,
  fees, goals and durations. (The comment of the target claims it of every amount.)
\<close>

theorem fuzz_contribute_property:
  assumes "fuzz_host e mint tok" "admin \<noteq> h_self e" "creator \<noteq> h_self e" "contributor \<noteq> h_self e"
    and "\<forall>t. 0 \<le> balance_of e t (h_self e) w"
  shows "never_aborts e (fuzz_contribute e mint tok admin creator contributor w input)"
  unfolding fuzz_contribute_def
proof (rule open_target [OF assms(1, 2, 5)], unfold Let_def, rule create_on_stage [OF assms(1)])
  fix r
  assume stage: "on_stage e admin creator 1 r" "get_campaign_count (fst r) = 0"
  show "on_stage e admin creator 1 (minted mint contributor (int (fc_mint_amount input) + 1) r)"
    by (rule on_stage_minted(1) [OF assms(1) stage(1)]) simp
  show "get_campaign_count (fst (minted mint contributor (int (fc_mint_amount input) + 1) r)) = 0"
    using on_stage_minted(2) [OF assms(1) stage(1)] stage(2) by simp
next
  fix cid r3
  let ?amt = "wide_amount (fc_amount_hi input) (fc_amount_lo input)"
  let ?r4 = "if \<not> fc_skip_verify input then attempt e (ReviewCall (VerifyCampaign cid)) r3 else r3"
  assume stage: "on_stage e admin creator (1 + 1) r3"
  have verified: "on_stage e admin creator 3 (attempt e (ReviewCall (VerifyCampaign cid)) r3)"
    using on_stage_attempt [OF assms(1) stage, of "ReviewCall (VerifyCampaign cid)"] stage_signers(2) [OF stage] assms(2) by simp
  have r4: "on_stage e admin creator 3 ?r4" using verified on_stage_later [OF stage, of 3] by simp
  have r5: "on_stage e admin creator 4 (attempt e (FundCall (Contribute cid contributor ?amt)) ?r4)"
    using on_stage_attempt [OF assms(1) r4, of "FundCall (Contribute cid contributor ?amt)"] assms(4) by simp
  have r6: "on_stage e admin creator 5 (attempt e (FundCall (Contribute cid contributor ?amt))
      (attempt e (FundCall (Contribute cid contributor ?amt)) ?r4))"
    using on_stage_attempt [OF assms(1) r5, of "FundCall (Contribute cid contributor ?amt)"] assms(4) by simp
  show "never_aborts e (if fc_contribute_twice input
    then attempt e (FundCall (Contribute cid contributor ?amt))
      (attempt e (FundCall (Contribute cid contributor ?amt)) ?r4)
    else attempt e (FundCall (Contribute cid contributor ?amt)) ?r4)"
    using on_stage_never_aborts [OF r5] on_stage_never_aborts [OF r6] by (simp only: split: if_split) blast
qed (use assms(3) in \<open>simp_all add: fuzz_params_def\<close>)

text \<open>On the demo host, with a \<open>mint\<close> of its token.\<close>

definition demo_mint :: "address \<Rightarrow> i128 \<Rightarrow> balances \<Rightarrow> balances" where
  "demo_mint a amt bal = bal((Address 1, a) := bal (Address 1, a) + amt)"

lemma demo_fuzz_host: "fuzz_host (demo_env t) demo_mint (Address 1)"
proof -
  have "keeps_books (demo_env t)" "pays_covered (demo_env t)"
    using demo_keeps_books truncate_host(3) [OF demo_env_fields(9)] demo_pays_covered truncate_pays [OF demo_env_fields(9)]
    by simp_all
  then show ?thesis by (simp add: fuzz_host_def balance_of_def demo_mint_def)
qed

definition covered_input :: contribute_input where
  "covered_input = \<lparr>fc_amount_hi = 0, fc_amount_lo = 500, fc_funding_goal_raw = 99999, fc_duration_days_raw = 9,
     fc_mint_amount = 999, fc_platform_fee_raw = 300, fc_skip_verify = False, fc_contribute_twice = False\<rparr>"

theorem fuzz_contribute_property_witness:
  "never_aborts (demo_env 1000) (fuzz_contribute (demo_env 1000) demo_mint (Address 1) (Address 0) (Address 2) (Address 3)
     (\<lambda>_. 0) covered_input)"
  by (rule fuzz_contribute_property [OF demo_fuzz_host]) (simp_all add: balance_of_def)

text \<open>
  The gap between the property and its comment: a contribution of 5000 that passes every check of the contract, from
  an address that holds nothing, is aborted by the token contract.
\<close>

lemma overdraft_aborts:
  "contribute (demo_env 4000) 1 (Address 3) 5000 (h_verified\<lparr>st_world := (\<lambda>_. 0)\<rparr>) = Trap"
  by (simp add: history_defs eval_simps)

text \<open>
  C29: The property of \<^verbatim>\<open>fuzz_lifecycle\<close>: whatever goal, duration and amounts, no sequence of up to thirty
  contributions, verifications by the admin or by votes, cancellations and withdrawals of one campaign makes a call abort,
  contributions beyond the contributor's balance aside; a withdrawal in particular always finds the money it pays.
\<close>

theorem fuzz_lifecycle_property:
  assumes "fuzz_host e mint tok" "admin \<noteq> h_self e" "creator \<noteq> h_self e" "contributor \<noteq> h_self e"
    and "\<forall>t. 0 \<le> balance_of e t (h_self e) w"
  shows "never_aborts e (fuzz_lifecycle e mint tok admin creator contributor w input)"
  unfolding fuzz_lifecycle_def
proof (rule open_target [OF assms(1, 2, 5)], unfold Let_def, rule create_on_stage [OF assms(1)])
  fix r
  assume stage: "on_stage e admin creator 1 r" "get_campaign_count (fst r) = 0"
  show "on_stage e admin creator 1 (minted mint contributor (int (fl_mint_amount input) + 1) r)"
    by (rule on_stage_minted(1) [OF assms(1) stage(1)]) simp
  show "get_campaign_count (fst (minted mint contributor (int (fl_mint_amount input) + 1) r)) = 0"
    using on_stage_minted(2) [OF assms(1) stage(1)] stage(2) by simp
next
  fix cid r
  assume stage: "on_stage e admin creator (1 + 1) r"
  show "never_aborts e (fold (\<lambda>op. attempt e (lifecycle_call cid contributor (int (fl_contribute_amount_raw input) + 1) op))
      (take 30 (fl_ops input)) r)"
    by (rule on_stage_never_aborts [OF lifecycle_on_stage [OF assms(1-4) stage]]) simp
qed (use assms(3) in \<open>simp_all add: fuzz_params_def\<close>)

theorem fuzz_lifecycle_property_witness:
  "never_aborts (demo_env 1000) (fuzz_lifecycle (demo_env 1000) demo_mint (Address 1) (Address 0) (Address 2) (Address 3) (\<lambda>_. 0)
     \<lparr>fl_funding_goal_raw = 0, fl_duration_days_raw = 9, fl_mint_amount = 999999, fl_contribute_amount_raw = 101999,
      fl_ops = [1, 0, 4, 3, 4]\<rparr>)"
  by (rule fuzz_lifecycle_property [OF demo_fuzz_host]) (simp_all add: balance_of_def)

text \<open>
  C31: The property of \<^verbatim>\<open>fuzz_voting\<close>: whatever quorum, threshold, minimum balance and sequence of votes,
  with repeated votes and verification before and after them, setting the parameters, voting and verifying return
  or fail with a typed error.
\<close>

theorem fuzz_voting_property:
  assumes "fuzz_host e mint tok" "admin \<noteq> h_self e" "creator \<noteq> h_self e" "\<forall>i. voter i \<noteq> h_self e"
    and "\<forall>t. 0 \<le> balance_of e t (h_self e) w"
  shows "never_aborts e (fuzz_voting e mint tok admin creator voter w input)"
  unfolding fuzz_voting_def
proof (rule open_target [OF assms(1, 2, 5)], unfold Let_def, rule create_on_stage [OF assms(1)])
  fix r
  assume stage: "on_stage e admin creator 1 r" "get_campaign_count (fst r) = 0"
  let ?k1 = "ConfigCall (SetVotingParams admin (fv_min_votes_quorum input) (fv_approval_threshold_bps input))"
  let ?k2 = "ConfigCall (SetMinVotingBalance admin (int (fv_min_voting_balance_raw input) mod 1000000))"
  have r2: "on_stage e admin creator 2 (attempt e ?k1 r)"
    using on_stage_attempt [OF assms(1) stage(1), of ?k1] stage_signers(2) [OF stage(1)] assms(2) by simp
  show "on_stage e admin creator 3 (attempt e ?k2 (attempt e ?k1 r))"
    using on_stage_attempt [OF assms(1) r2, of ?k2] stage_signers(2) [OF r2] assms(2) by simp
  show "get_campaign_count (fst (attempt e ?k2 (attempt e ?k1 r))) = 0"
    using attempt_count [OF stage(1), of ?k1] attempt_count [OF r2, of ?k2] stage(2) by simp
next
  fix cid r4
  assume stage: "on_stage e admin creator (3 + 1) r4"
  let ?votes = "ReviewCall (VerifyCampaignWithVotes cid)"
  let ?r5 = "if fv_verify_with_votes_first input then attempt e ?votes r4 else r4"
  let ?c = "cast_votes e mint voter (int (fv_voter_balance_raw input) + 1) cid (take 25 (fv_votes input)) 0 None ?r5"
  have "on_stage e admin creator 5 (attempt e ?votes r4)"
    using on_stage_attempt [OF assms(1) stage, of ?votes] by simp
  then have r5: "on_stage e admin creator 5 ?r5" using on_stage_later [OF stage, of 5] by simp
  have votes: "on_stage e admin creator (5 + length (take 25 (fv_votes input))) (snd ?c) \<and>
      (\<forall>a. fst ?c = Some a \<longrightarrow> None \<noteq> Some (h_self e) \<longrightarrow> a \<noteq> h_self e)"
    by (rule votes_on_stage [OF assms(1) _ _ r5]) (use assms(4) in simp_all)
  have r6: "on_stage e admin creator 30 (snd ?c)" by (rule on_stage_later [OF conjunct1 [OF votes]]) simp
  have last_voter: "a \<noteq> h_self e" if "fst ?c = Some a" for a using conjunct2 [OF votes] that by blast
  obtain l r6' where c: "?c = (l, r6')" by (cases ?c)
  let ?r7 = "if fv_revote_last_voter input then case l of None \<Rightarrow> r6'
    | Some a \<Rightarrow> attempt e (ReviewCall (VoteOnCampaign cid a True)) r6' else r6'"
  have stage6: "on_stage e admin creator 30 r6'" using r6 unfolding c by simp
  have voted: "on_stage e admin creator 31 (attempt e (ReviewCall (VoteOnCampaign cid a True)) r6')" if "l = Some a" for a
    using on_stage_attempt [OF assms(1) stage6, of "ReviewCall (VoteOnCampaign cid a True)"] last_voter [unfolded c] that by simp
  have r7: "on_stage e admin creator 31 ?r7"
    using voted on_stage_later [OF stage6, of 31] by (auto split: option.split)
  have r8: "on_stage e admin creator 32 (attempt e ?votes ?r7)"
    using on_stage_attempt [OF assms(1) r7, of ?votes] by simp
  have "on_stage e admin creator 33 (attempt e (ReviewCall (VerifyCampaign cid)) (attempt e ?votes ?r7))"
    using on_stage_attempt [OF assms(1) r8, of "ReviewCall (VerifyCampaign cid)"] stage_signers(2) [OF r8] assms(2) by simp
  then show "never_aborts e (case ?c of (last_voter, r6) \<Rightarrow> attempt e (ReviewCall (VerifyCampaign cid)) (attempt e ?votes
      (if fv_revote_last_voter input then case last_voter of None \<Rightarrow> r6
        | Some a \<Rightarrow> attempt e (ReviewCall (VoteOnCampaign cid a True)) r6 else r6)))"
    unfolding c prod.case by (rule on_stage_never_aborts)
qed (use assms(3) in \<open>simp_all add: fuzz_params_def\<close>)

theorem fuzz_voting_property_witness:
  "never_aborts (demo_env 1000) (fuzz_voting (demo_env 1000) demo_mint (Address 1) (Address 0) (Address 2) (\<lambda>i. Address (100 + i)) (\<lambda>_. 0)
     \<lparr>fv_min_votes_quorum = 2, fv_approval_threshold_bps = 5000, fv_min_voting_balance_raw = 10, fv_voter_balance_raw = 20,
      fv_votes = [True, False, True], fv_revote_last_voter = True, fv_verify_with_votes_first = True\<rparr>)"
  by (rule fuzz_voting_property [OF demo_fuzz_host]) (simp_all add: balance_of_def)

end
