(* ===== verification/Shares.thy ===== *)
theory Shares
  imports Gauges History
begin

text \<open>
  The revenue pools over a whole run. What a campaign's contributors have been paid adds up to the
  stored totals in every reachable state, and as long as no deposit comes between, whatever else
  happens, the contributors together are never paid more than their side of the pool; once all have
  claimed they have been paid all of it. (A deposit in between breaks this: \<open>revenue_can_be_overpaid\<close>.)
\<close>

section \<open>What a withdrawal fixes\<close>

text \<open>The entries of a withdrawn campaign that enter a share: they never change again.\<close>

type_synonym terms = "i128 \<times> u32 \<times> (address \<Rightarrow> i128) \<times> u32"

definition sealed :: "core \<Rightarrow> u32 \<Rightarrow> terms option" where
  "sealed k cid =
    (case k_camp k cid of
       Some c \<Rightarrow> if c_funds_withdrawn c
                  then Some (c_effective_amount_raised c, c_revenue_share_percentage c, k_contrib k cid, k_backers k cid)
                  else None
     | None \<Rightarrow> None)"

lemma sealed_eq:
  "sealed (core s) cid = Some (eff, share, ct, bk) \<longleftrightarrow>
     (\<exists>c. get_campaign s cid = Some c \<and> c_funds_withdrawn c \<and> eff = c_effective_amount_raised c \<and>
        share = c_revenue_share_percentage c \<and> ct = get_contribution s cid \<and> bk = get_contributor_count s cid)"
  by (auto simp: sealed_def core_fields split: option.splits)

definition keeps_sealed :: "core \<Rightarrow> core \<Rightarrow> bool" where
  "keeps_sealed k k' \<longleftrightarrow> (\<forall>cid t. sealed k cid = Some t \<longrightarrow> sealed k' cid = Some t)"

lemma keeps_sealedD: "keeps_sealed k k' \<Longrightarrow> sealed k cid = Some t \<Longrightarrow> sealed k' cid = Some t"
  unfolding keeps_sealed_def by blast

lemma keeps_sealedI:
  assumes "\<And>cid c. k_camp k cid = Some c \<Longrightarrow> c_funds_withdrawn c \<Longrightarrow>
    (\<exists>c'. k_camp k' cid = Some c' \<and> c_funds_withdrawn c' \<and> c_effective_amount_raised c' = c_effective_amount_raised c \<and>
       c_revenue_share_percentage c' = c_revenue_share_percentage c) \<and>
    k_contrib k' cid = k_contrib k cid \<and> k_backers k' cid = k_backers k cid"
  shows "keeps_sealed k k'"
  using assms by (fastforce simp: keeps_sealed_def sealed_def split: option.splits if_splits)

lemma core_step_keeps_sealed:
  assumes "core_step now k k'" "core_inv now k"
  shows "keeps_sealed k k'"
proof (rule keeps_sealedI)
  fix cid c
  assume camp: "k_camp k cid = Some c" "c_funds_withdrawn c"
  then have closed: "\<not> c_is_active c" "\<not> refundable now c"
    using core_invD(2, 4) [OF assms(2) camp(1)] core_invD(2) [OF assms(2) camp(1)]
    by (auto simp: flags_ok_def refundable_def)
  have old: "cid \<noteq> k_count k + 1" using core_inv_next [OF assms(2)] camp(1) by auto
  from assms(1) show "(\<exists>c'. k_camp k' cid = Some c' \<and> c_funds_withdrawn c' \<and>
       c_effective_amount_raised c' = c_effective_amount_raised c \<and>
       c_revenue_share_percentage c' = c_revenue_share_percentage c) \<and>
    k_contrib k' cid = k_contrib k cid \<and> k_backers k' cid = k_backers k cid"
  proof cases
    case (contributed i d who amt)
    with camp closed have "i \<noteq> cid" by (auto simp: open_for_def)
    with contributed(1) camp show ?thesis by (simp add: k_contribute_def)
  next
    case (refunded i d who)
    with camp closed have "i \<noteq> cid" by auto
    with refunded(1) camp show ?thesis by (simp add: k_refund_def)
  next
    case (edit i d d')
    from edit(3) have "c_funds_withdrawn d' = c_funds_withdrawn d" "c_effective_amount_raised d' = c_effective_amount_raised d"
      "c_revenue_share_percentage d' = c_revenue_share_percentage d" unfolding edited_def by blast+
    with edit(1, 2) camp show ?thesis by (auto simp: put_def)
  qed (use camp old in \<open>auto simp: move_defs\<close>)
qed

lemma core_steps_keep_sealed:
  assumes "core_steps now k k'" "core_inv now k"
  shows "keeps_sealed k k'"
  using assms
proof (induction rule: rtranclp_induct)
  case (step k1 k2)
  then have "core_inv now k1" using core_steps_inv by blast
  with step core_step_keeps_sealed [OF step(2)] show ?case by (simp add: keeps_sealed_def)
qed (simp add: keeps_sealed_def)

lemma dispatch_keeps_sealed:
  assumes "dispatch e k s = Inr s'" "config_ok (config s)" "core_inv (e_timestamp e) (core s)"
  shows "keeps_sealed (core s) (core s')"
proof (cases "\<exists>cid. accepts k cid")
  case True
  then obtain cid where "hand_over cid (core s) (core s')" using dispatch_hands_over [OF assms(1)] by blast
  then show ?thesis by cases (auto simp: put_def intro!: keeps_sealedI)
next
  case False
  then show ?thesis by (intro core_steps_keep_sealed [OF dispatch_refines [OF assms(1, 2)] assms(3)]) simp_all
qed

section \<open>The books of the pools add up\<close>

text \<open>
  Only contributors of a withdrawn campaign were ever paid; the stored total is the sum of what they were
  paid, the stored number of claimants their number.
\<close>

fun ledger_ok ::
  "(u32 \<Rightarrow> terms option) \<Rightarrow> (u32 \<Rightarrow> address \<Rightarrow> i128) \<times> (u32 \<Rightarrow> i128) \<times> (u32 \<Rightarrow> i128) \<times> (u32 \<Rightarrow> u32) \<Rightarrow> bool" where
  "ledger_ok fixed (claimed, taken, distributed, claimants) \<longleftrightarrow>
     (\<forall>cid. (\<forall>a. claimed cid a \<noteq> 0 \<longrightarrow> (\<exists>eff share ct bk. fixed cid = Some (eff, share, ct, bk) \<and> ct a \<noteq> 0)) \<and>
        distributed cid = support_sum (claimed cid) \<and> claimants cid = card {a. claimed cid a \<noteq> 0})"

lemma ledger_fields:
  "ledger s = (get_revenue_claimed s, get_creator_revenue_claimed s,
     get_contributor_revenue_distributed s, get_contributor_revenue_claimants s)"
  by (simp add: ledger_def takings_def purse_fields)

lemma ledger_ok_state:
  "ledger_ok fixed (ledger s) \<longleftrightarrow>
     (\<forall>cid. (\<forall>a. get_revenue_claimed s cid a \<noteq> 0 \<longrightarrow> (\<exists>eff share ct bk. fixed cid = Some (eff, share, ct, bk) \<and> ct a \<noteq> 0)) \<and>
        get_contributor_revenue_distributed s cid = support_sum (get_revenue_claimed s cid) \<and>
        get_contributor_revenue_claimants s cid = card {a. get_revenue_claimed s cid a \<noteq> 0})"
  by (simp add: ledger_fields)

lemma ledger_ok_sealed: "ledger_ok (sealed k) l \<Longrightarrow> keeps_sealed k k' \<Longrightarrow> ledger_ok (sealed k') l"
  by (cases l) (fastforce simp: keeps_sealed_def)

text \<open>The claimants of a campaign are among its contributors, who are finitely many.\<close>

lemma claimants_among:
  assumes "core_inv now (core s)" "ledger_ok (sealed (core s)) (ledger s)"
  shows "finite {a. get_revenue_claimed s cid a \<noteq> 0}"
    "{a. get_revenue_claimed s cid a \<noteq> 0} \<subseteq> {a. get_contribution s cid a \<noteq> 0}"
    "finite {a. get_contribution s cid a \<noteq> 0}"
proof -
  show fin: "finite {a. get_contribution s cid a \<noteq> 0}"
  proof (cases "get_campaign s cid")
    case None
    then have "get_contribution s cid a = 0" for a using assms(1) by (simp add: core_inv_def core_fields)
    then show ?thesis by simp
  next
    case (Some c)
    then show ?thesis
      using core_invD(4) [OF assms(1), of cid c] books_okD(5) by (auto simp: core_fields)
  qed
  show sub: "{a. get_revenue_claimed s cid a \<noteq> 0} \<subseteq> {a. get_contribution s cid a \<noteq> 0}"
    using assms(2) by (fastforce simp: ledger_ok_state sealed_eq)
  from sub fin show "finite {a. get_revenue_claimed s cid a \<noteq> 0}" by (rule finite_subset)
qed


section \<open>What a call does to the books\<close>

lemma claim_revenue_claimants:
  assumes "claim_revenue e cid who s = Inr s'"
  shows "get_contributor_revenue_claimants s' = (get_contributor_revenue_claimants s)
      (cid := get_contributor_revenue_claimants s cid + (if get_revenue_claimed s cid who = 0 then 1 else 0))"
    "get_creator_revenue_claimed s' = get_creator_revenue_claimed s"
proof -
  have "p_claimants (purse s') = (p_claimants (purse s))
      (cid := p_claimants (purse s) cid + (if p_claimed (purse s) cid who = 0 then 1 else 0)) \<and>
    p_creator_claimed (purse s') = p_creator_claimed (purse s)"
    using assms
    apply (simp only: claim_revenue_def Let_def res_simps not_not not_le purse_reads)
    apply clarify
    apply (auto simp: purse_frame checked_eq_Some fun_eq_iff)
    done
  then show "get_contributor_revenue_claimants s' = (get_contributor_revenue_claimants s)
      (cid := get_contributor_revenue_claimants s cid + (if get_revenue_claimed s cid who = 0 then 1 else 0))"
    "get_creator_revenue_claimed s' = get_creator_revenue_claimed s"
    by (simp_all add: purse_fields)
qed

text \<open>A payment recorded in the books of a withdrawn campaign.\<close>

lemma claim_revenue_ledger:
  assumes run: "claim_revenue e cid who s = Inr s'"
    and inv: "core_inv now (core s)" "ledger_ok (sealed (core s)) (ledger s)" "takings_ok (purse s)"
  shows "ledger_ok (sealed (core s')) (ledger s')"
proof -
  from claim_revenue_purse [OF run] obtain c pay where
    facts: "get_campaign s cid = Some c" "c_funds_withdrawn c" "get_contribution s cid who \<noteq> 0" "0 < pay"
      "get_revenue_claimed s' = (get_revenue_claimed s)
         (cid := (get_revenue_claimed s cid)(who := get_revenue_claimed s cid who + pay))"
      "get_contributor_revenue_distributed s' = (get_contributor_revenue_distributed s)
         (cid := get_contributor_revenue_distributed s cid + pay)"
      "core s' = core s" by metis
  let ?K = "{a. get_revenue_claimed s cid a \<noteq> 0}"
  have paid: "get_revenue_claimed s cid who + pay \<noteq> 0" using facts(4) takings_okD(3) [OF inv(3), of cid who] by simp
  then have claimants: "{a. get_revenue_claimed s' cid a \<noteq> 0} = insert who ?K" by (auto simp: facts(5))
  have fin: "finite ?K" by (rule claimants_among(1) [OF inv(1, 2)])
  have sum: "support_sum (get_revenue_claimed s' cid) = support_sum (get_revenue_claimed s cid) + pay"
    by (simp add: facts(5) support_sum_upd [OF fin])
  have count: "card (insert who ?K) = card ?K + (if get_revenue_claimed s cid who = 0 then 1 else 0)"
    using fin by (auto simp: card_insert_if)
  have fixed: "sealed (core s) cid = Some (c_effective_amount_raised c, c_revenue_share_percentage c,
      get_contribution s cid, get_contributor_count s cid)" by (simp add: sealed_eq facts(1, 2))
  show ?thesis
    unfolding ledger_ok_state
  proof (intro allI conjI impI)
    fix i a
    assume "get_revenue_claimed s' i a \<noteq> 0"
    then show "\<exists>eff share ct bk. sealed (core s') i = Some (eff, share, ct, bk) \<and> ct a \<noteq> 0"
      using inv(2) [unfolded ledger_ok_state, THEN spec [of _ i]] fixed facts(3)
      by (cases "i = cid \<and> a = who") (auto simp: facts(5, 7) split: if_splits)
  next
    fix i
    show "get_contributor_revenue_distributed s' i = support_sum (get_revenue_claimed s' i)"
      using inv(2) sum by (cases "i = cid") (simp_all add: ledger_ok_state facts(5, 6))
    show "get_contributor_revenue_claimants s' i = card {a. get_revenue_claimed s' i a \<noteq> 0}"
    proof (cases "i = cid")
      case True
      with inv(2) show ?thesis
        by (simp only: claimants count) (simp add: ledger_ok_state claim_revenue_claimants(1) [OF run])
    next
      case False
      with inv(2) show ?thesis by (simp add: ledger_ok_state claim_revenue_claimants(1) [OF run] facts(5))
    qed
  qed
qed

text \<open>A refund clears a claim that is not there.\<close>

lemma claim_refund_ledger:
  assumes run: "claim_refund e cid who s = Inr s'"
    and inv: "core_inv (e_timestamp e) (core s)" "ledger_ok (sealed (core s)) (ledger s)"
  shows "takings s' = takings s"
proof -
  from claim_refund_purse [OF run] obtain c w where camp: "get_campaign s cid = Some c" "refundable (e_timestamp e) c"
    and p: "purse s' = (purse s)\<lparr>p_world := w,
       p_total := (if c_is_cancelled c then get_total_raised_global s
                   else get_total_raised_global s - get_contribution s cid who),
       p_claimed := (get_revenue_claimed s)(cid := (get_revenue_claimed s cid)(who := 0))\<rparr>" by metis
  have "\<not> c_funds_withdrawn c"
    using core_invD(2) [OF inv(1), of cid c] camp by (auto simp: core_fields flags_ok_def refundable_def)
  then have "get_revenue_claimed s cid who = 0"
    using inv(2) camp(1) by (fastforce simp: ledger_ok_state sealed_eq)
  then have "(get_revenue_claimed s)(cid := (get_revenue_claimed s cid)(who := 0)) = get_revenue_claimed s"
    by (simp add: fun_eq_iff)
  with p show ?thesis by (simp add: takings_def purse_fields)
qed

lemma revenue_takings:
  "deposit_revenue e cid amt s = Inr s' \<Longrightarrow> ledger s' = ledger s \<and> (\<forall>i. i \<noteq> cid \<longrightarrow> get_revenue_pool s' i = get_revenue_pool s i)"
  "claim_creator_revenue e cid s = Inr s' \<Longrightarrow> get_revenue_pool s' = get_revenue_pool s \<and>
     get_revenue_claimed s' = get_revenue_claimed s \<and>
     get_contributor_revenue_distributed s' = get_contributor_revenue_distributed s \<and>
     get_contributor_revenue_claimants s' = get_contributor_revenue_claimants s"
  unfolding purse_fields [symmetric] ledger_def takings_def
  subgoal
    apply (simp only: deposit_revenue_def Let_def res_simps not_not not_le purse_reads)
    apply clarify
    apply (simp add: purse_frame)
    done
  subgoal
    apply (simp only: claim_creator_revenue_def Let_def res_simps not_not not_le purse_reads)
    apply clarify
    apply (simp add: purse_frame)
    done
  done

text \<open>All entry points at once: the pool and the payments of a withdrawn campaign.\<close>

definition same_payments :: "u32 \<Rightarrow> 'w state \<Rightarrow> 'w state \<Rightarrow> bool" where
  "same_payments cid s s' \<longleftrightarrow> get_revenue_claimed s' cid = get_revenue_claimed s cid \<and>
     get_contributor_revenue_distributed s' cid = get_contributor_revenue_distributed s cid \<and>
     get_contributor_revenue_claimants s' cid = get_contributor_revenue_claimants s cid"

lemma same_payments_ledger: "ledger s' = ledger s \<Longrightarrow> same_payments cid s s'"
  by (simp add: same_payments_def ledger_fields)

lemma same_payments_takings:
  assumes "takings s' = takings s"
  shows "same_payments cid s s' \<and> get_revenue_pool s' cid = get_revenue_pool s cid"
proof -
  from assms have "ledger s' = ledger s" "p_pool (purse s') = p_pool (purse s)" by (simp_all add: ledger_def takings_def)
  then show ?thesis by (simp add: same_payments_ledger purse_fields)
qed

lemma claim_revenue_elsewhere:
  assumes "claim_revenue e i who s = Inr s'"
  shows "get_revenue_pool s' = get_revenue_pool s" "i \<noteq> cid \<Longrightarrow> same_payments cid s s'"
proof -
  from claim_revenue_purse [OF assms] obtain pay where
    "get_revenue_claimed s' = (get_revenue_claimed s)(i := (get_revenue_claimed s i)(who := get_revenue_claimed s i who + pay))"
    "get_contributor_revenue_distributed s' = (get_contributor_revenue_distributed s)
         (i := get_contributor_revenue_distributed s i + pay)"
    "get_revenue_pool s' = get_revenue_pool s" by metis
  with claim_revenue_claimants(1) [OF assms]
  show "get_revenue_pool s' = get_revenue_pool s" "i \<noteq> cid \<Longrightarrow> same_payments cid s s'"
    by (simp_all add: same_payments_def)
qed

lemma dispatch_payments:
  assumes run: "dispatch e k s = Inr s'" and ok: "config_ok (config s)"
    and inv: "core_inv (e_timestamp e) (core s)" "ledger_ok (sealed (core s)) (ledger s)"
    and other: "\<And>a. k \<noteq> FundCall (ClaimRevenue cid a)"
  shows "same_payments cid s s' \<and>
    (sealed (core s) cid \<noteq> None \<and> (\<forall>amt. k \<noteq> FundCall (DepositRevenue cid amt)) \<longrightarrow>
     get_revenue_pool s' cid = get_revenue_pool s cid)"
proof (cases k)
  case (CampaignCall c)
  with run have call: "run_campaign_call e c s = Inr s'" by simp
  consider p tok where "c = CreateCampaign p \<or> c = CreateCampaignWithToken p tok" | i where "c = CancelCampaign i"
    | "\<And>p. c \<noteq> CreateCampaign p" "\<And>p tok. c \<noteq> CreateCampaignWithToken p tok" "\<And>cid. c \<noteq> CancelCampaign cid" by blast
  then show ?thesis
  proof cases
    case 1
    have "cid \<noteq> get_campaign_count s + 1" if "sealed (core s) cid \<noteq> None"
      using core_inv_next [OF inv(1)] that by (auto simp: sealed_def core_fields)
    moreover have "takings s' = ((p_pool (purse s))(get_campaign_count s + 1 := 0), ledger s)" by (rule create_purse(1) [OF call 1])
    then have "ledger s' = ledger s" "p_pool (purse s') = (p_pool (purse s))(get_campaign_count s + 1 := 0)"
      by (simp_all add: ledger_def takings_def)
    ultimately show ?thesis by (auto simp: same_payments_ledger purse_fields)
  next
    case 2
    with call have cancel: "cancel_campaign e i s = Inr s'" by simp
    obtain c where "get_campaign s i = Some c" "\<not> c_funds_withdrawn c" by (rule cancel_campaign_core [OF cancel]) blast
    then have "i \<noteq> cid" if "sealed (core s) cid \<noteq> None" using that by (auto simp: sealed_def core_fields)
    with cancel_takings [OF cancel] show ?thesis by (auto simp: same_payments_ledger purse_fields)
  next
    case 3
    then have "takings s' = takings s" by (rule edits_takings [OF call])
    from same_payments_takings [OF this] show ?thesis by blast
  qed
next
  case (FundCall c)
  with run have call: "run_fund_call e c s = Inr s'" by simp
  consider i amt where "c = DepositRevenue i amt" | i where "c = ClaimCreatorRevenue i" | i a where "c = ClaimRefund i a"
    | i a where "c = ClaimRevenue i a"
    | "\<And>i a. c \<noteq> ClaimRevenue i a" "\<And>i amt. c \<noteq> DepositRevenue i amt" "\<And>i. c \<noteq> ClaimCreatorRevenue i" "\<And>i a. c \<noteq> ClaimRefund i a" by blast
  then show ?thesis
  proof cases
    case 1
    with call have "deposit_revenue e i amt s = Inr s'" by simp
    from revenue_takings(1) [OF this] 1 FundCall show ?thesis by (auto simp: same_payments_ledger)
  next
    case 2
    with call have "claim_creator_revenue e i s = Inr s'" by simp
    from revenue_takings(2) [OF this] show ?thesis by (auto simp: same_payments_def)
  next
    case 3
    with call have "claim_refund e i a s = Inr s'" by simp
    from same_payments_takings [OF claim_refund_ledger [OF this inv]] show ?thesis by blast
  next
    case 4
    with call other FundCall have "claim_revenue e i a s = Inr s'" "i \<noteq> cid" by auto
    with claim_revenue_elsewhere [OF this(1)] show ?thesis by auto
  next
    case 5
    then have "takings s' = takings s"
      using call by (cases c) (auto dest: fund_calls_takings)
    from same_payments_takings [OF this] show ?thesis by blast
  qed
next
  case (ReviewCall c)
  with run have "run_review_call e c s = Inr s'" by simp
  from same_payments_takings [OF takings_reviews.review_call_obs [OF this]] show ?thesis by blast
next
  case (ConfigCall c)
  with run have "run_config_call e c s = Inr s'" by simp
  from same_payments_takings [OF takings_settings.config_call_obs [OF this config_okD(1) [OF ok]]] show ?thesis by blast
next
  case (AdminCall c)
  with run have "run_admin_call e c s = Inr s'" by simp
  from same_payments_takings [OF takings_settings.admin_call_obs [OF this]] show ?thesis by blast
qed

lemma dispatch_ledger:
  assumes run: "dispatch e k s = Inr s'" and ok: "config_ok (config s)"
    and inv: "core_inv (e_timestamp e) (core s)" "ledger_ok (sealed (core s)) (ledger s)" "takings_ok (purse s)"
  shows "ledger_ok (sealed (core s')) (ledger s')"
proof (cases "\<exists>cid a. k = FundCall (ClaimRevenue cid a)")
  case True
  then obtain cid a where "claim_revenue e cid a s = Inr s'" using run by auto
  then show ?thesis by (rule claim_revenue_ledger [OF _ inv])
next
  case False
  then have "\<forall>cid. same_payments cid s s'" using dispatch_payments [OF run ok inv(1, 2)] by blast
  with inv(2) have "ledger_ok (sealed (core s)) (ledger s')" by (simp add: same_payments_def ledger_ok_state)
  then show ?thesis by (rule ledger_ok_sealed [OF _ dispatch_keeps_sealed [OF run ok inv(1)]])
qed

interpretation ledger_invariant: contract_invariant "\<lambda>now s. gauges_ok s \<and> ledger_ok (sealed (core s)) (ledger s)"
proof unfold_locales
  fix e :: "'a env" and a tok fee wd s
  assume init: "init e a tok fee (empty_state wd) = Inr s"
  have "get_revenue_claimed s = (\<lambda>_ _. 0) \<and> get_contributor_revenue_distributed s = (\<lambda>_. 0) \<and>
      get_contributor_revenue_claimants s = (\<lambda>_. 0)"
    using init by (simp only: init_def Let_def res_simps Inr_inject, clarify)
      (simp add: store_defs empty_state_def fun_eq_iff)
  then show "gauges_ok s \<and> ledger_ok (sealed (core s)) (ledger s)"
    using init_gauges [OF init] by (simp add: ledger_ok_state support_sum_def)
next
  fix now :: u64 and s :: "'a state" and wd
  assume "gauges_ok s \<and> ledger_ok (sealed (core s)) (ledger s)"
  moreover have "ledger (s\<lparr>st_world := wd\<rparr>) = ledger s" by (simp add: ledger_def takings_def purse_frame)
  ultimately show "gauges_ok (s\<lparr>st_world := wd\<rparr>) \<and> ledger_ok (sealed (core (s\<lparr>st_world := wd\<rparr>))) (ledger (s\<lparr>st_world := wd\<rparr>))"
    by (simp add: gauges_invariant.inv_world core_frame)
next
  fix e :: "'a env" and k s s'
  assume run: "dispatch e k s = Inr s'" "config_ok (config s)" "core_inv (e_timestamp e) (core s)"
    and inv: "gauges_ok s \<and> ledger_ok (sealed (core s)) (ledger s)"
  have "takings_ok (purse s)" using inv by (simp add: gauges_ok_def)
  with inv show "gauges_ok s' \<and> ledger_ok (sealed (core s')) (ledger s')"
    using gauges_call [OF run(1, 2)] dispatch_ledger [OF run] by blast
qed

lemma reachable_ledger: "reachable h now s \<Longrightarrow> ledger_ok (sealed (core s)) (ledger s)"
  using ledger_invariant.reachable_all by blast

section \<open>Claims between two deposits\<close>

text \<open>
  Everyone who claimed was paid the share of the present pool, in full and (until the last contributor
  claims) exactly; together no more than the contributors' side, and all of it when everyone has claimed.
\<close>

definition fair :: "'w state \<Rightarrow> u32 \<Rightarrow> bool" where
  "fair s cid \<longleftrightarrow> (\<exists>eff share ct bk due. sealed (core s) cid = Some (eff, share, ct, bk) \<and>
     (\<forall>a. get_revenue_claimed s cid a \<noteq> 0 \<longrightarrow>
        contributor_due (ct a) (get_revenue_pool s cid) share eff = Inr (due a) \<and> due a \<le> get_revenue_claimed s cid a \<and>
        ((\<exists>b. ct b \<noteq> 0 \<and> get_revenue_claimed s cid b = 0) \<longrightarrow> get_revenue_claimed s cid a = due a)) \<and>
     get_contributor_revenue_distributed s cid \<le> contributor_side (get_revenue_pool s cid) share \<and>
     ((\<exists>b. ct b \<noteq> 0) \<and> (\<forall>b. ct b \<noteq> 0 \<longrightarrow> get_revenue_claimed s cid b \<noteq> 0) \<longrightarrow>
        get_contributor_revenue_distributed s cid = contributor_side (get_revenue_pool s cid) share))"

lemma fair_cong:
  assumes "fair s cid" "same_payments cid s s'" "get_revenue_pool s' cid = get_revenue_pool s cid" "keeps_sealed (core s) (core s')"
  shows "fair s' cid"
proof -
  from assms(1) obtain eff share ct bk where "sealed (core s) cid = Some (eff, share, ct, bk)" unfolding fair_def by blast
  then have "sealed (core s') cid = sealed (core s) cid" using keeps_sealedD [OF assms(4)] by simp
  with assms(1-3) show ?thesis by (simp add: fair_def same_payments_def)
qed

text \<open>What a reachable state says about the terms of a withdrawn campaign.\<close>

lemma sealed_terms:
  assumes "core_inv now (core s)" "sealed (core s) cid = Some (eff, share, ct, bk)"
  shows "\<forall>a. 0 \<le> ct a" "finite {a. ct a \<noteq> 0}" "support_sum ct = eff" "share \<le> BPS_DENOMINATOR"
    "bk = card {a. ct a \<noteq> 0}" "ct = get_contribution s cid"
proof -
  from assms(2) obtain c where c: "get_campaign s cid = Some c" "eff = c_effective_amount_raised c"
    "share = c_revenue_share_percentage c" "ct = get_contribution s cid" "bk = get_contributor_count s cid"
    by (auto simp: sealed_eq)
  have camp: "k_camp (core s) cid = Some c" using c(1) by (simp add: core_fields)
  have books: "books_ok now c ct (k_life (core s) cid) bk"
    using core_invD(4) [OF assms(1) camp] c by (simp add: core_fields)
  show "\<forall>a. 0 \<le> ct a" "finite {a. ct a \<noteq> 0}" "support_sum ct = eff"
    using books_okD(3, 5, 7) [OF books] c(2) by simp_all
  show "share \<le> BPS_DENOMINATOR"
    using core_invD(3) [OF assms(1) camp] c(3) by (auto simp: terms_ok_def BPS_DENOMINATOR_def split: if_splits)
  show "bk = card {a. ct a \<noteq> 0}" using books by (simp add: books_ok_def)
  show "ct = get_contribution s cid" by (rule c(4))
qed

lemma claimable_cases:
  assumes run: "revenue_claimable c cid who own s = Inr pay"
    and first: "get_revenue_claimed s cid who = 0" "0 < get_contributor_count s cid"
    and pool: "0 \<le> get_revenue_pool s cid" "c_revenue_share_percentage c \<le> BPS_DENOMINATOR"
  shows "if get_contributor_count s cid \<le> get_contributor_revenue_claimants s cid + 1
    then pay = max own (contributor_side (get_revenue_pool s cid) (c_revenue_share_percentage c)
                         - get_contributor_revenue_distributed s cid)
    else pay = own"
proof -
  have side: "contributor_side (get_revenue_pool s cid) (c_revenue_share_percentage c) = get_revenue_pool s cid - cs"
    if "creator_share (get_revenue_pool s cid) (c_revenue_share_percentage c) = Inr cs" for cs
    using creator_share_eq(1) [OF that pool] by (simp add: contributor_side_def)
  show ?thesis
    using run first by (auto simp: revenue_claimable_def Let_def res_simps checked_eq_Some side max_def split: if_splits)
qed

text \<open>
  Before a contributor's first claim: everyone who claimed was paid exactly the share, and this share still fits.
\<close>

lemma fair_room:
  assumes inv: "core_inv now (core s)" "ledger_ok (sealed (core s)) (ledger s)" "takings_ok (purse s)" and fair: "fair s cid"
    and sealed: "sealed (core s) cid = Some (eff, share, ct, bk)"
    and due0: "contributor_due (ct who) (get_revenue_pool s cid) share eff = Inr due0"
    and who: "get_revenue_claimed s cid who = 0" "ct who \<noteq> 0"
  obtains due where "due who = due0" "\<And>a. get_revenue_claimed s cid a \<noteq> 0 \<Longrightarrow> get_revenue_claimed s cid a = due a"
    "\<And>a. a = who \<or> get_revenue_claimed s cid a \<noteq> 0 \<Longrightarrow> contributor_due (ct a) (get_revenue_pool s cid) share eff = Inr (due a)"
    "get_contributor_revenue_distributed s cid + due0 \<le> contributor_side (get_revenue_pool s cid) share"
proof -
  let ?claimed = "get_revenue_claimed s cid" and ?pool = "get_revenue_pool s cid"
  let ?K = "{a. ?claimed a \<noteq> 0}"
  note terms = sealed_terms(1-4) [OF inv(1) sealed]
  from fair sealed obtain due where
    paid: "\<And>a. ?claimed a \<noteq> 0 \<Longrightarrow> contributor_due (ct a) ?pool share eff = Inr (due a)"
      "\<And>a. ?claimed a \<noteq> 0 \<Longrightarrow> ?claimed a = due a"
    using who unfolding fair_def by fastforce
  define due' where "due' = due(who := due0)"
  have due': "due' who = due0" "\<And>a. ?claimed a \<noteq> 0 \<Longrightarrow> ?claimed a = due' a"
    "\<And>a. a = who \<or> ?claimed a \<noteq> 0 \<Longrightarrow> contributor_due (ct a) ?pool share eff = Inr (due' a)"
    using paid due0 who(1) by (auto simp: due'_def)
  have "ct who \<le> support_sum ct"
    unfolding support_sum_def using who(2) terms(1, 2) by (intro member_le_sum) auto
  moreover have "0 < ct who" using terms(1) [rule_format, of who] who(2) by linarith
  ultimately have eff: "0 < eff" unfolding terms(3) by linarith
  have fin: "finite ?K" by (rule claimants_among(1) [OF inv(1, 2)])
  have total: "get_contributor_revenue_distributed s cid = (\<Sum>a \<in> ?K. due' a)"
    using inv(2) due'(2) by (simp add: ledger_ok_state support_sum_def)
  have "\<forall>a \<in> insert who ?K. contributor_due (ct a) ?pool share eff = Inr (due' a)" using due'(3) by auto
  from shares_within_side [OF terms(1-3) eff takings_okD(1) [OF inv(3)] terms(4) _ this] fin who(1)
  have "get_contributor_revenue_distributed s cid + due0 \<le> contributor_side ?pool share"
    unfolding total by (simp add: due'(1))
  with due' that show thesis by blast
qed

lemma card_all_but_one:
  assumes "finite B" "K \<subseteq> B" "x \<in> B" "x \<notin> K"
  shows "card B \<le> card K + 1 \<longleftrightarrow> B = insert x K"
proof
  have fin: "finite K" using assms(1, 2) by (rule rev_finite_subset)
  assume "card B \<le> card K + 1"
  then have "card B \<le> card (insert x K)" using fin assms(4) by simp
  then show "B = insert x K" using card_seteq [OF assms(1), of "insert x K"] assms(2, 3) by auto
next
  assume B: "B = insert x K"
  have "finite K" using assms(1, 2) by (rule rev_finite_subset)
  then show "card B \<le> card K + 1" unfolding B by (simp add: card_insert_if)
qed

text \<open>A first claim pays the share, or what is left if all others have claimed.\<close>

lemma first_claim_pays:
  assumes inv: "core_inv now (core s)" "ledger_ok (sealed (core s)) (ledger s)" "takings_ok (purse s)" and fair: "fair s cid"
    and camp: "get_campaign s cid = Some c" "c_funds_withdrawn c"
    and due0: "contributor_due (get_contribution s cid who) (get_revenue_pool s cid)
        (c_revenue_share_percentage c) (c_effective_amount_raised c) = Inr due0"
    and who: "get_revenue_claimed s cid who = 0" "get_contribution s cid who \<noteq> 0"
    and pay: "revenue_claimable c cid who due0 s = Inr pay"
  shows "if {a. get_contribution s cid a \<noteq> 0} = insert who {a. get_revenue_claimed s cid a \<noteq> 0}
    then pay = contributor_side (get_revenue_pool s cid) (c_revenue_share_percentage c) - get_contributor_revenue_distributed s cid
    else pay = due0"
proof -
  have sealed: "sealed (core s) cid = Some (c_effective_amount_raised c, c_revenue_share_percentage c,
      get_contribution s cid, get_contributor_count s cid)" using camp by (simp add: sealed_eq)
  note terms = sealed_terms [OF inv(1) sealed]
  note among = claimants_among [OF inv(1, 2), of cid]
  have counts: "get_contributor_count s cid = card {a. get_contribution s cid a \<noteq> 0}"
    "get_contributor_revenue_claimants s cid = card {a. get_revenue_claimed s cid a \<noteq> 0}"
    using terms(5) inv(2) by (simp_all add: ledger_ok_state)
  have some: "0 < get_contributor_count s cid" using who(2) among(3) counts(1) by (auto simp: card_gt_0_iff)
  have all: "card {a. get_contribution s cid a \<noteq> 0} \<le> card {a. get_revenue_claimed s cid a \<noteq> 0} + 1 \<longleftrightarrow>
      {a. get_contribution s cid a \<noteq> 0} = insert who {a. get_revenue_claimed s cid a \<noteq> 0}"
    by (rule card_all_but_one [OF among(3, 2)]) (use who in simp_all)
  obtain due where "get_contributor_revenue_distributed s cid + due0
      \<le> contributor_side (get_revenue_pool s cid) (c_revenue_share_percentage c)"
    using fair_room [OF inv fair sealed due0 who] by blast
  with claimable_cases [OF pay who(1) some takings_okD(1) [OF inv(3)] terms(4)] show ?thesis
    unfolding counts all by (simp add: max_def split: if_splits)
qed

text \<open>A claim keeps the division fair: it is a first claim, and the last one takes what is left.\<close>

lemma claim_revenue_fair:
  assumes run: "claim_revenue e cid who s = Inr s'"
    and inv: "core_inv now (core s)" "ledger_ok (sealed (core s)) (ledger s)" "takings_ok (purse s)" and fair: "fair s cid"
  shows "fair s' cid"
proof -
  let ?claimed = "get_revenue_claimed s cid" and ?pool = "get_revenue_pool s cid"
  let ?ct = "get_contribution s cid" and ?D = "get_contributor_revenue_distributed s cid"
  from claim_revenue_purse [OF run] obtain c due0 pay where
    camp: "get_campaign s cid = Some c" "c_funds_withdrawn c" "?ct who \<noteq> 0" and
    due0: "contributor_due (?ct who) ?pool (c_revenue_share_percentage c) (c_effective_amount_raised c) = Inr due0"
      "?claimed who < due0" "revenue_claimable c cid who (due0 - ?claimed who) s = Inr pay" "0 < pay" and
    after: "get_revenue_claimed s' = (get_revenue_claimed s)(cid := ?claimed(who := ?claimed who + pay))"
      "get_contributor_revenue_distributed s' = (get_contributor_revenue_distributed s)(cid := ?D + pay)"
      "get_revenue_pool s' = get_revenue_pool s" "core s' = core s" by metis
  let ?share = "c_revenue_share_percentage c" and ?eff = "c_effective_amount_raised c"
  let ?side = "contributor_side ?pool ?share" and ?last = "{a. ?ct a \<noteq> 0} = insert who {a. ?claimed a \<noteq> 0}"
  have sealed: "sealed (core s) cid = Some (?eff, ?share, ?ct, get_contributor_count s cid)"
    using camp(1, 2) by (simp add: sealed_eq)
  have who: "?claimed who = 0"
  proof (rule ccontr)
    assume "?claimed who \<noteq> 0"
    with fair sealed due0(1, 2) show False unfolding fair_def by fastforce
  qed
  obtain due where due: "due who = due0" "\<And>a. ?claimed a \<noteq> 0 \<Longrightarrow> ?claimed a = due a"
    "\<And>a. a = who \<or> ?claimed a \<noteq> 0 \<Longrightarrow> contributor_due (?ct a) ?pool ?share ?eff = Inr (due a)"
    and fits: "?D + due0 \<le> ?side"
    using fair_room [OF inv fair sealed due0(1) who camp(3)] by blast
  have pay: "if ?last then pay = ?side - ?D else pay = due0"
    by (rule first_claim_pays [OF inv fair camp(1, 2) due0(1) who camp(3)]) (use due0(3) who in simp)
  have due_pay: "due0 \<le> pay" using pay fits by (auto split: if_splits)
  have claimed': "get_revenue_claimed s' cid a = (if a = who then pay else ?claimed a)" for a by (simp add: after(1) who)
  have everyone: "(\<forall>b. ?ct b \<noteq> 0 \<longrightarrow> get_revenue_claimed s' cid b \<noteq> 0) \<longleftrightarrow> ?last"
    using claimants_among(2) [OF inv(1, 2), of cid] camp(3) due0(4) by (auto simp: claimed')
  have D': "get_contributor_revenue_distributed s' cid = ?D + pay" by (simp add: after(2))
  show ?thesis
    unfolding fair_def after(3, 4)
  proof (intro exI conjI allI impI)
    show "sealed (core s) cid = Some (?eff, ?share, ?ct, get_contributor_count s cid)" by (rule sealed)
    fix a
    assume "get_revenue_claimed s' cid a \<noteq> 0"
    then have a: "a = who \<or> ?claimed a \<noteq> 0" by (auto simp: claimed' split: if_splits)
    show "contributor_due (?ct a) ?pool ?share ?eff = Inr (due a)" by (rule due(3) [OF a])
    have exact: "get_revenue_claimed s' cid a = (if a = who then pay else due a)"
      using a due(2) [of a] unfolding claimed' by auto
    then show "due a \<le> get_revenue_claimed s' cid a" using due_pay due(1) by (cases "a = who") simp_all
    assume "\<exists>b. ?ct b \<noteq> 0 \<and> get_revenue_claimed s' cid b = 0"
    then have "\<not> ?last" using everyone by blast
    with pay exact due(1) show "get_revenue_claimed s' cid a = due a" by (cases "a = who") simp_all
  next
    show "get_contributor_revenue_distributed s' cid \<le> ?side" using pay fits by (auto simp: D' split: if_splits)
    assume "(\<exists>b. ?ct b \<noteq> 0) \<and> (\<forall>b. ?ct b \<noteq> 0 \<longrightarrow> get_revenue_claimed s' cid b \<noteq> 0)"
    then have ?last using everyone by blast
    with pay show "get_contributor_revenue_distributed s' cid = ?side" by (simp add: D')
  qed
qed

text \<open>Whatever a claim would pay, the contributors' side still holds it.\<close>

lemma claim_within_side:
  assumes inv: "core_inv now (core s)" "ledger_ok (sealed (core s)) (ledger s)" "takings_ok (purse s)" and fair: "fair s cid"
    and camp: "get_campaign s cid = Some c" "c_funds_withdrawn c" "get_contribution s cid who \<noteq> 0"
    and due0: "contributor_due (get_contribution s cid who) (get_revenue_pool s cid)
        (c_revenue_share_percentage c) (c_effective_amount_raised c) = Inr due0" "get_revenue_claimed s cid who < due0"
    and pay: "revenue_claimable c cid who (due0 - get_revenue_claimed s cid who) s = Inr pay"
  shows "get_contributor_revenue_distributed s cid + pay
    \<le> contributor_side (get_revenue_pool s cid) (c_revenue_share_percentage c)"
proof -
  have sealed: "sealed (core s) cid = Some (c_effective_amount_raised c, c_revenue_share_percentage c,
      get_contribution s cid, get_contributor_count s cid)" using camp by (simp add: sealed_eq)
  have who: "get_revenue_claimed s cid who = 0"
  proof (rule ccontr)
    assume "get_revenue_claimed s cid who \<noteq> 0"
    with fair sealed due0 show False unfolding fair_def by fastforce
  qed
  obtain due where "get_contributor_revenue_distributed s cid + due0
      \<le> contributor_side (get_revenue_pool s cid) (c_revenue_share_percentage c)"
    using fair_room [OF inv fair sealed due0(1) who camp(3)] by blast
  moreover have "revenue_claimable c cid who due0 s = Inr pay" using pay who by simp
  from first_claim_pays [OF inv fair camp(1, 2) due0(1) who camp(3) this]
  have "pay = due0 \<or> pay = contributor_side (get_revenue_pool s cid) (c_revenue_share_percentage c)
      - get_contributor_revenue_distributed s cid" by (auto split: if_splits)
  ultimately show ?thesis by auto
qed

lemma unclaimed_fair:
  assumes inv: "core_inv now (core s)" "ledger_ok (sealed (core s)) (ledger s)" "takings_ok (purse s)"
    and camp: "get_campaign s cid = Some c" "c_funds_withdrawn c" and none: "\<forall>a. get_revenue_claimed s cid a = 0"
  shows "fair s cid"
proof -
  have sealed: "sealed (core s) cid = Some (c_effective_amount_raised c, c_revenue_share_percentage c,
      get_contribution s cid, get_contributor_count s cid)" using camp by (simp add: sealed_eq)
  have "get_contributor_revenue_distributed s cid = 0" using inv(2) none by (simp add: ledger_ok_state support_sum_def)
  with sealed none contributor_side_bounds(1) [OF takings_okD(1) [OF inv(3)] sealed_terms(4) [OF inv(1) sealed]]
  show ?thesis unfolding fair_def by auto
qed

lemma dispatch_fair:
  assumes run: "dispatch e k s = Inr s'" and ok: "config_ok (config s)"
    and inv: "core_inv (e_timestamp e) (core s)" "ledger_ok (sealed (core s)) (ledger s)" "takings_ok (purse s)"
    and fair: "fair s cid" and quiet: "\<forall>amt. k \<noteq> FundCall (DepositRevenue cid amt)"
  shows "fair s' cid" "get_revenue_pool s' cid = get_revenue_pool s cid"
proof -
  obtain t where t: "sealed (core s) cid = Some t" using fair unfolding fair_def by blast
  show "fair s' cid"
  proof (cases "\<exists>a. k = FundCall (ClaimRevenue cid a)")
    case True
    then obtain a where "claim_revenue e cid a s = Inr s'" using run by auto
    then show ?thesis by (rule claim_revenue_fair [OF _ inv fair])
  next
    case False
    with dispatch_payments [OF run ok inv(1, 2), of cid] t quiet
    show ?thesis by (intro fair_cong [OF fair _ _ dispatch_keeps_sealed [OF run ok inv(1)]]) auto
  qed
  show "get_revenue_pool s' cid = get_revenue_pool s cid"
  proof (cases "\<exists>a. k = FundCall (ClaimRevenue cid a)")
    case True
    then obtain a where "claim_revenue e cid a s = Inr s'" using run by auto
    then show ?thesis by (simp add: claim_revenue_elsewhere(1))
  next
    case False
    with dispatch_payments [OF run ok inv(1, 2), of cid] t quiet show ?thesis by blast
  qed
qed

section \<open>A run that shares revenue\<close>

text \<open>A run of a startup that shares its revenue: two backers, a withdrawal, a deposit, both claims.\<close>

definition g_created :: "balances state" where
  "g_created = invoke (demo_env 2000) (CampaignCall (CreateCampaign (demo_params
     \<lparr>p_category := EducationalStartup, p_has_revenue_sharing := True, p_revenue_share_percentage := 1000\<rparr>))) h_deployed"

definition g_funded :: "balances state" where
  "g_funded = invoke (demo_env 5000) (FundCall (Contribute 1 (Address 4) 40001))
     (invoke (demo_env 4000) (FundCall (Contribute 1 (Address 3) 60000))
     (invoke (demo_env 3000) (ReviewCall (VerifyCampaign 1)) g_created))"

definition g_deposited :: "balances state" where
  "g_deposited = invoke (demo_env 7000) (FundCall (DepositRevenue 1 100000))
     (invoke (demo_env 6000) (FundCall (WithdrawFunds 1)) g_funded)"

definition g_claimed :: "balances state" where
  "g_claimed = invoke (demo_env 9000) (FundCall (ClaimRevenue 1 (Address 4)))
     (invoke (demo_env 8000) (FundCall (ClaimRevenue 1 (Address 3))) g_deposited)"

lemma reachable_g: "reachable demo_host 7000 g_deposited"
  unfolding g_deposited_def g_funded_def g_created_def
  by (intro reachable_invoke [of 6000] reachable_invoke [of 5000] reachable_invoke [of 4000] reachable_invoke [of 3000]
      reachable_invoke [of 2000] reachable_invoke [OF reachable_deployed]) simp_all

lemma deposited_facts:
  "get_campaign g_deposited 1 = Some (demo_campaign\<lparr>c_max_contribution_per_user := 70000, c_funds_withdrawn := True, c_is_active := False\<rparr>)"
  "get_contribution g_deposited 1 a = (if a = Address 3 then 60000 else if a = Address 4 then 40001 else 0)"
  "get_revenue_pool g_deposited 1 = 100000" "get_revenue_claimed g_deposited 1 a = 0"
  "get_contributor_count g_deposited 1 = 2"
  by (simp_all add: g_deposited_def g_funded_def g_created_def history_defs eval_simps deposit_revenue_def)

lemma claimed_facts:
  "get_revenue_claimed g_claimed 1 a = (if a = Address 3 then 5999 else if a = Address 4 then 4001 else 0)"
  "get_contribution g_claimed 1 a = (if a = Address 3 then 60000 else if a = Address 4 then 40001 else 0)"
  by (simp_all add: g_claimed_def g_deposited_def g_funded_def g_created_def history_defs eval_simps deposit_revenue_def
      claim_revenue_def contributor_due_def revenue_claimable_def creator_share_def)

section \<open>Properties\<close>

text \<open>
  C27: The revenue books are exact. In every reachable state the total recorded as paid to a campaign's
  contributors is the sum of what each was paid, the recorded number of claimants is the number of those
  paid, and whoever was paid has a contribution to the campaign, which has been withdrawn.
\<close>

theorem revenue_books_exact:
  assumes "reachable h now s"
  shows "get_contributor_revenue_distributed s cid = support_sum (get_revenue_claimed s cid) \<and>
    get_contributor_revenue_claimants s cid = card {a. get_revenue_claimed s cid a \<noteq> 0} \<and>
    0 \<le> get_revenue_claimed s cid a \<and>
    (get_revenue_claimed s cid a \<noteq> 0 \<longrightarrow> get_contribution s cid a \<noteq> 0 \<and>
       (\<exists>c. get_campaign s cid = Some c \<and> c_funds_withdrawn c))"
proof -
  have "takings_ok (purse s)" using reachable_gauges [OF assms] by (simp add: gauges_ok_def)
  from takings_okD(3) [OF this, of cid a] reachable_ledger [OF assms] show ?thesis
    by (fastforce simp: ledger_ok_state sealed_eq)
qed

theorem revenue_books_exact_witness:
  "get_contributor_revenue_claimants g_claimed 1 = card {a. get_revenue_claimed g_claimed 1 a \<noteq> 0}"
proof -
  have "reachable demo_host 9000 g_claimed"
    unfolding g_claimed_def by (intro reachable_invoke [of 8000] reachable_invoke [OF reachable_g]) simp_all
  from revenue_books_exact [OF this] show ?thesis by blast
qed

text \<open>
  A stretch of a run without a deposit to one campaign: any calls of any entry points by anybody, with tokens
  that move in between.
\<close>

inductive quiet_run :: "'w host \<Rightarrow> u32 \<Rightarrow> u64 \<Rightarrow> 'w state \<Rightarrow> u64 \<Rightarrow> 'w state \<Rightarrow> bool" for h cid now s where
  quiet_start: "quiet_run h cid now s now s"
| quiet_call:
    "quiet_run h cid now s now' s' \<Longrightarrow> now' \<le> e_timestamp e \<Longrightarrow> host.truncate e = h \<Longrightarrow>
     \<forall>amt. k \<noteq> FundCall (DepositRevenue cid amt) \<Longrightarrow> quiet_run h cid now s (e_timestamp (e :: 'w env)) (invoke e k s')"
| quiet_tokens: "quiet_run h cid now s now' s' \<Longrightarrow> quiet_run h cid now s now' (s'\<lparr>st_world := wd\<rparr>)"

lemma quiet_run_fair:
  assumes "quiet_run h cid now s now' s'" "reachable h now s" "fair s cid"
  shows "reachable h now' s' \<and> fair s' cid \<and> get_revenue_pool s' cid = get_revenue_pool s cid \<and>
    sealed (core s') cid = sealed (core s) cid"
  using assms
proof induction
  case (quiet_call now' s' e k)
  then have IH: "reachable h now' s'" "fair s' cid" "get_revenue_pool s' cid = get_revenue_pool s cid"
    "sealed (core s') cid = sealed (core s) cid" by blast+
  have reach: "reachable h (e_timestamp e) (invoke e k s')" by (rule reachable.called [OF IH(1) quiet_call(2, 3)])
  note ok = reachable_config [OF IH(1)]
  note inv = core_inv_later [OF reachable_core [OF IH(1)] quiet_call(2)]
  have takings: "takings_ok (purse s')" using reachable_gauges [OF IH(1)] by (simp add: gauges_ok_def)
  show ?case
  proof (cases "dispatch e k s'")
    case (Inl f)
    with IH reach show ?thesis by (simp add: invoke_def)
  next
    case (Inr s'')
    note step = dispatch_fair [OF Inr ok inv reachable_ledger [OF IH(1)] takings IH(2) quiet_call(4)]
    obtain t where "sealed (core s') cid = Some t" using IH(2) unfolding fair_def by blast
    then have "sealed (core s'') cid = sealed (core s') cid"
      using keeps_sealedD [OF dispatch_keeps_sealed [OF Inr ok inv]] by simp
    with step IH reach Inr show ?thesis by (simp add: invoke_def)
  qed
next
  case (quiet_tokens now' s' wd)
  then have IH: "reachable h now' s'" "fair s' cid" "get_revenue_pool s' cid = get_revenue_pool s cid"
    "sealed (core s') cid = sealed (core s) cid" by blast+
  have same: "same_payments cid s' (s'\<lparr>st_world := wd\<rparr>)" "get_revenue_pool (s'\<lparr>st_world := wd\<rparr>) = get_revenue_pool s'"
    "core (s'\<lparr>st_world := wd\<rparr>) = core s'"
    by (simp_all add: same_payments_def purse_frame core_frame flip: purse_fields)
  have "fair (s'\<lparr>st_world := wd\<rparr>) cid"
    by (rule fair_cong [OF IH(2) same(1)]) (simp_all add: same keeps_sealed_def)
  with IH same reachable.tokens_moved [OF IH(1)] show ?case by simp
qed simp

text \<open>
  C26: Revenue shares fit between deposits. From a state in which nobody has claimed from the pool of a withdrawn
  campaign, as long as no deposit is made to it, whatever calls follow: the contributors together are never paid
  more than their side of the pool, everyone who claims gets at least the share of the pool, and when all
  contributors have claimed they have been paid exactly their side, the rounding dust included.
\<close>

theorem revenue_claims_fit:
  assumes "reachable h now s" "get_campaign s cid = Some c" "c_funds_withdrawn c"
    and "\<forall>a. get_revenue_claimed s cid a = 0" "quiet_run h cid now s now' s'"
  shows "get_contributor_revenue_distributed s' cid
      \<le> contributor_side (get_revenue_pool s cid) (c_revenue_share_percentage c) \<and>
    (get_revenue_claimed s' cid a \<noteq> 0 \<longrightarrow>
       (\<exists>due. contributor_due (get_contribution s cid a) (get_revenue_pool s cid) (c_revenue_share_percentage c)
          (c_effective_amount_raised c) = Inr due \<and> due \<le> get_revenue_claimed s' cid a)) \<and>
    ((\<exists>b. get_contribution s cid b \<noteq> 0) \<and>
     (\<forall>b. get_contribution s cid b \<noteq> 0 \<longrightarrow> get_revenue_claimed s' cid b \<noteq> 0) \<longrightarrow>
       get_contributor_revenue_distributed s' cid
         = contributor_side (get_revenue_pool s cid) (c_revenue_share_percentage c))"
proof -
  have "takings_ok (purse s)" using reachable_gauges [OF assms(1)] by (simp add: gauges_ok_def)
  from unclaimed_fair [OF reachable_core [OF assms(1)] reachable_ledger [OF assms(1)] this assms(2-4)]
  have "fair s cid" .
  from quiet_run_fair [OF assms(5, 1) this] have "fair s' cid" "get_revenue_pool s' cid = get_revenue_pool s cid"
    "sealed (core s') cid = sealed (core s) cid" by blast+
  moreover have "sealed (core s) cid = Some (c_effective_amount_raised c, c_revenue_share_percentage c,
      get_contribution s cid, get_contributor_count s cid)" using assms(2, 3) by (simp add: sealed_eq)
  ultimately show ?thesis unfolding fair_def by auto
qed

lemma quiet_g: "quiet_run demo_host 1 7000 g_deposited 9000 g_claimed"
proof -
  have "quiet_run demo_host 1 7000 g_deposited 8000 (invoke (demo_env 8000) (FundCall (ClaimRevenue 1 (Address 3))) g_deposited)"
    using quiet_call [OF quiet_start, of 7000 "demo_env 8000" demo_host "FundCall (ClaimRevenue 1 (Address 3))" 1] by simp
  from quiet_call [OF this, of "demo_env 9000" "FundCall (ClaimRevenue 1 (Address 4))"] show ?thesis
    unfolding g_claimed_def by simp
qed

theorem revenue_claims_fit_witness: "get_contributor_revenue_distributed g_claimed 1 = 10000"
proof -
  have all: "\<exists>b. get_contribution g_deposited 1 b \<noteq> 0"
    "\<forall>b. get_contribution g_deposited 1 b \<noteq> 0 \<longrightarrow> get_revenue_claimed g_claimed 1 b \<noteq> 0"
    by (auto simp: deposited_facts claimed_facts split: if_splits)
  have "get_contributor_revenue_distributed g_claimed 1 = contributor_side (get_revenue_pool g_deposited 1) 1000"
    using revenue_claims_fit [OF reachable_g deposited_facts(1) _ _ quiet_g, of "Address 3"] all
    by (simp add: deposited_facts(4) demo_campaign_fields)
  then show ?thesis by (simp add: deposited_facts(3) contributor_side_def)
qed

section \<open>Claims beyond the pool\<close>

text \<open>The first claim of the last contributor uses up the contributors' side of the pool.\<close>

lemma last_claim_exhausts:
  assumes run: "claim_revenue e cid b s = Inr s1" and inv: "core_inv now (core s)"
    and last: "get_revenue_claimed s cid b = 0" "get_contributor_count s cid \<le> get_contributor_revenue_claimants s cid + 1"
  obtains c cs where "get_campaign s cid = Some c" "c_funds_withdrawn c"
    "creator_share (get_revenue_pool s cid) (c_revenue_share_percentage c) = Inr cs"
    "get_revenue_pool s cid \<le> cs + get_contributor_revenue_distributed s1 cid"
proof -
  from claim_revenue_purse [OF run] obtain c due pay where c: "get_campaign s cid = Some c" "c_funds_withdrawn c"
    and ct: "get_contribution s cid b \<noteq> 0"
    and pay: "revenue_claimable c cid b (due - get_revenue_claimed s cid b) s = Inr pay"
    and D: "get_contributor_revenue_distributed s1 = (get_contributor_revenue_distributed s)
       (cid := get_contributor_revenue_distributed s cid + pay)" by metis
  have "sealed (core s) cid = Some (c_effective_amount_raised c, c_revenue_share_percentage c,
      get_contribution s cid, get_contributor_count s cid)" using c by (simp add: sealed_eq)
  from sealed_terms(2, 5) [OF inv this] ct have "0 < get_contributor_count s cid" by (auto simp: card_gt_0_iff)
  with pay last obtain cs where cs: "creator_share (get_revenue_pool s cid) (c_revenue_share_percentage c) = Inr cs"
    "get_revenue_pool s cid - cs - get_contributor_revenue_distributed s cid \<le> pay"
    by (auto simp: revenue_claimable_def Let_def res_simps checked_eq_Some split: if_splits)
  have "get_revenue_pool s cid \<le> cs + get_contributor_revenue_distributed s1 cid" using cs(2) by (simp add: D)
  from that [OF c cs(1) this] show thesis .
qed

text \<open>Without a deposit the pool stays and the total paid to contributors only grows.\<close>

lemma dispatch_distributed:
  assumes run: "dispatch e k s = Inr s'" and ok: "config_ok (config s)"
    and inv: "core_inv (e_timestamp e) (core s)" "ledger_ok (sealed (core s)) (ledger s)"
    and fixed: "sealed (core s) cid \<noteq> None" and quiet: "\<forall>amt. k \<noteq> FundCall (DepositRevenue cid amt)"
  shows "get_revenue_pool s' cid = get_revenue_pool s cid \<and>
    get_contributor_revenue_distributed s cid \<le> get_contributor_revenue_distributed s' cid"
proof (cases "\<exists>a. k = FundCall (ClaimRevenue cid a)")
  case True
  with run obtain a where "claim_revenue e cid a s = Inr s'" by auto
  from claim_revenue_purse [OF this] show ?thesis by (metis fun_upd_same less_add_same_cancel1 order_less_imp_le)
next
  case False
  with dispatch_payments [OF run ok inv, of cid] fixed quiet show ?thesis by (auto simp: same_payments_def)
qed

lemma quiet_run_distributed:
  assumes "quiet_run h cid now s now' s'" "reachable h now s" "sealed (core s) cid = Some t"
  shows "reachable h now' s' \<and> sealed (core s') cid = Some t \<and> get_revenue_pool s' cid = get_revenue_pool s cid \<and>
    get_contributor_revenue_distributed s cid \<le> get_contributor_revenue_distributed s' cid"
  using assms
proof induction
  case (quiet_call now' s' e k)
  then have IH: "reachable h now' s'" "sealed (core s') cid = Some t" "get_revenue_pool s' cid = get_revenue_pool s cid"
    "get_contributor_revenue_distributed s cid \<le> get_contributor_revenue_distributed s' cid" by blast+
  have reach: "reachable h (e_timestamp e) (invoke e k s')" by (rule reachable.called [OF IH(1) quiet_call(2, 3)])
  note ok = reachable_config [OF IH(1)]
  note inv = core_inv_later [OF reachable_core [OF IH(1)] quiet_call(2)]
  show ?case
  proof (cases "dispatch e k s'")
    case (Inr s'')
    have "get_revenue_pool s'' cid = get_revenue_pool s' cid \<and>
        get_contributor_revenue_distributed s' cid \<le> get_contributor_revenue_distributed s'' cid"
      by (rule dispatch_distributed [OF Inr ok inv reachable_ledger [OF IH(1)] _ quiet_call(4)]) (simp add: IH(2))
    with keeps_sealedD [OF dispatch_keeps_sealed [OF Inr ok inv] IH(2)] IH reach Inr show ?thesis
      by (simp add: invoke_def)
  qed (use IH reach in \<open>simp add: invoke_def\<close>)
next
  case (quiet_tokens now' s' wd)
  then have IH: "reachable h now' s'" "sealed (core s') cid = Some t" "get_revenue_pool s' cid = get_revenue_pool s cid"
    "get_contributor_revenue_distributed s cid \<le> get_contributor_revenue_distributed s' cid" by blast+
  have same: "get_revenue_pool (s'\<lparr>st_world := wd\<rparr>) = get_revenue_pool s'" "core (s'\<lparr>st_world := wd\<rparr>) = core s'"
    "get_contributor_revenue_distributed (s'\<lparr>st_world := wd\<rparr>) = get_contributor_revenue_distributed s'"
    by (simp_all add: purse_frame core_frame flip: purse_fields)
  show ?case using IH reachable.tokens_moved [OF IH(1)] unfolding same by blast
qed simp

text \<open>
  C39: Claims after the last first claim exceed the pool. When, in a reachable state, a contributor makes a
  first claim at which all contributors but possibly one are recorded as claimants, that claim is paid
  everything left of the contributors' side of the pool, whoever else still has a share in it: the creator's
  part and what the contributors have been paid then cover the whole pool. The contract does not remember
  this. Without any further deposit, whatever calls follow, each claim that succeeds (one of an earlier
  claimant whose share of a later deposit was outstanding) pays the contributors more than their side: the
  creator's part and their payments exceed the pool.
\<close>

theorem revenue_can_be_overpaid:
  assumes "reachable h now s" "now \<le> e_timestamp e" "host.truncate (e :: 'w env) = h"
    and last: "claim_revenue e cid b s = Inr s1" "get_revenue_claimed s cid b = 0"
      "get_contributor_count s cid \<le> get_contributor_revenue_claimants s cid + 1"
    and later: "quiet_run h cid (e_timestamp e) s1 now' s2" "claim_revenue (e' :: 'w env) cid a s2 = Inr s3"
  shows "\<exists>c cs. get_campaign s cid = Some c \<and>
    creator_share (get_revenue_pool s cid) (c_revenue_share_percentage c) = Inr cs \<and>
    get_revenue_pool s3 cid = get_revenue_pool s cid \<and>
    get_revenue_pool s cid \<le> cs + get_contributor_revenue_distributed s1 cid \<and>
    get_contributor_revenue_distributed s1 cid \<le> get_contributor_revenue_distributed s2 cid \<and>
    get_contributor_revenue_distributed s2 cid < get_contributor_revenue_distributed s3 cid \<and>
    get_revenue_pool s3 cid < cs + get_contributor_revenue_distributed s3 cid"
proof -
  from last_claim_exhausts [OF last(1) reachable_core [OF assms(1)] last(2, 3)] obtain c cs where
    c: "get_campaign s cid = Some c" "c_funds_withdrawn c"
    and cs: "creator_share (get_revenue_pool s cid) (c_revenue_share_percentage c) = Inr cs"
      "get_revenue_pool s cid \<le> cs + get_contributor_revenue_distributed s1 cid" .
  have reach: "reachable h (e_timestamp e) s1"
    using reachable.called [OF assms(1-3), of "FundCall (ClaimRevenue cid b)"] last(1) by (simp add: invoke_def)
  have "core s1 = core s" by (rule claim_revenue_core [OF last(1)])
  then obtain t where t: "sealed (core s1) cid = Some t" using c by (simp add: sealed_def core_fields)
  from quiet_run_distributed [OF later(1) reach t] claim_revenue_elsewhere(1) [OF last(1)]
    claim_revenue_elsewhere(1) [OF later(2)]
  have "get_revenue_pool s3 cid = get_revenue_pool s cid"
    "get_contributor_revenue_distributed s1 cid \<le> get_contributor_revenue_distributed s2 cid" by simp_all
  moreover from claim_revenue_purse [OF later(2)]
  have "get_contributor_revenue_distributed s2 cid < get_contributor_revenue_distributed s3 cid"
    by (metis fun_upd_same less_add_same_cancel1)
  ultimately show ?thesis using c(1) cs by auto
qed

text \<open>
  Contributions of 60000 and 40001 and a share of 10 percent: the first contributor claims, the creator deposits
  again, the second claims for the first time, and the first claims what the second deposit added.
\<close>

definition g_again :: "balances state" where
  "g_again = invoke (demo_env 9000) (FundCall (DepositRevenue 1 100000))
     (invoke (demo_env 8000) (FundCall (ClaimRevenue 1 (Address 3))) g_deposited)"

definition g_last :: "balances state" where
  "g_last = invoke (demo_env 10000) (FundCall (ClaimRevenue 1 (Address 4))) g_again"

lemma reachable_again: "reachable demo_host 9000 g_again"
  unfolding g_again_def by (intro reachable_invoke [of 8000] reachable_invoke [OF reachable_g]) simp_all

lemmas again_defs = g_again_def g_deposited_def g_funded_def g_created_def history_defs

lemma again_facts:
  "get_campaign g_again 1 = Some (demo_campaign\<lparr>c_max_contribution_per_user := 70000, c_funds_withdrawn := True, c_is_active := False\<rparr>)"
  "get_revenue_pool g_again 1 = 200000" "get_revenue_claimed g_again 1 (Address 4) = 0"
  "get_contributor_count g_again 1 = 2" "get_contributor_revenue_claimants g_again 1 = 1"
  by (simp_all add: again_defs eval_simps deposit_revenue_def claim_revenue_def contributor_due_def revenue_claimable_def
      creator_share_def)

lemma again_claims:
  "is_ok (claim_revenue (demo_env 10000) 1 (Address 4) g_again)"
  "is_ok (claim_revenue (demo_env 11000) 1 (Address 3) g_last)"
  by (simp_all add: g_last_def again_defs eval_simps deposit_revenue_def claim_revenue_def contributor_due_def
      revenue_claimable_def creator_share_def)

theorem revenue_can_be_overpaid_witness:
  "\<exists>s1 s3. reachable demo_host 10000 s1 \<and> claim_revenue (demo_env 11000) 1 (Address 3) s1 = Inr s3 \<and>
     creator_share 200000 1000 = Inr 180000 \<and> get_revenue_pool s3 1 = 200000 \<and>
     200000 < 180000 + get_contributor_revenue_distributed s3 1"
proof -
  have last: "claim_revenue (demo_env 10000) 1 (Address 4) g_again = Inr g_last"
    using again_claims(1) dispatch_eq_invoke [of "demo_env 10000" "FundCall (ClaimRevenue 1 (Address 4))" g_again]
    by (simp add: g_last_def)
  obtain s3 where s3: "claim_revenue (demo_env 11000) 1 (Address 3) g_last = Inr s3"
    using is_okE [OF again_claims(2)] .
  have share: "creator_share 200000 1000 = Inr 180000"
    by (simp add: creator_share_def checked_simps const_defs in_i128_def i128_min_def i128_max_def)
  have reach: "reachable demo_host 10000 g_last"
    unfolding g_last_def by (rule reachable_invoke [OF reachable_again]) simp
  have more: "get_contributor_count g_again 1 \<le> get_contributor_revenue_claimants g_again 1 + 1"
    by (simp add: again_facts)
  from revenue_can_be_overpaid [OF reachable_again _ _ last again_facts(3) more quiet_start s3] share
  have "get_revenue_pool s3 1 = 200000" "200000 < 180000 + get_contributor_revenue_distributed s3 1"
    by (simp_all add: again_facts(1, 2) demo_campaign_fields)
  with reach s3 share show ?thesis by blast
qed

end
