(* ===== verification/FuzzRevenue.thy ===== *)
theory FuzzRevenue
  imports Fuzz Shares
begin

text \<open>
  The fuzz target \<^verbatim>\<open>fuzz_revenue.rs\<close>: a startup is funded by up to eight backers and withdrawn, revenue is
  deposited, and the backers and the creator claim in an arbitrary order. Its property holds because all deposits
  come before the claims, between which the shares fit the pool (theory \<^verbatim>\<open>Shares\<close>).
\<close>

section \<open>The target\<close>

record revenue_input =
  fr_share_raw :: u32
  fr_num_contributors_raw :: nat
  fr_contribution_amounts :: "u32 list"
  fr_deposit_amounts :: "u32 list"
  fr_claim_order :: "nat list"

text \<open>The funding loop; \<open>person i\<close> is the address generated for the \<open>i\<close>-th contributor.\<close>

definition raw_amount :: "u32 list \<Rightarrow> nat \<Rightarrow> u32" where
  "raw_amount amounts i = (if i < length amounts then amounts ! i else 1)"

primrec fund_all ::
  "'w env \<Rightarrow> (address \<Rightarrow> i128 \<Rightarrow> 'w \<Rightarrow> 'w) \<Rightarrow> (nat \<Rightarrow> address) \<Rightarrow> u32 \<Rightarrow> u32 list \<Rightarrow> nat list
   \<Rightarrow> address list \<Rightarrow> 'w run \<Rightarrow> address list \<times> 'w run" where
  "fund_all e mint person cid amounts [] contributors r = (contributors, r)"
| "fund_all e mint person cid amounts (i # idxs) contributors r =
    (let amt = int (raw_amount amounts i) mod 150000 + 1;
         r1 = minted mint (person i) amt r;
         k = FundCall (Contribute cid (person i) amt);
         contributors' = (if is_ok (dispatch e k (fst r1)) then contributors @ [person i] else contributors) in
     fund_all e mint person cid amounts idxs contributors' (attempt e k r1))"

text \<open>The claims, in an arbitrary order and with repetitions.\<close>

primrec claim_all :: "'w env \<Rightarrow> u32 \<Rightarrow> address list \<Rightarrow> nat list \<Rightarrow> 'w run \<Rightarrow> 'w run" where
  "claim_all e cid contributors [] r = r"
| "claim_all e cid contributors (idx # idxs) r =
    (if contributors = [] then r
     else claim_all e cid contributors idxs
            (attempt e (FundCall (ClaimRevenue cid (contributors ! (idx mod length contributors)))) r))"

definition fuzz_revenue ::
  "'w env \<Rightarrow> (address \<Rightarrow> i128 \<Rightarrow> 'w \<Rightarrow> 'w) \<Rightarrow> address \<Rightarrow> address \<Rightarrow> address \<Rightarrow> (nat \<Rightarrow> address) \<Rightarrow> 'w \<Rightarrow> revenue_input \<Rightarrow> 'w run" where
  "fuzz_revenue e mint tok admin creator person w input =
    gate e (ConfigCall (Init admin tok 0)) (\<lambda>r1.
      let params = fuzz_params creator ''Fuzz revenue target'' 100000 30 EducationalStartup True
                     (fr_share_raw input mod 5000 + 1) in
      gate_create e params (\<lambda>cid.
      gate e (ReviewCall (VerifyCampaign cid)) (\<lambda>r3.
        let (contributors, r4) = fund_all e mint person cid (fr_contribution_amounts input)
                                   [0..<fr_num_contributors_raw input mod 8 + 1] [] r3 in
        gate e (FundCall (WithdrawFunds cid)) (\<lambda>r5.
          let deposits = map (\<lambda>raw. int raw + 1) (take 10 (fr_deposit_amounts input));
              r6 = minted mint creator (max (sum_list deposits) 1) r5;
              r7 = fold (\<lambda>amt. attempt e (FundCall (DepositRevenue cid amt))) deposits r6;
              r8 = claim_all e cid contributors (take 20 (fr_claim_order input)) r7 in
          attempt e (FundCall (ClaimCreatorRevenue cid)) r8) r4)) r1)
      (empty_state w, [])"

section \<open>Before the claims\<close>

text \<open>A withdrawn campaign of which nothing was claimed yet.\<close>

definition unclaimed :: "'w state \<Rightarrow> u32 \<Rightarrow> bool" where
  "unclaimed s cid \<longleftrightarrow> sealed (core s) cid \<noteq> None \<and> (\<forall>a. get_revenue_claimed s cid a = 0) \<and>
     get_creator_revenue_claimed s cid = 0"

text \<open>Nothing can have been claimed before the withdrawal.\<close>

lemma withdrawal_unclaimed:
  assumes "reachable h now s" "withdraw_funds e cid s = Inr s'" "now \<le> e_timestamp e" "host.truncate e = h"
  shows "unclaimed s' cid"
proof -
  have take: "takings s' = takings s" by (rule fund_calls_takings(7) [OF assms(2)])
  then have claims: "get_revenue_claimed s' = get_revenue_claimed s" "get_creator_revenue_claimed s' = get_creator_revenue_claimed s"
    by (simp_all add: takings_def purse_fields)
  obtain c where camp: "get_campaign s cid = Some c" "\<not> c_funds_withdrawn c" "core s' = k_withdraw cid c (core s)"
    using withdraw_funds_core [OF assms(2)] by metis
  then have blank: "sealed (core s) cid = None" "l_raised (till s) cid = Some (False, c_effective_amount_raised c)"
    by (simp_all add: sealed_def core_fields till_fields raised_view_def)
  have none: "get_revenue_claimed s cid a = 0" for a
    using reachable_ledger [OF assms(1)] blank(1) by (fastforce simp: ledger_ok_state)
  have d: "drawers_ok (till s)" using drawers_invariant.reachable_all [OF assms(1)] by blast
  have "l_taken (till s) cid = 0" using drawers_okD(4) [OF d, of cid] blank(2) by simp
  then have "get_creator_revenue_claimed s cid = 0" by (simp add: till_fields)
  with none show ?thesis
    by (simp add: unclaimed_def claims camp(3) sealed_def k_withdraw_def)
qed

lemma deposit_unclaimed:
  assumes "unclaimed (fst r) cid"
  shows "unclaimed (fst (attempt e (FundCall (DepositRevenue cid amt)) r)) cid"
proof (cases "deposit_revenue e cid amt (fst r)")
  case (Inl f)
  with assms show ?thesis by (simp add: attempt_def invoke_def)
next
  case (Inr s')
  have "ledger s' = ledger (fst r)" using revenue_takings(1) [OF Inr] by blast
  moreover have "core s' = core (fst r)" by (rule deposit_revenue_core [OF Inr])
  ultimately show ?thesis using assms Inr by (simp add: attempt_def invoke_def unclaimed_def ledger_fields)
qed

lemma minted_unclaimed: "unclaimed (fst r) cid \<Longrightarrow> unclaimed (fst (minted mint a amt r)) cid"
  by (simp add: unclaimed_def minted_def core_frame flip: purse_fields) (simp add: purse_frame)

lemma gate_on_stage:
  assumes "fuzz_host e mint tok" "on_stage e admin creator n r" "n \<le> 1000" "drill k" "h_self e \<notin> signers k (fst r)"
    and rest: "\<And>s'. dispatch e k (fst r) = Inr s' \<Longrightarrow> fst (attempt e k r) = s' \<Longrightarrow> on_stage e admin creator (n + 1) (attempt e k r) \<Longrightarrow>
      never_aborts e (rest (attempt e k r))"
  shows "never_aborts e (gate e k rest r)"
proof -
  note stage = on_stage_attempt [OF assms(1-5)]
  show ?thesis
  proof (cases "dispatch e k (fst r)")
    case (Inl f)
    with on_stage_never_aborts [OF stage] show ?thesis by (simp add: gate_def)
  next
    case (Inr s')
    then have "fst (attempt e k r) = s'" by (simp add: attempt_def invoke_def)
    from rest [OF Inr this stage] Inr show ?thesis by (simp add: gate_def)
  qed
qed

lemma fund_all_on_stage:
  assumes "fuzz_host e mint tok" "\<And>i. person i \<noteq> h_self e" "h_self e \<notin> set contributors"
    and "on_stage e admin creator n r" "n + length idxs \<le> 1000"
  shows "h_self e \<notin> set (fst (fund_all e mint person cid amounts idxs contributors r)) \<and>
    on_stage e admin creator (n + length idxs) (snd (fund_all e mint person cid amounts idxs contributors r))"
  using assms(3-5)
proof (induction idxs arbitrary: contributors n r)
  case (Cons i idxs)
  let ?amt = "int (raw_amount amounts i) mod 150000 + 1"
  let ?r1 = "minted mint (person i) ?amt r"
  let ?k = "FundCall (Contribute cid (person i) ?amt)"
  let ?cs = "if is_ok (dispatch e ?k (fst ?r1)) then contributors @ [person i] else contributors"
  have stage1: "on_stage e admin creator n ?r1" by (rule on_stage_minted(1) [OF assms(1) Cons.prems(2)]) simp
  have stage2: "on_stage e admin creator (n + 1) (attempt e ?k ?r1)"
    by (rule on_stage_attempt [OF assms(1) stage1]) (use Cons.prems(3) assms(2) [of i] in auto)
  have others: "h_self e \<notin> set ?cs" using Cons.prems(1) assms(2) [of i] by auto
  have small: "n + 1 + length idxs \<le> 1000" using Cons.prems(3) by simp
  have size: "n + length (i # idxs) = n + 1 + length idxs" by simp
  from Cons.IH [OF others stage2 small] show ?case unfolding fund_all.simps Let_def size .
qed simp

lemma deposits_on_stage:
  assumes "fuzz_host e mint tok" "creator \<noteq> h_self e"
    and "on_stage e admin creator n r" "unclaimed (fst r) cid" "n + length amts \<le> 1000"
  shows "on_stage e admin creator (n + length amts) (fold (\<lambda>amt. attempt e (FundCall (DepositRevenue cid amt))) amts r) \<and>
    unclaimed (fst (fold (\<lambda>amt. attempt e (FundCall (DepositRevenue cid amt))) amts r)) cid"
  using assms(3-5)
proof (induction amts arbitrary: n r)
  case (Cons amt amts)
  let ?k = "FundCall (DepositRevenue cid amt)"
  have stage: "on_stage e admin creator (n + 1) (attempt e ?k r)"
    by (rule on_stage_attempt [OF assms(1) Cons.prems(1)])
      (use Cons.prems(3) assms(2) stage_signers(1) [OF Cons.prems(1), of cid] in auto)
  have small: "n + 1 + length amts \<le> 1000" using Cons.prems(3) by simp
  have "n + length (amt # amts) = n + 1 + length amts" by simp
  with Cons.IH [OF stage deposit_unclaimed [OF Cons.prems(2)] small] show ?case by (simp only: fold_simps)
qed simp

section \<open>The claims\<close>

text \<open>While backers claim: a fair division, and the contract holds what is left of the pool.\<close>

definition payday :: "'w env \<Rightarrow> address \<Rightarrow> u32 \<Rightarrow> 'w run \<Rightarrow> bool" where
  "payday e creator cid r \<longleftrightarrow>
     reachable (host.truncate e) (e_timestamp e) (fst r) \<and> fair (fst r) cid \<and> get_creator_revenue_claimed (fst r) cid = 0 \<and>
     (\<forall>tok. get_campaign_token (fst r) cid = Some tok \<longrightarrow>
        get_revenue_pool (fst r) cid - get_contributor_revenue_distributed (fst r) cid
          \<le> balance_of e tok (h_self e) (st_world (fst r))) \<and>
     (\<forall>c. get_campaign (fst r) cid = Some c \<longrightarrow> c_creator c = creator) \<and> never_aborts e r"

lemma reachable_facts:
  assumes "reachable h now s"
  shows "config_ok (config s)" "core_inv now (core s)" "ledger_ok (sealed (core s)) (ledger s)" "takings_ok (purse s)"
  using reachable_config [OF assms] reachable_core [OF assms] reachable_ledger [OF assms] reachable_gauges [OF assms]
  by (simp_all add: gauges_ok_def)

lemma payday_opens:
  assumes host: "fuzz_host e mint tok" and stage: "on_stage e admin creator n r" and none: "unclaimed (fst r) cid"
  shows "payday e creator cid r"
proof -
  note run = on_stageD(1) [OF stage]
  note reach = honest_reachable [OF run]
  note facts = reachable_facts [OF reach]
  obtain c where camp: "get_campaign (fst r) cid = Some c" "c_funds_withdrawn c"
    using none by (auto simp: unclaimed_def sealed_def core_fields split: option.splits if_splits)
  have "fair (fst r) cid" by (rule unclaimed_fair [OF facts(2-4) camp]) (use none in \<open>simp add: unclaimed_def\<close>)
  moreover have "get_revenue_pool (fst r) cid - get_contributor_revenue_distributed (fst r) cid
      \<le> balance_of e tk (h_self e) (st_world (fst r))" if "get_campaign_token (fst r) cid = Some tk" for tk
  proof -
    have "keeps_books (host.truncate e)" using host truncate_host(3) [of e] by (simp add: fuzz_host_def)
    from owed_covered [OF run this that] camp(1)
    have "owed (till (fst r)) cid \<le> balance_of e tk (h_self e) (st_world (fst r))"
      using truncate_host(1, 2) [of e, OF refl] by simp
    moreover have "get_creator_revenue_claimed (fst r) cid = 0" using none by (simp add: unclaimed_def)
    ultimately show ?thesis using owed_parts(3) [OF reach, of cid] takings_okD(7) [OF facts(4), of cid] by simp
  qed
  ultimately show ?thesis
    using reach none on_stageD(5) [OF stage] on_stage_never_aborts [OF stage] by (auto simp: payday_def unclaimed_def)
qed

lemma payday_claim:
  assumes host: "fuzz_host e mint tok" "who \<noteq> h_self e" and day: "payday e creator cid r"
  shows "payday e creator cid (attempt e (FundCall (ClaimRevenue cid who)) r)"
proof -
  let ?k = "FundCall (ClaimRevenue cid who)" and ?s = "fst r"
  have reach: "reachable (host.truncate e) (e_timestamp e) ?s" and fair: "fair ?s cid" and none: "get_creator_revenue_claimed ?s cid = 0"
    and held: "\<And>tk. get_campaign_token ?s cid = Some tk \<Longrightarrow>
      get_revenue_pool ?s cid - get_contributor_revenue_distributed ?s cid \<le> balance_of e tk (h_self e) (st_world ?s)"
    and owner: "\<And>c. get_campaign ?s cid = Some c \<Longrightarrow> c_creator c = creator" and log: "never_aborts e r"
    using day unfolding payday_def by blast+
  note facts = reachable_facts [OF reach]
  have env: "e_auth e who" "keeps_books e" "pays_covered e" using host by (simp_all add: fuzz_host_def)
  have "trap_free (claim_revenue e cid who ?s)"
  proof (rule claim_revenue_trap_free [OF facts(1, 2, 4) env(1)])
    fix c tk due x
    assume camp: "get_campaign ?s cid = Some c" "c_funds_withdrawn c" and tk: "get_campaign_token ?s cid = Some tk"
      and due: "get_contribution ?s cid who \<noteq> 0" "contributor_due (get_contribution ?s cid who) (get_revenue_pool ?s cid)
        (c_revenue_share_percentage c) (c_effective_amount_raised c) = Inr due" "get_revenue_claimed ?s cid who < due"
      and pay: "revenue_claimable c cid who (due - get_revenue_claimed ?s cid who) ?s = Inr x" "0 < x"
    have "sealed (core ?s) cid = Some (c_effective_amount_raised c, c_revenue_share_percentage c,
      get_contribution ?s cid, get_contributor_count ?s cid)" using camp by (simp add: sealed_eq)
    from contributor_side_bounds(2) [OF takings_okD(1) [OF facts(4)] sealed_terms(4) [OF facts(2) this]]
    have "x \<le> balance_of e tk (h_self e) (st_world ?s)"
      using claim_within_side [OF facts(2-4) fair camp due pay(1)] held [OF tk] by (smt (verit))
    with env(3) pay(2) show "h_transfer e tk (h_self e) who x (st_world ?s) \<noteq> None"
      unfolding pays_covered_def by simp
  qed
  then have typed: "never_aborts e (attempt e ?k r)"
    using log by (auto simp: never_aborts_def attempt_def trap_free_def)
  have next_state: "reachable (host.truncate e) (e_timestamp e) (invoke e ?k ?s)"
    by (rule reachable.called [OF reach order_refl refl])
  show ?thesis
  proof (cases "claim_revenue e cid who ?s")
    case (Inl f)
    then have "fst (attempt e ?k r) = ?s" by (simp add: attempt_def invoke_def)
    with day typed show ?thesis by (simp add: payday_def)
  next
    case (Inr s')
    from claim_revenue_purse [OF Inr] obtain pay tk where pay: "0 < pay" "get_campaign_token ?s cid = Some tk"
      "h_transfer e tk (h_self e) who pay (st_world ?s) = Some (st_world s')"
      "get_contributor_revenue_distributed s' = (get_contributor_revenue_distributed ?s)
         (cid := get_contributor_revenue_distributed ?s cid + pay)"
      "get_revenue_pool s' = get_revenue_pool ?s" "core s' = core ?s" by metis
    have "l_token (till s') = l_token (till ?s)" by (subst claim_revenue_till [OF Inr]) simp
    then have token: "get_campaign_token s' cid = Some tk" using pay(2) by (simp add: till_fields)
    have camps: "get_campaign s' = get_campaign ?s" using arg_cong [OF pay(6), of k_camp] by (simp add: core_fields)
    have "balance_of e tk (h_self e) (st_world ?s) - pay \<le> balance_of e tk (h_self e) (st_world s')"
      using paid_out [OF env(2) pay(3), of tk] pay(1) by simp
    then have "get_revenue_pool s' cid - get_contributor_revenue_distributed s' cid \<le> balance_of e tk (h_self e) (st_world s')"
      using held [OF pay(2)] by (simp add: pay(4, 5))
    moreover have "fair s' cid" by (rule claim_revenue_fair [OF Inr facts(2-4) fair])
    moreover have "get_creator_revenue_claimed s' cid = 0" using none by (simp add: claim_revenue_claimants(2) [OF Inr])
    moreover have "fst (attempt e ?k r) = s'" using Inr by (simp add: attempt_def invoke_def)
    ultimately show ?thesis
      using next_state typed owner token Inr by (simp add: payday_def camps invoke_def)
  qed
qed

lemma claim_all_payday:
  assumes "fuzz_host e mint tok" "h_self e \<notin> set contributors" "payday e creator cid r"
  shows "payday e creator cid (claim_all e cid contributors idxs r)"
  using assms(3)
proof (induction idxs arbitrary: r)
  case (Cons idx idxs)
  have "contributors ! (idx mod length contributors) \<noteq> h_self e" if "contributors \<noteq> []"
    using assms(2) nth_mem [of "idx mod length contributors" contributors] that by fastforce
  with Cons.IH payday_claim [OF assms(1) _ Cons.prems] Cons.prems show ?case by simp
qed simp

lemma payday_closes:
  assumes host: "fuzz_host e mint tok" "creator \<noteq> h_self e" and day: "payday e creator cid r"
  shows "never_aborts e (attempt e (FundCall (ClaimCreatorRevenue cid)) r)"
proof -
  let ?s = "fst r"
  have reach: "reachable (host.truncate e) (e_timestamp e) ?s" and fair: "fair ?s cid" and none: "get_creator_revenue_claimed ?s cid = 0"
    and held: "\<And>tk. get_campaign_token ?s cid = Some tk \<Longrightarrow>
      get_revenue_pool ?s cid - get_contributor_revenue_distributed ?s cid \<le> balance_of e tk (h_self e) (st_world ?s)"
    and owner: "\<And>c. get_campaign ?s cid = Some c \<Longrightarrow> c_creator c = creator" and log: "never_aborts e r"
    using day unfolding payday_def by blast+
  note facts = reachable_facts [OF reach]
  have env: "e_auth e creator" "pays_covered e" using host by (simp_all add: fuzz_host_def)
  have "trap_free (claim_creator_revenue e cid ?s)"
  proof (rule claim_creator_revenue_trap_free [OF facts(1, 2, 4)])
    show "e_auth e (c_creator c)" if "get_campaign ?s cid = Some c" for c using owner [OF that] env(1) by simp
    fix c tk cs
    assume camp: "get_campaign ?s cid = Some c" and tk: "get_campaign_token ?s cid = Some tk"
      and cs: "creator_share (get_revenue_pool ?s cid) (c_revenue_share_percentage c) = Inr cs" "get_creator_revenue_claimed ?s cid < cs"
    from fair obtain eff share ct bk where sealed: "sealed (core ?s) cid = Some (eff, share, ct, bk)"
      and within: "get_contributor_revenue_distributed ?s cid \<le> contributor_side (get_revenue_pool ?s cid) share"
      unfolding fair_def by blast
    have share: "share = c_revenue_share_percentage c" using sealed camp by (simp add: sealed_eq)
    have "cs = get_revenue_pool ?s cid - contributor_side (get_revenue_pool ?s cid) share"
      using creator_share_eq(1) [OF cs(1) takings_okD(1) [OF facts(4)]] sealed_terms(4) [OF facts(2) sealed]
      by (simp add: contributor_side_def share)
    then have "cs \<le> balance_of e tk (h_self e) (st_world ?s)" using within held [OF tk] by simp
    with env(2) cs(2) none show "h_transfer e tk (h_self e) (c_creator c) (cs - get_creator_revenue_claimed ?s cid) (st_world ?s) \<noteq> None"
      unfolding pays_covered_def by simp
  qed
  with log show ?thesis by (auto simp: never_aborts_def attempt_def trap_free_def)
qed

section \<open>The property\<close>

text \<open>
  C28: The property of \<^verbatim>\<open>fuzz_revenue\<close>: whatever share, contributions and deposits, and in whatever order and however often
  the contributors claim, no funding, deposit or claim aborts (payments in beyond the payer's balance aside): the last claimant's
  remainder and the creator's share never exceed what the contract holds.
\<close>

theorem fuzz_revenue_property:
  assumes "fuzz_host e mint tok" "admin \<noteq> h_self e" "creator \<noteq> h_self e" "\<forall>i. person i \<noteq> h_self e"
    and "\<forall>t. 0 \<le> balance_of e t (h_self e) w"
  shows "never_aborts e (fuzz_revenue e mint tok admin creator person w input)"
  unfolding fuzz_revenue_def
proof (rule open_target [OF assms(1, 2, 5)], unfold Let_def, rule create_on_stage [OF assms(1)])
  fix cid r
  let ?funded = "fund_all e mint person cid (fr_contribution_amounts input) [0..<fr_num_contributors_raw input mod 8 + 1] []"
  let ?deposits = "map (\<lambda>raw. int raw + 1) (take 10 (fr_deposit_amounts input))"
  let ?paid_in = "\<lambda>r5. fold (\<lambda>amt. attempt e (FundCall (DepositRevenue cid amt))) ?deposits
    (minted mint creator (max (sum_list ?deposits) 1) r5)"
  assume stage: "on_stage e admin creator (1 + 1) r"
  show "never_aborts e (gate e (ReviewCall (VerifyCampaign cid)) (\<lambda>r3. case ?funded r3 of (contributors, r4) \<Rightarrow>
      gate e (FundCall (WithdrawFunds cid)) (\<lambda>r5. attempt e (FundCall (ClaimCreatorRevenue cid))
        (claim_all e cid contributors (take 20 (fr_claim_order input)) (?paid_in r5))) r4) r)"
  proof (rule gate_on_stage [OF assms(1) stage])
    show "h_self e \<notin> signers (ReviewCall (VerifyCampaign cid)) (fst r)" using stage_signers(2) [OF stage] assms(2) by simp
    let ?r3 = "attempt e (ReviewCall (VerifyCampaign cid)) r"
    assume "on_stage e admin creator (1 + 1 + 1) ?r3"
    then have verified: "on_stage e admin creator 3 ?r3" by simp
    obtain contributors r4 where r4: "?funded ?r3 = (contributors, r4)" by (cases "?funded ?r3")
    have "h_self e \<notin> set contributors \<and> on_stage e admin creator (3 + length [0..<fr_num_contributors_raw input mod 8 + 1]) r4"
      using fund_all_on_stage [where person = person and contributors = "[]" and cid = cid and
          idxs = "[0..<fr_num_contributors_raw input mod 8 + 1]" and amounts = "fr_contribution_amounts input",
          OF assms(1) assms(4) [rule_format] _ verified] r4 by simp
    then have funded: "h_self e \<notin> set contributors" "on_stage e admin creator 12 r4"
      by (auto intro: on_stage_later)
    have "never_aborts e (gate e (FundCall (WithdrawFunds cid)) (\<lambda>r5. attempt e (FundCall (ClaimCreatorRevenue cid))
        (claim_all e cid contributors (take 20 (fr_claim_order input)) (?paid_in r5))) r4)"
    proof (rule gate_on_stage [OF assms(1) funded(2)])
      show "h_self e \<notin> signers (FundCall (WithdrawFunds cid)) (fst r4)"
        using stage_signers(1) [OF funded(2), of cid] assms(3) by auto
      fix s'
      let ?r5 = "attempt e (FundCall (WithdrawFunds cid)) r4"
      assume run: "dispatch e (FundCall (WithdrawFunds cid)) (fst r4) = Inr s'" "fst ?r5 = s'" "on_stage e admin creator (12 + 1) ?r5"
      have "unclaimed (fst ?r5) cid"
        using withdrawal_unclaimed [OF honest_reachable [OF on_stageD(1) [OF funded(2)]], of e cid s'] run(1, 2) by simp
      then have ready: "unclaimed (fst (minted mint creator (max (sum_list ?deposits) 1) ?r5)) cid" by (rule minted_unclaimed)
      have "on_stage e admin creator (12 + 1) (minted mint creator (max (sum_list ?deposits) 1) ?r5)"
        by (rule on_stage_minted(1) [OF assms(1) run(3)]) simp
      then have "on_stage e admin creator (12 + 1 + length ?deposits) (?paid_in ?r5) \<and> unclaimed (fst (?paid_in ?r5)) cid"
        by (rule deposits_on_stage [OF assms(1, 3) _ ready]) simp
      then have "payday e creator cid (?paid_in ?r5)" using payday_opens [OF assms(1)] by blast
      from claim_all_payday [OF assms(1) funded(1) this]
      show "never_aborts e (attempt e (FundCall (ClaimCreatorRevenue cid))
          (claim_all e cid contributors (take 20 (fr_claim_order input)) (?paid_in ?r5)))"
        by (rule payday_closes [OF assms(1, 3)])
    qed simp_all
    with r4 show "never_aborts e (case ?funded ?r3 of (contributors, r4) \<Rightarrow>
      gate e (FundCall (WithdrawFunds cid)) (\<lambda>r5. attempt e (FundCall (ClaimCreatorRevenue cid))
        (claim_all e cid contributors (take 20 (fr_claim_order input)) (?paid_in r5))) r4)" by simp
  qed simp_all
qed (use assms(3) in \<open>simp_all add: fuzz_params_def\<close>)

theorem fuzz_revenue_property_witness:
  "never_aborts (demo_env 1000) (fuzz_revenue (demo_env 1000) demo_mint (Address 1) (Address 0) (Address 2) (\<lambda>i. Address (100 + i)) (\<lambda>_. 0)
     \<lparr>fr_share_raw = 1999, fr_num_contributors_raw = 2, fr_contribution_amounts = [60000, 50000, 7], fr_deposit_amounts = [1000, 333],
      fr_claim_order = [2, 0, 0, 1, 5]\<rparr>)"
  by (rule fuzz_revenue_property [OF demo_fuzz_host]) (simp_all add: balance_of_def)

end
