(* ===== verification/Payouts.thy ===== *)
theory Payouts
  imports Solvency
begin

text \<open>
  Milestone payouts over a run of claims: what the creator and the admin receive in the token contract
  when a plan is claimed, in any order and with verifications and failed attempts in between, as long as no
  contribution changes the amount raised. (\<open>late_contributions_stranded\<close> is what happens when one does.)
\<close>

section \<open>Plans\<close>

text \<open>A verification changes only the flag of a milestone, so the terms of a plan are fixed.\<close>

definition terms_of :: "milestone list \<Rightarrow> (u32 \<times> u32) list" where
  "terms_of ms = map (\<lambda>m. (m_id m, m_payout_bps m)) ms"

lemma terms_of_Cons: "terms_of (m # ms) = (m_id m, m_payout_bps m) # terms_of ms"
  by (simp add: terms_of_def)

lemma terms_maps: "map m_id ms = map fst (terms_of ms)" "map m_payout_bps ms = map snd (terms_of ms)"
  by (simp_all add: terms_of_def comp_def)

text \<open>What the claimed milestones of a plan weigh in an amount.\<close>

definition share_of :: "(u32 \<Rightarrow> bool) \<Rightarrow> (u32 \<times> u32) list \<Rightarrow> i128 \<Rightarrow> i128" where
  "share_of claimed plan amt = (\<Sum>(i, bps) \<leftarrow> plan. if claimed i then amt * int bps div 10000 else 0)"

lemma share_of_claimed:
  "sum_list (map (floor_share amt) (claimed_of s cid ms)) = share_of (is_milestone_claimed s cid) (terms_of ms) amt"
  by (induction ms) (simp_all add: share_of_def terms_of_def floor_share_def)

lemma share_of_none: "\<forall>i. \<not> claimed i \<Longrightarrow> share_of claimed plan amt = 0"
  by (induction plan) (auto simp: share_of_def)

lemma share_of_claim:
  assumes "distinct (map fst plan)" "(i, bps) \<in> set plan" "\<not> claimed i"
  shows "share_of (claimed(i := True)) plan amt = share_of claimed plan amt + amt * int bps div 10000"
  using assms
proof (induction plan)
  case (Cons t plan)
  have others: "share_of (claimed(i := True)) plan amt = share_of claimed plan amt" if "i \<notin> fst ` set plan"
    unfolding share_of_def by (rule arg_cong [of _ _ sum_list], rule map_cong) (use that in \<open>auto simp: image_iff\<close>)
  obtain j b where t: "t = (j, b)" by (cases t)
  show ?case
  proof (cases "j = i")
    case True
    with Cons.prems t have "i \<notin> fst ` set plan" "b = bps" by (auto simp: image_iff)
    with others True Cons.prems(3) t show ?thesis by (simp add: share_of_def)
  next
    case False
    with Cons t show ?thesis by (auto simp: share_of_def)
  qed
qed simp

text \<open>A plan as \<open>set_milestones\<close> accepts it.\<close>

definition sound_plan :: "(u32 \<times> u32) list \<Rightarrow> bool" where
  "sound_plan plan \<longleftrightarrow> plan \<noteq> [] \<and> distinct (map fst plan) \<and> (\<forall>(i, bps) \<in> set plan. 0 < bps) \<and>
     sum_list (map snd plan) = BPS_DENOMINATOR"

lemma set_milestones_sound:
  assumes "set_milestones e cid ms s = Inr s'"
  shows "sound_plan (terms_of ms)" "terms_of (get_campaign_milestones s' cid) = terms_of ms"
    "core s' = core s" "config s' = config s" "st_world s' = st_world s"
proof -
  note facts = milestones_partition [OF assms, of e ms s']
  then show "sound_plan (terms_of ms)"
    by (auto simp: sound_plan_def terms_of_def comp_def)
  show "terms_of (get_campaign_milestones s' cid) = terms_of ms" using facts by (simp add: terms_of_def comp_def)
  show "core s' = core s" by (rule set_milestones_core [OF assms])
  show "config s' = config s" by (rule config_calls.fund_call_obs [where e = e and k = "SetMilestones cid ms"]) (simp add: assms)
  show "st_world s' = st_world s" using arg_cong [OF milestone_plan_till(1) [OF assms], of l_world] by (simp add: till_fields)
qed

lemma mark_milestone_terms:
  "mark_milestone mid ms found upd = Inr (f, ms') \<Longrightarrow> terms_of ms' = terms_of upd @ terms_of ms"
  by (induction ms arbitrary: found upd) (auto simp: terms_of_def split: if_splits)

lemma verify_milestone_keeps:
  assumes "verify_milestone e a cid mid s = Inr s'"
  shows "terms_of (get_campaign_milestones s' cid) = terms_of (get_campaign_milestones s cid)"
    "is_milestone_claimed s' = is_milestone_claimed s" "purse s' = (purse s)\<lparr>p_milestones := p_milestones (purse s')\<rparr>"
    "core s' = core s" "config s' = config s"
proof -
  have "terms_of (p_milestones (purse s') cid) = terms_of (p_milestones (purse s) cid) \<and>
      purse s' = (purse s)\<lparr>p_milestones := p_milestones (purse s')\<rparr>"
    using assms
    apply (simp only: verify_milestone_def Let_def res_simps not_not purse_reads)
    apply clarify
    apply (drule mark_milestone_terms)
    apply (simp add: purse_frame terms_of_def [of "[]"])
    done
  then show "terms_of (get_campaign_milestones s' cid) = terms_of (get_campaign_milestones s cid)"
    and p: "purse s' = (purse s)\<lparr>p_milestones := p_milestones (purse s')\<rparr>" by (simp_all add: purse_fields)
  from arg_cong [OF p, of p_milestone_paid] show "is_milestone_claimed s' = is_milestone_claimed s"
    by (simp add: purse_fields)
  show "core s' = core s" by (rule verify_milestone_core [OF assms])
  show "config s' = config s" by (rule config_calls.fund_call_obs [where e = e and k = "VerifyMilestone a cid mid"]) (simp add: assms)
qed

text \<open>The claim that closes the campaign is the one that leaves no milestone unclaimed.\<close>

lemma claim_milestone_closes:
  assumes "claim_milestone e cid mid s = Inr s'" "get_campaign s cid = Some c"
  shows "core s' = (if all_others_claimed s cid mid (get_campaign_milestones s cid) then k_withdraw cid c (core s) else core s)"
proof -
  have same: "all_others_claimed (set_total_raised_global t (set_milestone_claimed cid mid s)) cid mid ms =
      all_others_claimed s cid mid ms" for t ms
    by (auto simp: all_others_claimed_def list_all_iff store_defs)
  show ?thesis
    using assms
    apply (simp only: claim_milestone_def Let_def res_simps not_not same)
    apply clarify
    apply (auto simp: core_frame k_withdraw_def not_less split: if_splits)
    done
qed

section \<open>Runs of claims\<close>

text \<open>What has been paid by the time the milestones \<open>claimed\<close> are claimed.\<close>

definition so_far :: "(u32 \<Rightarrow> bool) \<Rightarrow> (u32 \<times> u32) list \<Rightarrow> i128 \<Rightarrow> i128" where
  "so_far claimed plan amt = (if \<forall>(i, bps) \<in> set plan. claimed i then amt else share_of claimed plan amt)"

text \<open>
  The state \<open>s\<close> of such a run from \<open>s0\<close>, where campaign \<open>c\<close> had none of its plan claimed: \<open>net\<close> goes to
  its creator, \<open>fees\<close> to the admin, in the token \<open>tok\<close>.
\<close>

definition paying ::
  "'w host \<Rightarrow> u32 \<Rightarrow> campaign \<Rightarrow> address \<Rightarrow> address \<Rightarrow> (u32 \<times> u32) list \<Rightarrow> i128 \<Rightarrow> i128 \<Rightarrow> 'w state \<Rightarrow> 'w state \<Rightarrow> bool" where
  "paying h cid c tok admin plan net fees s0 s \<longleftrightarrow>
     terms_of (get_campaign_milestones s cid) = plan \<and> config s = config s0 \<and> get_campaign_token s cid = Some tok \<and>
     get_campaign s cid = Some (if \<forall>(i, bps) \<in> set plan. is_milestone_claimed s cid i
                                then c\<lparr>c_funds_withdrawn := True, c_is_active := False\<rparr> else c) \<and>
     balance_of h tok (c_creator c) (st_world s)
       = balance_of h tok (c_creator c) (st_world s0) + so_far (is_milestone_claimed s cid) plan net \<and>
     balance_of h tok admin (st_world s) = balance_of h tok admin (st_world s0) + so_far (is_milestone_claimed s cid) plan fees \<and>
     balance_of h tok (h_self h) (st_world s) = balance_of h tok (h_self h) (st_world s0)
       - so_far (is_milestone_claimed s cid) plan net - so_far (is_milestone_claimed s cid) plan fees \<and>
     get_total_raised_global s = get_total_raised_global s0
       - so_far (is_milestone_claimed s cid) plan net - so_far (is_milestone_claimed s cid) plan fees"

lemma so_far_claim:
  assumes "sound_plan plan" "(i, bps) \<in> set plan" "\<not> claimed i"
    and "if \<forall>(j, b) \<in> set plan. j = i \<or> claimed j then pay + share_of claimed plan amt = amt else pay = amt * int bps div 10000"
  shows "so_far (claimed(i := True)) plan amt = so_far claimed plan amt + pay"
proof -
  have none: "\<not> (\<forall>(j, b) \<in> set plan. claimed j)" using assms(2, 3) by fastforce
  have all: "(\<forall>(j, b) \<in> set plan. (claimed(i := True)) j) \<longleftrightarrow> (\<forall>(j, b) \<in> set plan. j = i \<or> claimed j)"
    by (rule ball_cong) (auto split: if_splits)
  have "distinct (map fst plan)" using assms(1) by (simp add: sound_plan_def)
  from share_of_claim [OF this assms(2), of claimed amt] assms(3, 4) show ?thesis
    unfolding so_far_def all using none by (auto split: if_splits)
qed

lemma claim_pays:
  assumes run: "claim_milestone e cid mid s = Inr s'" and st: "paying h cid c tok admin plan net fees s0 s"
    and plan: "sound_plan plan" and host: "keeps_books h" "host.truncate (e :: 'w env) = h" "get_admin s0 = Some admin"
      "distinct [admin, c_creator c, h_self h]"
    and amounts: "0 \<le> c_amount_raised c" "effective_platform_fee c s0 \<le> BPS_DENOMINATOR"
      "fees = (c_amount_raised c * int (effective_platform_fee c s0) + 9999) div 10000" "net = c_amount_raised c - fees"
  shows "paying h cid c tok admin plan net fees s0 s'"
proof -
  let ?ms = "get_campaign_milestones s cid" and ?claimed = "is_milestone_claimed s cid"
  have view: "terms_of ?ms = plan" "config s = config s0" "get_campaign_token s cid = Some tok" using st by (simp_all add: paying_def)
  from claim_milestone_purse [OF run] obtain c' m pay fee adm tk w where
    camp: "get_campaign s cid = Some c'" "\<not> c_funds_withdrawn c'" and
    m: "List.find (\<lambda>m. m_id m = mid) ?ms = Some m" "\<not> ?claimed mid" and
    pay: "milestone_payout s cid c' ?ms m = Inr (pay, fee)" "0 < pay" and
    ends: "get_admin s = Some adm" "get_campaign_token s cid = Some tk" and
    tr: "if 0 < fee then h_transfer e tk (h_self e) adm fee (st_world s) = Some w else w = st_world s"
      "h_transfer e tk (h_self e) (c_creator c') pay w = Some (st_world s')" and
    after: "get_total_raised_global s' = get_total_raised_global s - (fee + pay)"
      "is_milestone_claimed s' = (is_milestone_claimed s)(cid := ?claimed(mid := True))"
      "get_campaign_milestones s' = get_campaign_milestones s" by metis
  have live: "\<not> (\<forall>(i, bps) \<in> set plan. ?claimed i)" "c' = c"
    using st camp by (auto simp: paying_def split: if_splits)
  from m(1) have mem: "m \<in> set ?ms" "m_id m = mid" by (auto simp: find_Some_iff in_set_conv_nth)
  then have entry: "(mid, m_payout_bps m) \<in> set plan" using view(1) by (force simp: terms_of_def)
  have rate: "effective_platform_fee c s = effective_platform_fee c s0"
    using arg_cong [OF view(2), of g_fee] by (simp add: effective_platform_fee_def config_fields split: option.split)
  have ends_are: "adm = admin" "tk = tok"
    using ends view host(3) arg_cong [OF view(2), of g_admin] unfolding config_fields by simp_all
  have ms: "distinct (map m_id ?ms)" "\<forall>x \<in> set ?ms. 0 < m_payout_bps x" "sum_list (map m_payout_bps ?ms) = BPS_DENOMINATOR"
    using plan unfolding view(1) [symmetric] sound_plan_def terms_of_def by (auto simp: comp_def)
  have last: "all_others_claimed s cid mid ?ms \<longleftrightarrow> (\<forall>(j, b) \<in> set plan. j = mid \<or> ?claimed j)"
    unfolding view(1) [symmetric] by (auto simp: all_others_claimed_def list_all_iff terms_of_def)
  have unclaimed: "\<not> is_milestone_claimed s cid (m_id m)" using m(2) mem(2) by simp
  from milestone_payout_ok [OF pay(1) [unfolded live(2)] amounts(1) _ ms(1) mem(1) unclaimed ms(2, 3)] obtain fees' net' where
    "ceil_bps (c_amount_raised c) (effective_platform_fee c s) = Inr fees'" "net' = c_amount_raised c - fees'"
    and nonneg: "0 \<le> fees'" "0 \<le> net'" and
    pays: "\<not> all_others_claimed s cid (m_id m) ?ms \<Longrightarrow> pay = floor_share net' m \<and> fee = floor_share fees' m"
      "all_others_claimed s cid (m_id m) ?ms \<Longrightarrow> pay + sum_list (map (floor_share net') (claimed_of s cid ?ms)) = net' \<and>
         fee + sum_list (map (floor_share fees') (claimed_of s cid ?ms)) = fees'"
    using amounts(2) rate by metis
  then have same: "fees' = fees" "net' = net" using ceil_bps_eq [of "c_amount_raised c"] amounts rate by auto
  have pays: "if \<forall>(j, b) \<in> set plan. j = mid \<or> ?claimed j
      then pay + share_of ?claimed plan net = net \<and> fee + share_of ?claimed plan fees = fees
      else pay = net * int (m_payout_bps m) div 10000 \<and> fee = fees * int (m_payout_bps m) div 10000"
    using pays unfolding same mem(2) last share_of_claimed view(1) floor_share_def by auto
  have "sum_list (map m_payout_bps (claimed_of s cid ?ms)) \<le> 10000"
    using sum_filter_split [of m_payout_bps "\<lambda>m. ?claimed (m_id m)" ?ms] ms(3) by (simp add: BPS_DENOMINATOR_def)
  then have "fees * int (sum_list (map m_payout_bps (claimed_of s cid ?ms))) \<le> fees * 10000"
    using nonneg(1) same(1) by (intro mult_left_mono) auto
  with sum_floor_le [of fees "claimed_of s cid ?ms"] nonneg(1)
  have "share_of ?claimed plan fees \<le> fees" unfolding same share_of_claimed view(1) by linarith
  moreover have "0 \<le> fees * int (m_payout_bps m) div 10000"
    using nonneg(1) same(1) mult_nonneg_nonneg [of fees "int (m_payout_bps m)"] by (simp add: pos_imp_zdiv_nonneg_iff)
  ultimately have "0 \<le> fee" using pays by (simp split: if_splits)
  moreover have books: "keeps_books e" "h_self e = h_self h" "balance_of e = balance_of h"
    using host(1) truncate_host(1-3) [OF host(2)] by simp_all
  ultimately have "balance_of h tok a w = balance_of h tok a (st_world s) + (if a = admin then fee else 0) - (if a = h_self h then fee else 0)" for a
    using tr(1) keeps_booksD [OF books(1), of tok "h_self e" admin fee "st_world s" w tok a]
    unfolding ends_are books(2, 3) by (cases "0 < fee") simp_all
  then have balances: "balance_of h tok a (st_world s') = balance_of h tok a (st_world s) + (if a = admin then fee else 0)
      + (if a = c_creator c then pay else 0) - (if a = h_self h then fee + pay else 0)" for a
    using tr(2) keeps_booksD [OF books(1), of tok "h_self e" "c_creator c" pay w "st_world s'" tok a]
    unfolding live(2) ends_are books(2, 3) by simp
  have sums: "so_far (is_milestone_claimed s' cid) plan net = so_far ?claimed plan net + pay"
    "so_far (is_milestone_claimed s' cid) plan fees = so_far ?claimed plan fees + fee"
    unfolding after(2) using pays by (auto intro!: so_far_claim [where claimed = ?claimed, OF plan entry m(2)])
  have token: "get_campaign_token s' = get_campaign_token s"
    using claim_milestone_drawer_fields [OF run] by (simp add: purse_fields)
  have conf: "config s' = config s"
    by (rule config_calls.fund_call_obs [where e = e and k = "ClaimMilestone cid mid"]) (simp add: run)
  have now_all: "(\<forall>(i, bps) \<in> set plan. is_milestone_claimed s' cid i) \<longleftrightarrow> (\<forall>(j, b) \<in> set plan. j = mid \<or> ?claimed j)"
    unfolding after(2) by (rule ball_cong) (auto split: if_splits)
  have "get_campaign s' cid = Some (if \<forall>(j, b) \<in> set plan. j = mid \<or> ?claimed j
      then c\<lparr>c_funds_withdrawn := True, c_is_active := False\<rparr> else c)"
    using arg_cong [OF claim_milestone_closes [OF run camp(1)], of "\<lambda>k. k_camp k cid"] camp(1)
    unfolding last live(2) by (simp add: core_fields k_withdraw_def split: if_splits)
  then show ?thesis
    using st host(4) unfolding paying_def now_all sums token conf after(1, 3) balances by auto
qed

lemma verification_pays_nothing:
  assumes "verify_milestone e a cid mid s = Inr s'" "paying h cid c tok admin plan net fees s0 s"
  shows "paying h cid c tok admin plan net fees s0 s'"
proof -
  note keeps = verify_milestone_keeps [OF assms(1)]
  have "st_world s' = st_world s" "get_total_raised_global s' = get_total_raised_global s"
    "get_campaign_token s' = get_campaign_token s"
    using arg_cong [OF keeps(3), of p_world] arg_cong [OF keeps(3), of p_total] arg_cong [OF keeps(3), of p_token]
    by (simp_all add: purse_fields)
  moreover have "get_campaign s' = get_campaign s" using arg_cong [OF keeps(4), of k_camp] by (simp add: core_fields)
  ultimately show ?thesis using assms(2) keeps(1, 2, 5) by (simp add: paying_def)
qed

text \<open>The calls of such a run: claims of the campaign's milestones and their verifications, failed ones included.\<close>

definition claiming :: "'w host \<Rightarrow> u32 \<Rightarrow> 'w env \<times> call \<Rightarrow> bool" where
  "claiming h cid ek \<longleftrightarrow> host.truncate (fst ek) = h \<and>
     (\<exists>i. snd ek = FundCall (ClaimMilestone cid i) \<or> (\<exists>a. snd ek = FundCall (VerifyMilestone a cid i)))"

lemma claims_keep_paying:
  assumes "list_all (claiming h cid) calls" "paying h cid c tok admin plan net fees s0 s"
    and "sound_plan plan" "keeps_books h" "get_admin s0 = Some admin" "distinct [admin, c_creator c, h_self h]"
    and "0 \<le> c_amount_raised c" "effective_platform_fee c s0 \<le> BPS_DENOMINATOR"
      "fees = (c_amount_raised c * int (effective_platform_fee c s0) + 9999) div 10000" "net = c_amount_raised c - fees"
  shows "paying h cid c tok admin plan net fees s0 (fold (\<lambda>(e, k). invoke e k) calls s)"
  using assms(1, 2)
proof (induction calls arbitrary: s)
  case (Cons ek calls)
  obtain e k where ek: "ek = (e, k)" by (cases ek)
  have "claiming h cid (e, k)" and rest: "list_all (claiming h cid) calls" using Cons.prems(1) ek by simp_all
  then have host: "host.truncate e = h"
    and k: "\<exists>i. k = FundCall (ClaimMilestone cid i) \<or> (\<exists>a. k = FundCall (VerifyMilestone a cid i))"
    by (auto simp: claiming_def)
  have "paying h cid c tok admin plan net fees s0 (invoke e k s)"
  proof (cases "dispatch e k s")
    case (Inl f)
    with Cons.prems(2) show ?thesis by (simp add: invoke_def)
  next
    case (Inr s')
    have "paying h cid c tok admin plan net fees s0 s'"
      using k Inr claim_pays [OF _ Cons.prems(2) assms(3, 4) host assms(5-10)]
        verification_pays_nothing [OF _ Cons.prems(2)] by auto
    with Inr show ?thesis by (simp add: invoke_def)
  qed
  from Cons.IH [OF rest this] show ?case by (simp add: ek)
qed simp

section \<open>Properties\<close>

text \<open>
  C11: Milestone payouts add up. Take a reachable state in which the creator has just set a plan and none of it
  is claimed, a token that keeps its books, and creator, admin and contract different addresses. Whatever claims
  and verifications of the campaign's milestones follow, in any order and with failed attempts among them (and no contribution
  in between): as long as some milestone is unclaimed, creator and admin have been paid exactly the floor of the claimed shares of
  the net amount and of the fee; once all are claimed, the creator has been paid exactly the amount raised less the
  ceiling fee, the admin exactly the ceiling fee, the contract and the running total are lower by exactly the
  amount raised, and the campaign is closed. Nothing is stranded or overpaid.
\<close>

theorem milestone_payouts_add_up:
  fixes s0 :: "'w state"
  assumes "reachable h now s0" "set_milestones e cid ms s0 = Inr s" "\<forall>i. \<not> is_milestone_claimed s cid i" "keeps_books h"
    and "get_campaign s cid = Some c" "get_campaign_token s cid = Some tok" "get_admin s = Some admin"
    and "distinct [admin, c_creator c, h_self h]"
    and "list_all (claiming h cid) calls" "s' = fold (\<lambda>(e, k). invoke e k) calls s"
    and "fees = (c_amount_raised c * int (effective_platform_fee c s) + 9999) div 10000" "net = c_amount_raised c - fees"
  shows "if \<forall>m \<in> set ms. is_milestone_claimed s' cid (m_id m)
    then balance_of h tok (c_creator c) (st_world s') = balance_of h tok (c_creator c) (st_world s) + net \<and>
      balance_of h tok admin (st_world s') = balance_of h tok admin (st_world s) + fees \<and>
      balance_of h tok (h_self h) (st_world s') = balance_of h tok (h_self h) (st_world s) - c_amount_raised c \<and>
      get_total_raised_global s' = get_total_raised_global s - c_amount_raised c \<and>
      get_campaign s' cid = Some (c\<lparr>c_funds_withdrawn := True, c_is_active := False\<rparr>)
    else balance_of h tok (c_creator c) (st_world s') = balance_of h tok (c_creator c) (st_world s)
        + (\<Sum>m \<leftarrow> filter (\<lambda>m. is_milestone_claimed s' cid (m_id m)) ms. net * int (m_payout_bps m) div 10000) \<and>
      balance_of h tok admin (st_world s') = balance_of h tok admin (st_world s)
        + (\<Sum>m \<leftarrow> filter (\<lambda>m. is_milestone_claimed s' cid (m_id m)) ms. fees * int (m_payout_bps m) div 10000) \<and>
      get_campaign s' cid = Some c"
proof -
  note set = set_milestones_sound [OF assms(2)]
  let ?plan = "terms_of ms"
  have camp0: "get_campaign s0 cid = Some c" using assms(5) arg_cong [OF set(3), of k_camp] by (simp add: core_fields)
  have raised: "0 \<le> c_amount_raised c"
    using books_ok_bounds(1, 2) [OF books_of_reachable(1) [OF assms(1) camp0]] by simp
  have "get_platform_fee s = get_platform_fee s0" using arg_cong [OF set(4), of g_fee] unfolding config_fields .
  then have rate: "effective_platform_fee c s \<le> BPS_DENOMINATOR"
    using config_okD(5) [OF reachable_config [OF assms(1)]] books_of_reachable(3) [OF assms(1) camp0]
    by (auto simp: effective_platform_fee_def terms_ok_def const_defs split: option.split)
  have none: "\<not> (\<forall>(i, bps) \<in> set ?plan. is_milestone_claimed s cid i)"
    using assms(3) set(1) by (cases ?plan) (auto simp: sound_plan_def)
  have zero: "so_far (is_milestone_claimed s cid) ?plan amt = 0" for amt
    unfolding so_far_def if_not_P [OF none] by (rule share_of_none [OF assms(3)])
  have "paying h cid c tok admin ?plan net fees s s"
    unfolding paying_def if_not_P [OF none] zero using assms(5, 6) set(2) by simp
  from claims_keep_paying [OF assms(9) this set(1) assms(4, 7, 8) raised rate assms(11, 12)]
  have final: "paying h cid c tok admin ?plan net fees s s'" unfolding assms(10) .
  have all: "(\<forall>(i, bps) \<in> set ?plan. is_milestone_claimed s' cid i) \<longleftrightarrow> (\<forall>m \<in> set ms. is_milestone_claimed s' cid (m_id m))"
    by (auto simp: terms_of_def)
  have part: "share_of (is_milestone_claimed s' cid) ?plan amt =
      (\<Sum>m \<leftarrow> filter (\<lambda>m. is_milestone_claimed s' cid (m_id m)) ms. amt * int (m_payout_bps m) div 10000)" for amt
    unfolding share_of_claimed [symmetric] floor_share_def ..
  show ?thesis
    using final assms(12) unfolding paying_def so_far_def all part by (simp split: if_splits)
qed

text \<open>The demo campaign with a plan of two milestones, and both claimed, the second first.\<close>

definition h_plan :: "milestone list" where
  "h_plan = [\<lparr>m_id = 1, m_description = ''A'', m_payout_bps = 3333, m_verified = True\<rparr>,
             \<lparr>m_id = 2, m_description = ''B'', m_payout_bps = 6667, m_verified = False\<rparr>]"

definition h_planned :: "balances state" where
  "h_planned = invoke (demo_env 6000) (FundCall (SetMilestones 1 h_plan)) h_funded"

definition h_claims :: "(balances env \<times> call) list" where
  "h_claims = [(demo_env 6001, FundCall (VerifyMilestone (Address 0) 1 2)), (demo_env 6002, FundCall (ClaimMilestone 1 2)),
     (demo_env 6003, FundCall (ClaimMilestone 1 1)), (demo_env 6004, FundCall (VerifyMilestone (Address 0) 1 1)),
     (demo_env 6005, FundCall (ClaimMilestone 1 1))]"

lemma planned: "set_milestones (demo_env 6000) 1 h_plan h_funded = Inr h_planned"
proof -
  have "is_ok (set_milestones (demo_env 6000) 1 h_plan h_funded)"
    by (simp only: set_milestones_def) (simp add: h_plan_def MAX_MILESTONES_def history_defs eval_simps)
  then show ?thesis unfolding h_planned_def invoke_def by (cases "set_milestones (demo_env 6000) 1 h_plan h_funded") simp_all
qed

lemma planned_facts:
  "get_campaign h_planned 1 = Some h_campaign" "get_campaign_token h_planned 1 = Some (Address 1)" "get_admin h_planned = Some (Address 0)"
  "\<not> is_milestone_claimed h_planned 1 i" "get_platform_fee h_planned = 300"
  by (simp_all add: h_planned_def set_milestones_def h_plan_def MAX_MILESTONES_def history_defs h_campaign_def eval_simps)

lemma claims_done:
  "is_milestone_claimed (fold (\<lambda>(e, k). invoke e k) h_claims h_planned) 1 1"
  "is_milestone_claimed (fold (\<lambda>(e, k). invoke e k) h_claims h_planned) 1 2"
  by (simp_all add: h_claims_def h_planned_def set_milestones_def verify_milestone_def claim_milestone_def milestone_payout_def
      floor_bps_def all_others_claimed_def h_plan_def MAX_MILESTONES_def history_defs eval_simps)

theorem milestone_payouts_add_up_witness:
  "balance_of demo_host (Address 1) (Address 2) (st_world (fold (\<lambda>(e, k). invoke e k) h_claims h_planned))
     = balance_of demo_host (Address 1) (Address 2) (st_world h_planned) + 97000"
proof -
  have calls: "list_all (claiming demo_host 1) h_claims" by (simp add: h_claims_def claiming_def)
  have "effective_platform_fee h_campaign h_planned = 300"
    by (simp add: effective_platform_fee_def planned_facts h_campaign_def demo_campaign_def)
  moreover have "c_amount_raised h_campaign = 100001" "c_creator h_campaign = Address 2" by (simp_all add: h_campaign_def demo_campaign_def)
  moreover have "\<forall>m \<in> set h_plan. is_milestone_claimed (fold (\<lambda>(e, k). invoke e k) h_claims h_planned) 1 (m_id m)"
    using claims_done by (simp add: h_plan_def)
  ultimately show ?thesis
    using milestone_payouts_add_up [OF reachable_history(4) planned _ demo_keeps_books planned_facts(1-3) _ calls refl refl refl] planned_facts(4)
    by (simp add: demo_host_def)
qed

end
