(* ===== verification/Spec2Isabelle.thy ===== *)
theory Spec2Isabelle
  imports Rent Views Stranded Tags FuzzRevenue Payouts
begin

text \<open>
  A verification development for \<^bold>\<open>ProofOfHeart\<close>, a Soroban smart contract for
  crowdfunding education (the crate \<^verbatim>\<open>src/src\<close>; file names below are relative to it).

  \<^bold>\<open>The program.\<close> A creator opens a campaign with a goal and a deadline
  (\<^verbatim>\<open>campaigns/create.rs\<close>). The admin or a community vote verifies it (\<^verbatim>\<open>voting.rs\<close>). Backers
  contribute tokens, which the contract escrows (\<^verbatim>\<open>contributions.rs\<close>). When the goal is met
  the creator withdraws, at once with a held reserve (\<^verbatim>\<open>campaigns/withdraw.rs\<close>) or milestone by
  milestone (\<^verbatim>\<open>milestones.rs\<close>); when the deadline passes without it, or the campaign is cancelled
  (\<^verbatim>\<open>campaigns/cancel.rs\<close>), backers take refunds. A startup may share later revenue with its
  backers (\<^verbatim>\<open>revenue.rs\<close>). An admin configures, pauses and migrates the platform
  (\<^verbatim>\<open>admin.rs\<close>). Every operation reads and writes one key-value store (\<^verbatim>\<open>storage.rs\<close>) and calls
  token contracts that are not part of the repository.

  \<^bold>\<open>The theories.\<close>
  \<^item> \<^verbatim>\<open>Prelude\<close>: results (\<open>res\<close>: a contract error or a trap on the left, a value on the
    right) with their sequencing \<open>and_then\<close>, \<open>ok_or\<close>, \<open>unwrap\<close>; the machine integers, as \<open>nat\<close> and
    \<open>int\<close> with Rust's checked and saturating operations written out at 32, 64 and 128 bits; the
    ordered map of the SDK; sums over finite support.
  \<^item> \<^verbatim>\<open>Types\<close>: \<^verbatim>\<open>types.rs\<close>, \<^verbatim>\<open>errors.rs\<close>, \<^verbatim>\<open>constants.rs\<close>. The \<open>host\<close> record is the outside world: the
    contract's address, the token contracts' \<open>transfer\<close>, \<open>balance\<close> and \<open>decimals\<close>, and SHA-256, all
    arbitrary functions of the model; \<open>env\<close> adds the ledger time, its sequence number and who authorised the call.
  \<^item> \<^verbatim>\<open>Storage\<close>: \<^verbatim>\<open>storage.rs\<close>. One record per key enum, one field per key, an absent entry is \<open>None\<close>;
    a getter and a setter per Rust function, with its default. \<open>state\<close> collects the stores, the state of the
    token contracts and the published events.
  \<^item> \<^verbatim>\<open>Lifecycle\<close>: \<^verbatim>\<open>lifecycle.rs\<close>, the state of a campaign and the shared guards.
  \<^item> \<^verbatim>\<open>Escrow\<close>: the abstract specification. \<open>core\<close> is what the store says about money owed to
    backers; \<open>core_step\<close> is the list of moves it may make; \<open>core_inv\<close> is the invariant every
    move preserves; the acceptance of a transfer is a move of its own, \<open>hand_over\<close>. The locales
    \<open>fund_observer\<close>, \<open>catalogue_observer\<close> and \<open>escrow_observer\<close>, each an extension of the one before, are
    the interface of whatever part of the state funding does not touch.
  \<^item> \<^verbatim>\<open>Purse\<close>: the money an entry point moves, as a view of the state: the token contracts, the running
    total, reserves, milestones, revenue pools. The effect of every write on it makes each money operation
    one equation on the purse, from which the components state their payments.
  \<^item> \<^verbatim>\<open>Contributions\<close>, \<^verbatim>\<open>Create\<close>, \<^verbatim>\<open>Withdraw\<close>, \<^verbatim>\<open>Cancel\<close>, \<^verbatim>\<open>Update\<close>, \<^verbatim>\<open>Ownership\<close>, \<^verbatim>\<open>Voting\<close>, \<^verbatim>\<open>Revenue\<close>,
    \<^verbatim>\<open>Milestones\<close>, \<^verbatim>\<open>Bookmarks\<close>, \<^verbatim>\<open>Tags\<close>, \<^verbatim>\<open>Comments\<close>, \<^verbatim>\<open>Admin\<close>, \<^verbatim>\<open>Queries\<close>: one Rust file each (the
    \<^verbatim>\<open>campaigns\<close> directory has \<^verbatim>\<open>create\<close>, \<^verbatim>\<open>withdraw\<close>, \<^verbatim>\<open>cancel\<close>, \<^verbatim>\<open>update\<close> and \<^verbatim>\<open>transfer\<close>, here \<^verbatim>\<open>Ownership\<close>). Each has the
    operations in the code's order of guards and writes, their simulation by moves of the escrow, and
    the properties of the component.
  \<^item> \<^verbatim>\<open>Contract\<close>: \<^verbatim>\<open>lib.rs\<close>. Its entry points that change state are the datatype \<open>call\<close>; \<open>dispatch\<close> runs one,
    \<open>invoke\<close> keeps its state on success only, and \<open>reachable\<close> is the step relation of a
    deployed contract, with token contracts that move in between.
  \<^item> \<^verbatim>\<open>Observers\<close>: the locales \<open>review_observer\<close>, \<open>fund_call_observer\<close>, \<open>call_observer\<close>, \<open>settings_observer\<close> and
    \<open>config_observer\<close>, the interface of a view of the state across all entry points; configuration, ballots,
    catalogue, stewardship, money, the till and the creator index interpret them.
  \<^item> \<^verbatim>\<open>Config\<close>, \<^verbatim>\<open>Access\<close>, \<^verbatim>\<open>Reachability\<close>: the invariant of the configuration, what a call may touch
    and who must have signed it, and the induction over reachable states, in the locale
    \<open>contract_invariant\<close>.
  \<^item> \<^verbatim>\<open>Buckets\<close>: the bucketed indexes. The locale \<open>bucket_index\<close> is what an index promises the pager of
    \<^verbatim>\<open>queries.rs\<close>; the category, creator and tag indexes interpret it. \<^verbatim>\<open>Listings\<close>: the catalogue of
    campaigns over reachable states. \<^verbatim>\<open>Owners\<close>: the index of campaigns by creator, exact in every
    reachable state, so that an offered transfer can be accepted. \<^verbatim>\<open>Views\<close>: the read-only entry points of
    \<^verbatim>\<open>lib.rs\<close>. \<^verbatim>\<open>Stewardship\<close>: the two-step transfer of the admin, the time lock of the token.
    \<^verbatim>\<open>Stranded\<close>: the token a campaign is paid in over whole runs, what a cancelled campaign owes (\<open>frozen\<close>),
    and what a token update does to its refunds.
  \<^item> \<^verbatim>\<open>Till\<close>, \<^verbatim>\<open>Solvency\<close>: what the contract owes in each currency against what its token accounts hold. The
    calls that keep the two in step are \<open>routine\<close> (all but a contributor's revenue claim, a milestone claim and
    the acceptance of a new token); over an \<open>honest_run\<close> of them, with tokens that keep their books, the contract
    is solvent and the refunds are covered. \<^verbatim>\<open>Payouts\<close>: a run of milestone verifications and claims
    (\<open>claiming\<close>), and what its transfers add up to.
  \<^item> \<^verbatim>\<open>Gauges\<close>, \<^verbatim>\<open>Shares\<close>: the books of the revenue pools over whole runs. They stay in the range of
    their type and add up in every reachable state (the invariant \<open>ledger_ok\<close>, over what a withdrawal fixes, \<open>sealed\<close>); over a
    \<open>quiet_run\<close>, in which anything but a deposit may happen, the division of a pool stays \<open>fair\<close>.
  \<^item> \<^verbatim>\<open>Traps\<close>, \<^verbatim>\<open>TrapsFunds\<close>, \<^verbatim>\<open>Payable\<close>: which calls abort. \<open>trap_free\<close> has one introduction rule per
    combinator of \<open>res\<close>, and each operation is trap-free once its \<open>signers\<close> have signed and its payments are made. With tokens that pay
    any transfer (\<open>obliging\<close>) this holds in every reachable state; with tokens that pay what a balance covers
    (\<open>pays_covered\<close>), over an honest run, where solvency provides the contract's own payments.
  \<^item> \<^verbatim>\<open>Fuzz\<close>, \<^verbatim>\<open>FuzzRevenue\<close>: the four targets under \<^verbatim>\<open>fuzz/fuzz_targets\<close>. A target is a function from
    its input to the calls it tries, each with the state it is tried in; its property is proved for every input.
  \<^item> \<^verbatim>\<open>Rent\<close>: the lifetimes of entries, which the accessors of \<^verbatim>\<open>storage.rs\<close> extend, with lemmas on what an
    access assures and no property of its own.
  \<^item> \<^verbatim>\<open>Example\<close>, \<^verbatim>\<open>History\<close>: a concrete host and a concrete run, for the witnesses.

  \<^bold>\<open>The properties.\<close> This theory has those that span components: the refinement of the escrow, the
  accounting invariant, the lifecycle, the counters, pause and signatures, the bounds of the
  configuration, the errors of a refund, and that open campaigns accept contributions. \<^verbatim>\<open>Solvency\<close> has
  that the contract can pay what it owes and that the refunds due are paid, \<^verbatim>\<open>Shares\<close> that revenue claims between deposits fit
  the pool and when they exceed it, \<^verbatim>\<open>Payouts\<close> that the payouts of a milestone plan add up, \<^verbatim>\<open>Stranded\<close> how refunds
  change their token, \<^verbatim>\<open>TrapsFunds\<close> and \<^verbatim>\<open>Payable\<close> that no call of any entry point aborts, \<^verbatim>\<open>Fuzz\<close> and \<^verbatim>\<open>FuzzRevenue\<close> the properties that
  the fuzz targets test. The theory of each component has its own: what one contribution, refund, withdrawal,
  milestone, revenue claim, vote, creation, edit or bookmark does to the state and to the token
  contracts, and that shares and payouts add up to what they are shares of.

  \<^bold>\<open>What it showed.\<close> Some properties and lemmas state a behaviour the code does not intend: after the last
  contributor's first claim every further claim that succeeds pays the contributors more than their side of the
  pool, as when a deposit comes between claims (\<open>revenue_can_be_overpaid\<close>), a campaign transfer can leave an index
  on which the pager never returns (\<open>transfer_breaks_listing\<close>), a cancellation opens the gate of the token update
  while refunds are owed, which are then paid in the new token (\<open>cancelling_opens_token_update\<close>), the burst guard's
  pause is rolled back with the call that trips it (the lemma \<open>auto_pause_never_persists\<close>), a cancellation after refunds deducts
  them twice from the running total (\<open>cancellation_deducts_twice\<close>), an admin's cancellation after a milestone claim leaves the
  refunds uncovered (\<open>cancelled_milestones_underfund\<close>), a contribution between milestone claims is paid to
  nobody (\<open>late_contributions_stranded\<close>), a batch of bookmarks is not limited (\<open>batch_bookmarks_unbounded\<close>), and a
  contribution that passes every check is aborted by the token when the contributor does not hold it (\<open>overdraft_aborts\<close>).

  \<^bold>\<open>Results.\<close> A Soroban invocation that returns an error or traps is rolled back. A
  model operation returns \<open>Inl (Fail err)\<close>, \<open>Inl Panic\<close> for a trap, or \<open>Inr\<close> the new state, and only
  \<open>invoke\<close> decides what persists. Arithmetic that Rust writes with \<open>checked_*\<close> gives \<open>Overflow\<close>; plain
  arithmetic traps on overflow, as the crate is built with overflow checks.

  \<^bold>\<open>Loops.\<close> The loops over lists are structural recursion. \<open>scan_active\<close> terminates by the
  distance to the end of its window. The pagination loop of \<^verbatim>\<open>queries.rs\<close> does not terminate on
  every store: it is a \<open>partial_function (option)\<close> whose value \<open>None\<close> is divergence, so
  there is no fuel in the development.

  \<^bold>\<open>Not modelled.\<close> The price of rent and which entry points bump the instance entry (\<^verbatim>\<open>Rent\<close> has
  what each accessor does to a lifetime, not the accesses of each call), resource limits, deserialisation of corrupt entries, and re-entrancy: the host refuses a call into a contract that
  is already running, so a token transfer is a function on the state of the token contracts. Of the fuzz targets, libFuzzer, the generated addresses, the test
  environment and the token's \<open>mint\<close> are parameters with their documented behaviour (\<open>fuzz_host\<close>); the unit tests are not modelled.
\<close>

section \<open>The escrow\<close>

text \<open>
  C3: Refinement. In every reachable state, whatever call succeeds moves the
  escrow (campaigns, contributions, lifetime contributions, contributor counts,
  platform counters) by a sequence of the moves of \<open>core_step\<close>, which never change the
  creator of a campaign, and in no other way; only the acceptance of a transfer hands the campaign over,
  to the pending creator, and changes nothing else of the escrow.
\<close>

theorem dispatch_refines_escrow:
  assumes "reachable h now s" "dispatch e k s = Inr s'"
  shows "if \<exists>cid. accepts k cid then \<exists>cid. accepts k cid \<and> hand_over cid (core s) (core s')
    else core_steps (e_timestamp e) (core s) (core s')"
  using dispatch_refines [OF assms(2) reachable_config [OF assms(1)]] dispatch_hands_over [OF assms(2)] by auto

theorem dispatch_refines_escrow_witness:
  "core_steps 6000 (core h_funded) (core h_withdrawn)"
  using dispatch_refines_escrow [OF reachable_history(4) withdrawn_call] by simp

text \<open>
  C1: The books balance. In every reachable state the contributions recorded for a
  campaign sum to its \<open>effective_amount_raised\<close>, the lifetime contributions to its
  \<open>amount_raised\<close>, no contribution is negative or exceeds its lifetime total, the
  effective amount never exceeds the raised one, and the stored contributor count is the
  number of addresses with a contribution.
\<close>

theorem contributions_add_up:
  assumes "reachable h now s" "get_campaign s cid = Some c"
  shows "support_sum (get_contribution s cid) = c_effective_amount_raised c \<and>
         support_sum (get_lifetime_contribution s cid) = c_amount_raised c \<and>
         0 \<le> get_contribution s cid who \<and>
         get_contribution s cid who \<le> get_lifetime_contribution s cid who \<and>
         0 \<le> c_effective_amount_raised c \<and> c_effective_amount_raised c \<le> c_amount_raised c \<and>
         get_contributor_count s cid = card {a. get_contribution s cid a \<noteq> 0}"
proof -
  note ok = books_of_reachable(1) [OF assms]
  show ?thesis
    using books_okD [OF ok] books_ok_bounds [OF ok] ok by (simp add: books_ok_def)
qed

theorem contributions_add_up_witness:
  "support_sum (get_contribution h_funded 1) = 100001"
  using contributions_add_up [OF reachable_history(4) funded_facts(1)]
  by (simp add: h_campaign_def demo_campaign_def)

text \<open>
  C16: Identity and flags. In every reachable state a campaign exists under an id exactly when the
  id is between 1 and the campaign count, it carries that id, it is active exactly when it is
  neither cancelled nor withdrawn, never both, and a withdrawn campaign was verified and had
  met its positive goal.
\<close>

theorem campaign_flags:
  assumes "reachable h now s"
  shows "(get_campaign s cid \<noteq> None) = (1 \<le> cid \<and> cid \<le> get_campaign_count s) \<and>
         (\<forall>c. get_campaign s cid = Some c \<longrightarrow>
            c_id c = cid \<and>
            c_is_active c = (\<not> c_is_cancelled c \<and> \<not> c_funds_withdrawn c) \<and>
            \<not> (c_is_cancelled c \<and> c_funds_withdrawn c) \<and>
            (c_funds_withdrawn c \<longrightarrow> c_is_verified c \<and> 0 < c_funding_goal c \<and>
               c_funding_goal c \<le> c_amount_raised c))"
proof -
  have "(get_campaign s cid \<noteq> None) = (1 \<le> cid \<and> cid \<le> get_campaign_count s)"
    using core_inv_dom [OF reachable_core [OF assms]] by (auto simp: core_fields dom_def set_eq_iff)
  moreover have "c_id c = cid \<and> flags_ok c \<and> 0 < c_funding_goal c" if "get_campaign s cid = Some c" for c
    using books_of_reachable(2-4) [OF assms that] by (simp add: terms_ok_def)
  ultimately show ?thesis by (simp add: flags_ok_def)
qed

theorem campaign_flags_witness:
  "1 \<le> get_campaign_count h_funded \<and> c_is_active h_campaign"
proof -
  note flags = campaign_flags [OF reachable_history(4), of 1]
  have "get_campaign h_funded 1 \<noteq> None" using funded_facts(1) by simp
  with flags have "1 \<le> get_campaign_count h_funded" by metis
  moreover have "\<not> c_is_cancelled h_campaign \<and> \<not> c_funds_withdrawn h_campaign"
    by (simp add: h_campaign_def demo_campaign_def)
  then have "c_is_active h_campaign" using flags funded_facts(1) by metis
  ultimately show ?thesis ..
qed

text \<open>
  C12: Lifecycle. One invocation of any entry point moves every campaign along one of
  Active to Verified, Active or Verified to Cancelled, Verified to Withdrawn, Verified back to
  Active (the description edit), or leaves its state; campaigns never disappear, and
  Withdrawn and Cancelled are final.
\<close>

theorem lifecycle_of_a_call:
  assumes "reachable h now s" "now \<le> e_timestamp e" "get_campaign s cid = Some c"
  shows "\<exists>c'. get_campaign (invoke e k s) cid = Some c' \<and>
    (campaign_state_of c' = campaign_state_of c \<or>
     (campaign_state_of c, campaign_state_of c') \<in>
       {(Active, Verified), (Active, Cancelled), (Verified, Cancelled), (Verified, Withdrawn),
        (Verified, Active)})"
proof (cases "dispatch e k s")
  case (Inl f)
  then show ?thesis using assms(3) by (simp add: invoke_def)
next
  case (Inr s')
  have "core_inv (e_timestamp e) (core s)"
    by (rule core_inv_later [OF reachable_core [OF assms(1)] assms(2)])
  from dispatch_tracks [OF Inr reachable_config [OF assms(1)] this] assms(3) Inr
  show ?thesis unfolding tracks_def lifecycle_moves_def core_fields invoke_def by fastforce
qed

theorem lifecycle_of_a_call_witness:
  "\<exists>c'. get_campaign h_withdrawn 1 = Some c' \<and>
     campaign_state_of c' = Withdrawn"
proof -
  have "5000 \<le> e_timestamp (demo_env 6000)" by simp
  from lifecycle_of_a_call [OF reachable_history(4) this funded_facts(1), of "FundCall (WithdrawFunds 1)"]
  obtain c' where "get_campaign h_withdrawn 1 = Some c'"
    unfolding h_withdrawn_def [symmetric] by (elim exE conjE)
  then show ?thesis
    by (auto simp: withdrawn_facts campaign_state_of_def h_campaign_def demo_campaign_fields)
qed

text \<open>
  C13: A withdrawn campaign pays no refund: at any later time every \<open>claim_refund\<close> on it
  fails, whoever calls.
\<close>

theorem no_refund_after_withdrawal:
  assumes "reachable h now s" "get_campaign s cid = Some c" "c_funds_withdrawn c"
  shows "claim_refund e cid who s \<noteq> Inr s'"
proof
  assume "claim_refund e cid who s = Inr s'"
  then have "refundable (e_timestamp e) c"
    using assms(2) by (simp only: claim_refund_def Let_def res_simps) (auto simp: refundable_def)
  with books_of_reachable(2) [OF assms(1, 2)] assms(3) show False
    by (auto simp: flags_ok_def refundable_def)
qed

theorem no_refund_after_withdrawal_witness:
  "claim_refund (demo_env 900000) 1 (Address 3) h_withdrawn \<noteq> Inr h_withdrawn"
  by (rule no_refund_after_withdrawal [OF reachable_history(5) withdrawn_facts]) simp

text \<open>
  C10: Nothing has been refunded when a campaign pays out: at a successful \<open>withdraw_funds\<close>
  or \<open>claim_milestone\<close> the effective amount equals the amount raised, so the
  two ways of computing payouts agree.
\<close>

theorem payout_finds_everything:
  assumes "reachable h now s" "now \<le> e_timestamp e" "get_campaign s cid = Some c"
    "withdraw_funds e cid s = Inr s' \<or> claim_milestone e cid mid s = Inr s'"
  shows "c_effective_amount_raised c = c_amount_raised c \<and>
         get_contribution s cid = get_lifetime_contribution s cid"
proof -
  from assms(4) have "\<not> c_is_cancelled c \<and> c_funding_goal c \<le> c_amount_raised c"
    using assms(3) by (auto elim: withdraw_funds_core claim_milestone_core)
  then have "\<not> refundable now c" by (simp add: refundable_def)
  from books_ok_not_refundable [OF books_of_reachable(1) [OF assms(1, 3)] this]
    books_okD(6, 7) [OF books_of_reachable(1) [OF assms(1, 3)]]
  show ?thesis by simp
qed

theorem payout_finds_everything_witness:
  "get_contribution h_funded 1 = get_lifetime_contribution h_funded 1"
proof -
  have "withdraw_funds (demo_env 6000) 1 h_funded = Inr h_withdrawn"
    using withdrawn_call by simp
  then show ?thesis
    using payout_finds_everything [OF reachable_history(4) _ funded_facts(1), of "demo_env 6000" h_withdrawn 0]
    by simp
qed

text \<open>
  C17: The terms of a campaign. In every reachable state a campaign's goal is positive, its
  deadline lies a whole number of days, at least 1 and at most 365, after its start; no
  contributor's lifetime total exceeds the campaign's cap; its revenue share is zero unless it shares revenue, in which
  case it is a startup and the share is positive and at most half; and its fee override, if any, is at most 10 percent.
\<close>

theorem campaign_terms:
  assumes "reachable h now s" "get_campaign s cid = Some c"
  shows "0 < c_funding_goal c \<and>
    (\<exists>start days. get_campaign_start_time s cid = Some start \<and>
       c_deadline c = start + days * SECONDS_PER_DAY \<and> 1 \<le> days \<and> days \<le> 365) \<and>
    (0 < c_max_contribution_per_user c \<longrightarrow>
       get_lifetime_contribution s cid who \<le> c_max_contribution_per_user c) \<and>
    (if c_has_revenue_sharing c
     then c_category c = EducationalStartup \<and> 0 < c_revenue_share_percentage c \<and>
          c_revenue_share_percentage c \<le> REVENUE_SHARE_MAX_BPS
     else c_revenue_share_percentage c = 0) \<and>
    (\<forall>fee. c_fee_override c = Some fee \<longrightarrow> fee \<le> PLATFORM_FEE_MAX_BPS)"
  using books_of_reachable(1, 3) [OF assms]
  by (auto simp: terms_ok_def books_ok_def const_defs split: if_splits)

theorem campaign_terms_witness:
  "get_lifetime_contribution h_funded 1 (Address 3) \<le> 70000"
  using campaign_terms [OF reachable_history(4) funded_facts(1), of "Address 3"]
  by (simp add: h_campaign_def)

text \<open>
  C22: The platform counters are exact. In every reachable state \<open>get_platform_stats\<close> reports the
  number of active, of verified and of cancelled campaigns there are.
\<close>

theorem platform_counters_exact:
  assumes "reachable h now s"
  shows "ps_active_campaigns (get_platform_stats s) = tally c_is_active (get_campaign s) \<and>
         ps_verified_campaigns (get_platform_stats s) = tally c_is_verified (get_campaign s) \<and>
         ps_cancelled_campaigns (get_platform_stats s) = tally c_is_cancelled (get_campaign s) \<and>
         ps_total_campaigns (get_platform_stats s) = card (dom (get_campaign s))"
  using reachable_core [OF assms] core_inv_dom [OF reachable_core [OF assms]]
  by (simp add: core_inv_def core_fields get_platform_stats_def)

theorem platform_counters_exact_witness:
  "ps_total_campaigns (get_platform_stats h_funded) = card (dom (get_campaign h_funded))"
  using platform_counters_exact [OF reachable_history(4)] by simp

section \<open>Administration\<close>

text \<open>
  C37: Bounds of the configuration. In every reachable state there is an admin and a token, the
  platform fee is at most 10 percent, the vesting parameters are at most a year and the whole
  amount, and every approval threshold in force is between 10 and 100 percent.
\<close>

theorem configuration_bounds:
  assumes "reachable h now s"
  shows "get_admin s \<noteq> None \<and> get_token s \<noteq> None \<and> get_platform_fee s \<le> PLATFORM_FEE_MAX_BPS \<and>
    get_withdraw_release_delay_days s \<le> 365 \<and> get_withdraw_reserve_percentage s \<le> BPS_DENOMINATOR \<and>
    MIN_APPROVAL_THRESHOLD_BPS \<le> effective_approval_threshold_bps s cat \<and>
    effective_approval_threshold_bps s cat \<le> BPS_DENOMINATOR"
  using config_okD(2, 3, 5, 7, 8, 10-12) [OF reachable_config [OF assms]]
  by (auto simp: effective_approval_threshold_bps_def const_defs split: option.split)

theorem configuration_bounds_witness:
  "get_platform_fee h_funded \<le> 1000"
  using configuration_bounds [OF reachable_history(4)] by (simp add: PLATFORM_FEE_MAX_BPS_def)

text \<open>
  The automatic pause never takes effect. \<open>check_burst_guard\<close> sets the flag on a
  suspicious contribution, but it reports the contribution as an error, the
  invocation is rolled back with the flag in it, and in no reachable state is the flag set; hence
  \<open>resume_campaign\<close> never succeeds.
\<close>

lemma auto_pause_never_persists:
  assumes "reachable h now s"
  shows "\<not> auto_paused_flag s \<and> resume_campaign e cid who s \<noteq> Inr s' \<and>
    (\<exists>c amt t. check_burst_guard e 1 c amt s = (Err ContractPaused, t) \<and> auto_paused_flag t)"
proof (intro conjI)
  show flag: "\<not> auto_paused_flag s" by (rule config_okD(4) [OF reachable_config [OF assms]])
  then show "resume_campaign e cid who s \<noteq> Inr s'"
    by (auto simp: resume_campaign_def res_simps)
  have "check_burst_guard e 1 (demo_campaign\<lparr>c_funding_goal := 1\<rparr>) 3 s =
      (Err ContractPaused, publish [Sym ''auto_paused''] [Sym ''huge_contribution'', I128 3]
        (set_auto_paused True s))"
    by (simp add: check_burst_guard_def checked_simps in_i128_def i128_min_def i128_max_def const_defs)
  then show "\<exists>c amt t. check_burst_guard e 1 c amt s = (Err ContractPaused, t) \<and> auto_paused_flag t"
    by (intro exI conjI) (assumption, simp add: store_defs)
qed

text \<open>
  C36: The pause stops all money. While the contract is paused, a successful call of whatever
  entry point leaves the token contracts, every contribution, every revenue pool and the
  global total as they are.
\<close>

theorem paused_moves_no_money:
  assumes "is_initialized s" "is_paused s" "dispatch e k s = Inr s'"
  shows "st_world s' = st_world s \<and> get_contribution s' = get_contribution s \<and>
         get_revenue_pool s' = get_revenue_pool s \<and> get_total_raised_global s' = get_total_raised_global s"
  using paused_money [OF assms(2, 1, 3)] by (simp add: money_def)

theorem paused_moves_no_money_witness:
  "st_world (set_paused False (set_paused True demo_state)) = st_world (set_paused True demo_state) \<and>
   st_world (invoke (demo_env 7000) (ConfigCall (UpdatePlatformFee 200)) (set_paused True demo_state))
     = st_world demo_state"
proof -
  let ?s = "set_paused True demo_state" and ?k = "ConfigCall (UpdatePlatformFee 200)"
  have "is_ok (dispatch (demo_env 7000) ?k ?s)"
    by (simp add: update_platform_fee_def stored_admin_auth_def eval_simps)
  then have "dispatch (demo_env 7000) ?k ?s = Inr (invoke (demo_env 7000) ?k ?s)"
    by (rule dispatch_eq_invoke)
  from paused_moves_no_money [OF _ _ this] show ?thesis
    by (simp add: is_paused_def eval_simps)
qed

text \<open>
  Nothing happens without a signature. On an initialised contract a call that no address has
  authorised fails, except the two that anybody may make: closing a community vote with
  \<open>verify_campaign_with_votes\<close>, and listing the active campaigns.
\<close>

lemma unsigned_calls:
  assumes "is_initialized s" "\<forall>a. \<not> e_auth e a" "dispatch e k s = Inr s'"
  shows "(\<exists>cid. k = ReviewCall (VerifyCampaignWithVotes cid)) \<or>
         (\<exists>start limit. k = ReviewCall (ListActiveCampaigns start limit))"
  using unsigned_calls_only [of e s k s'] assms by (simp add: nobody_def)

text \<open>
  Configuration is the admin's. On an initialised contract every configuration call that
  succeeds was authorised by the stored admin.
\<close>

lemma configuration_needs_admin:
  assumes "is_initialized s" "dispatch e (ConfigCall k) s = Inr s'"
  shows "\<exists>admin. get_admin s = Some admin \<and> e_auth e admin"
  using config_call_admin [OF _ assms(1)] assms(2) by simp

declare One_nat_def [simp del]

text \<open>
  C14: Open campaigns take contributions. In every reachable state in which the contract is not paused, a signed
  contribution of a positive amount to a verified, active campaign, not after its deadline and from somebody else than its
  creator, succeeds, provided it keeps within the per-transaction, per-user and personal caps, is at most
  twice the goal, the campaign has not passed half its goal (so the burst guard is idle), the goal is at most \<open>i128_max\<close> divided by
  20000 and no counter or total overflows, and the token contract accepts the transfer.
\<close>

theorem contribution_accepted:
  assumes reach: "reachable h now s" and time: "now \<le> e_timestamp e" "e_timestamp e \<le> c_deadline c"
    and who: "e_auth e who" "who \<noteq> c_creator c" and "\<not> paused_flag s"
    and camp: "get_campaign s cid = Some c" "c_is_verified c" "c_is_active c"
    and amt: "0 < amt" "amt \<le> 2 * c_funding_goal c" "2 * c_amount_raised c \<le> c_funding_goal c"
    and caps: "get_max_contribution_per_transaction s \<le> 0 \<or> amt \<le> get_max_contribution_per_transaction s"
      "c_max_contribution_per_user c = 0 \<or>
       get_lifetime_contribution s cid who + amt \<le> c_max_contribution_per_user c"
      "\<forall>cap. get_personal_cap s cid who = Some cap \<longrightarrow> get_contribution s cid who + amt \<le> cap"
    and room: "c_funding_goal c * 20000 \<le> i128_max" "get_contributor_count s cid < u32_max"
      "in_i128 (get_total_raised_global s + amt)"
    and paid: "get_campaign_token s cid = Some tok"
      "h_transfer e tok who (h_self e) amt (st_world s) = Some w"
  shows "is_ok (contribute e cid who amt s)"
proof -
  note books = books_of_reachable(1) [OF reach camp(1)]
  note flags = books_of_reachable(2) [OF reach camp(1)]
  note bounds = books_ok_bounds [OF books]
  have not_auto: "\<not> auto_paused_flag s" by (rule config_okD(4) [OF reachable_config [OF reach]])
  have adm: "get_admin s \<noteq> None" by (rule config_okD(2) [OF reachable_config [OF reach]])
  have live: "\<not> c_is_cancelled c" using camp(3) flags by (simp add: flags_ok_def)
  have goal: "0 < c_funding_goal c" "0 \<le> c_max_contribution_per_user c"
    using books_of_reachable(3) [OF reach camp(1)] by (simp_all add: terms_ok_def)
  have "c_funding_goal c * 20000 \<le> 170141183460469231731687303715884105727"
    using room(1) by (simp add: i128_max_def)
  then have sizes: "in_i128 (amt * 10000)" "in_i128 (c_funding_goal c * 20000)" "in_i128 (c_amount_raised c * 10000)"
    "in_i128 (c_funding_goal c * 5000)" "in_i128 (c_amount_raised c + amt)"
    "in_i128 (c_effective_amount_raised c + amt)" "in_i128 (get_contribution s cid who + amt)"
    "in_i128 (get_lifetime_contribution s cid who + amt)"
    using amt goal(1) bounds(1,2) bounds(4,5) [of who] books_okD(3, 4) [OF books, of who]
    unfolding in_i128_def i128_min_def i128_max_def by linarith+
  have guard: "check_burst_guard e cid c amt s = (Inr (), s)"
    using sizes amt by (simp add: check_burst_guard_def checked_simps const_defs)
  have acc: "\<exists>s1. update_contribution_accounting cid who c (get_contribution s cid who)
      (get_lifetime_contribution s cid who) amt s = Inr s1"
    using sizes room(2, 3) adm
    by (auto simp: update_contribution_accounting_def Let_def increment_contributor_count_def
        admin_or_trap_def checked_simps store_defs)
  then obtain s1 where acc': "update_contribution_accounting cid who c (get_contribution s cid who)
      (get_lifetime_contribution s cid who) amt s = Inr s1" ..
  have app: "apply_contribution e cid who amt s = Inr s1"
    using time who camp live amt(1) caps sizes goal
    by (auto simp: apply_contribution_def Let_def res_simps guard acc' get_campaign_or_error_def
        require_active_campaign_def)
  from apply_contribution_purse [OF app] obtain fee where
    p: "purse s1 = (purse s)\<lparr>p_total := get_total_raised_global s + amt, p_fee_to := fee\<rparr>" .
  define t where "t = set_last_contribution_time cid (e_timestamp e)
    (update_top_contributor cid who (get_contribution s cid who + amt) s1)"
  have t: "core t = core s1" "purse t = purse s1"
    by (simp_all add: t_def update_top_contributor_frame core_frame purse_frame)
  have c: "contribute e cid who amt s =
      and_then (campaign_token_client t cid) (\<lambda>tok. and_then (transfer e tok who (h_self e) amt t)
        (\<lambda>s4. Ok (publish [Sym ''contribution_made'', U32 cid, Addr who] [I128 amt] s4)))"
    using who(1) assms(6) not_auto sizes(7) app
    by (simp add: contribute_def require_auth_def require_not_paused_def Let_def checked_simps t_def)
  have "campaign_token_client t cid = Inr tok" "st_world t = st_world s"
    using paid(1) by (simp_all add: purse_token purse_fields [symmetric] t p)
  then show ?thesis using paid(2) by (simp add: c transfer_def)
qed

theorem contribution_accepted_witness:
  "is_ok (contribute (demo_env 3500) 1 (Address 3) 60000 h_verified)"
  by (rule contribution_accepted [OF reachable_history(2) _ _ _ _ _ verified_facts(1) _ _ _ _ _ _ _ _ _ _ _ verified_facts(2)])
    (simp_all add: verified_facts h_campaign_def demo_campaign_def in_i128_def i128_min_def i128_max_def
      u32_max_def demo_transfer_def demo_balances_def)

text \<open>
  C15: Every error of a refund. In a reachable state \<open>claim_refund\<close> returns an error exactly when it was signed
  and: the contract is paused (\<open>ContractPaused\<close>); the campaign does not exist
  (\<open>CampaignNotFound\<close>); it is neither cancelled nor failed at its deadline (\<open>ValidationFailed\<close>); the
  caller has no contribution left (\<open>NoFundsToWithdraw\<close>); or, for a failed campaign, the running
  total would leave its range (\<open>Overflow\<close>). The campaign's own subtraction never overflows.
\<close>

theorem refund_errors:
  assumes "reachable h now s"
  shows "claim_refund e cid who s = Err er \<longleftrightarrow> e_auth e who \<and>
    (if is_paused s then er = ContractPaused else
     case get_campaign s cid of
       None \<Rightarrow> er = CampaignNotFound
     | Some c \<Rightarrow>
         if \<not> refundable (e_timestamp e) c then er = ValidationFailed
         else if get_contribution s cid who = 0 then er = NoFundsToWithdraw
         else er = Overflow \<and> \<not> c_is_cancelled c \<and>
           \<not> in_i128 (get_total_raised_global s - get_contribution s cid who))"
proof (cases "e_auth e who \<and> \<not> is_paused s")
  case False
  then show ?thesis
    by (auto simp: claim_refund_def require_auth_def require_not_paused_def is_paused_def)
next
  case live: True
  show ?thesis
  proof (cases "get_campaign s cid")
    case None
    then show ?thesis using live
      by (auto simp: claim_refund_def require_auth_def require_not_paused_def is_paused_def get_campaign_or_error_def)
  next
    case (Some c)
    note books = books_of_reachable(1) [OF assms Some]
    have eff: "in_i128 (c_effective_amount_raised c - get_contribution s cid who)"
      using books_ok_bounds(1-3) [OF books] books_ok_bounds(5) [OF books, of who] books_okD(3) [OF books, of who]
      unfolding in_i128_def i128_min_def i128_max_def by linarith
    have client: "and_then (campaign_token_client t cid) (\<lambda>tok. and_then (transfer e tok (h_self e) who x t) (\<lambda>u. Ok (f u)))
        \<noteq> Err er" for t x and f :: "'a state \<Rightarrow> 'a state"
      by (auto simp: campaign_token_client_def transfer_def unwrap_def and_then_def split: option.splits sum.splits)
    show ?thesis
      using live Some eff client
      by (auto simp: claim_refund_def Let_def require_auth_def require_not_paused_def is_paused_def
          get_campaign_or_error_def refundable_def checked_simps purse_fields [symmetric] purse_frame)
  qed
qed

theorem refund_errors_witness:
  "claim_refund (demo_env 7000) 1 (Address 9) h_cancelled = Err NoFundsToWithdraw \<and>
   claim_refund (demo_env 7000) 5 (Address 9) h_cancelled = Err CampaignNotFound \<and>
   claim_refund (demo_env 5500) 1 (Address 3) h_funded = Err ValidationFailed"
proof -
  have facts: "\<not> is_paused h_cancelled" "\<not> is_paused h_funded" "get_contribution h_cancelled 1 (Address 9) = 0"
    "get_campaign h_cancelled 5 = None"
    by (simp_all add: is_paused_def history_defs eval_simps)
  show ?thesis
    unfolding refund_errors [OF reachable_history(6)] refund_errors [OF reachable_history(4)]
    by (simp add: facts cancelled_facts funded_facts refundable_def h_campaign_def demo_campaign_def)
qed

text \<open>
  A cancellation after a refund deducts twice. On a campaign that failed at its deadline a refund takes
  the contribution out of the running total; when the creator then cancels the campaign, the
  whole of \<open>amount_raised\<close>, the refunded contribution included, is taken out once more, so that
  the total ends below what the campaign ever added to it.
\<close>

lemma cancellation_deducts_twice:
  assumes refund: "claim_refund e cid who s = Inr s1" and camp: "get_campaign s cid = Some c"
    and live: "\<not> c_is_cancelled c" "0 < c_amount_raised c"
    and cancel: "cancel_campaign e' cid s1 = Inr s2"
  shows "get_total_raised_global s2 =
    get_total_raised_global s - get_contribution s cid who - c_amount_raised c"
proof -
  from claim_refund_purse [OF refund] obtain c' tok w where c': "get_campaign s cid = Some c'"
    "core s1 = k_refund cid c' who (core s)"
    "purse s1 = (purse s)\<lparr>p_world := w,
       p_total := (if c_is_cancelled c' then get_total_raised_global s
                   else get_total_raised_global s - get_contribution s cid who),
       p_claimed := (get_revenue_claimed s)(cid := (get_revenue_claimed s cid)(who := 0))\<rparr>" by metis
  have total: "get_total_raised_global s1 = get_total_raised_global s - get_contribution s cid who"
    using c'(1) camp live by (simp add: purse_fields(3) [symmetric] c'(3))
  have c1: "get_campaign s1 cid =
      Some (c\<lparr>c_effective_amount_raised := c_effective_amount_raised c - get_contribution s cid who\<rparr>)"
    using c'(1) camp by (simp add: core_fields [symmetric] c'(2) k_refund_def)
  from cancel_campaign_total [OF cancel c1] live(2) total show ?thesis by simp
qed

end
